(* ===== verification/Prelude.thy ===== *)
theory Prelude
  imports Main "HOL-Library.Word"
begin

unbundle bit_operations_syntax

text \<open>
  What every component shares: the outcome of a Go computation, machine integer names, byte
  buffers with Go's bounds checks, and decimal printing. Nothing here models a file of the
  repository on its own; the component theories build on it.

  A Go computation of result type \<open>'a\<close> is a value of \<open>'a go\<close>: \<open>None\<close> when it never returns,
  \<open>Some (Inl e)\<close> when it panics or exits the process with \<open>e\<close>, \<open>Some (Inr x)\<close> when it returns
  \<open>x\<close>. Loops over pointer structures, which may be cyclic, are defined by
  \<open>partial_function (option)\<close>, so that a loop that spins is the value \<open>None\<close>.
\<close>

section \<open>Collections\<close>

named_theorems state_consts \<open>definitions of the states of a connection\<close>
named_theorems flag_consts \<open>definitions of the control flags of a segment\<close>
named_theorems length_consts \<open>definitions of the lengths of headers\<close>

section \<open>Outcomes\<close>

datatype panic =
    NilDeref            \<comment> \<open>nil pointer dereference\<close>
  | NilMap              \<comment> \<open>assignment to an entry of a map that was not made\<close>
  | WildPointer         \<comment> \<open>an address that no allocation returned\<close>
  | IndexRange          \<comment> \<open>index or slice bounds out of range\<close>
  | NotCallable         \<comment> \<open>a reflect operation that its value or arguments do not allow\<close>
  | Fatal string        \<comment> \<open>log.Fatal: the process exits\<close>
  | Blocked             \<comment> \<open>a channel operation with nobody to complete it\<close>

type_synonym 'a go = "(panic + 'a) option"

definition ret :: "'a \<Rightarrow> 'a go" where
  "ret x = Some (Inr x)"

definition panic :: "panic \<Rightarrow> 'a go" where
  "panic e = Some (Inl e)"

definition bnd :: "'a go \<Rightarrow> ('a \<Rightarrow> 'b go) \<Rightarrow> 'b go" where
  "bnd m f = Option.bind m (\<lambda>r. case r of Inl e \<Rightarrow> Some (Inl e) | Inr x \<Rightarrow> f x)"

lemma bnd_ret [simp]: "bnd (ret x) f = f x"
  by (simp add: bnd_def ret_def)

lemma bnd_panic [simp]: "bnd (panic e) f = panic e"
  by (simp add: bnd_def panic_def)

lemma bnd_None [simp]: "bnd None f = None"
  by (simp add: bnd_def)

lemma ret_inject [simp]: "ret x = ret y \<longleftrightarrow> x = y"
  by (simp add: ret_def)

lemma panic_inject [simp]: "(panic e :: 'a go) = panic e' \<longleftrightarrow> e = e'"
  by (simp add: panic_def)

lemma ret_neq [simp]: "ret x \<noteq> panic e" "panic e \<noteq> ret x" "ret x \<noteq> None" "panic e \<noteq> None"
  "None \<noteq> ret x" "None \<noteq> panic e"
  by (simp_all add: ret_def panic_def)

lemma bnd_eq_ret: "bnd m f = ret y \<longleftrightarrow> (\<exists>x. m = ret x \<and> f x = ret y)"
  by (cases m) (auto simp: bnd_def ret_def split: sum.splits)

lemma bnd_eq_Some:
  "bnd m f = Some y \<longleftrightarrow> (\<exists>e. m = panic e \<and> y = Inl e) \<or> (\<exists>x. m = ret x \<and> f x = Some y)"
  by (cases m) (auto simp: bnd_def ret_def panic_def split: sum.splits)

lemma bnd_SomeE:
  assumes "bnd m f = Some y"
  obtains (Panic) e where "m = panic e" "y = Inl e" | (Ret) x where "m = ret x" "f x = Some y"
  using assms by (auto simp: bnd_eq_Some)

lemma bnd_assoc: "bnd (bnd m f) g = bnd m (\<lambda>x. bnd (f x) g)"
  by (cases m) (auto simp: bnd_def split: sum.splits)

lemma bnd_ret_right [simp]: "bnd m ret = m"
  by (cases m) (auto simp: bnd_def ret_def split: sum.splits)

text \<open>The panic of an outcome, for evaluation where states have no executable equality.\<close>

definition panic_of :: "'a go \<Rightarrow> panic option" where
  "panic_of m = (case m of None \<Rightarrow> None | Some r \<Rightarrow> (case r of Inl e \<Rightarrow> Some e | Inr x \<Rightarrow> None))"

lemma panic_of_iff: "panic_of m = Some e \<longleftrightarrow> m = panic e"
  by (auto simp: panic_of_def panic_def split: option.splits sum.splits)

definition result_of :: "'a go \<Rightarrow> 'a option" where
  "result_of m = (case m of None \<Rightarrow> None | Some r \<Rightarrow> (case r of Inl e \<Rightarrow> None | Inr x \<Rightarrow> Some x))"

lemma result_of_iff: "result_of m = Some x \<longleftrightarrow> m = ret x"
  by (auto simp: result_of_def ret_def split: option.splits sum.splits)

lemma outcome_simps [simp]:
  "panic_of (ret x) = None" "panic_of (panic e) = Some e"
  "result_of (ret x) = Some x" "result_of (panic e) = None"
  by (simp_all add: panic_of_def result_of_def ret_def panic_def)

lemma bnd_mono [partial_function_mono]:
  assumes mf: "mono_option B" and mg: "\<And>y. mono_option (\<lambda>f. C y f)"
  shows "mono_option (\<lambda>f. bnd (B f) (\<lambda>y. C y f))"
proof -
  have "mono_option (\<lambda>f. Option.bind (B f) (\<lambda>r. case r of Inl e \<Rightarrow> Some (Inl e) | Inr x \<Rightarrow> C x f))"
  proof (rule bind_mono [OF mf])
    fix r
    show "mono_option (\<lambda>f. case r of Inl e \<Rightarrow> Some (Inl e) | Inr x \<Rightarrow> C x f)"
    proof (cases r)
      case (Inl e)
      then show ?thesis by (simp add: monotone_def flat_ord_def)
    next
      case (Inr x)
      with mg [of x] show ?thesis by simp
    qed
  qed
  then show ?thesis by (simp add: bnd_def)
qed

section \<open>Machine integers and bytes\<close>

type_synonym u8 = "8 word"
type_synonym u16 = "16 word"
type_synonym u32 = "32 word"
type_synonym bytes = "8 word list"

text \<open>\<open>b[i]\<close> on a slice: an index past the end panics.\<close>

definition bget :: "bytes \<Rightarrow> nat \<Rightarrow> u8 go" where
  "bget b i = (if i < length b then ret (b ! i) else panic IndexRange)"

definition bput :: "bytes \<Rightarrow> nat \<Rightarrow> u8 \<Rightarrow> bytes go" where
  "bput b i v = (if i < length b then ret (b[i := v]) else panic IndexRange)"

text \<open>\<open>b[i:j]\<close> on a slice whose capacity is its length.\<close>

definition bslice :: "bytes \<Rightarrow> nat \<Rightarrow> nat \<Rightarrow> bytes go" where
  "bslice b i j = (if i \<le> j \<and> j \<le> length b then ret (drop i (take j b)) else panic IndexRange)"

lemma bget_ok [simp]: "i < length b \<Longrightarrow> bget b i = ret (b ! i)"
  by (simp add: bget_def)

lemma bput_ok [simp]: "i < length b \<Longrightarrow> bput b i v = ret (b[i := v])"
  by (simp add: bput_def)

lemma bslice_ok [simp]: "i \<le> j \<Longrightarrow> j \<le> length b \<Longrightarrow> bslice b i j = ret (drop i (take j b))"
  by (simp add: bslice_def)

section \<open>Chunk pools\<close>

text \<open>\<open>slab.NewSyncPool(smallest, largest, growth)\<close>, of a package that is not under \<open>src/\<close>: it keeps its
  arguments until chunks are asked for, and what it then hands out is an argument of the operations.\<close>

datatype pool_config = SyncPool nat nat nat

section \<open>Decimal printing\<close>

text \<open>\<open>%d\<close> of \<open>fmt\<close> on a number that is not negative.\<close>

definition digit :: "nat \<Rightarrow> char" where
  "digit n = char_of (48 + n)"

fun show_dec :: "nat \<Rightarrow> string" where
  "show_dec n = (if n < 10 then [digit n] else show_dec (n div 10) @ [digit (n mod 10)])"

declare show_dec.simps [simp del]

lemma of_char_digit [simp]: "n < 10 \<Longrightarrow> (of_char (digit n) :: nat) = 48 + n"
  by (simp add: digit_def)

lemma show_dec_not_Nil [simp]: "show_dec n \<noteq> []"
  by (simp add: show_dec.simps)

lemma show_dec_digits: "c \<in> set (show_dec n) \<Longrightarrow> \<exists>d < 10. c = digit d"
proof (induction n rule: show_dec.induct)
  case (1 n)
  then show ?case
    by (subst (asm) (2) show_dec.simps) (auto split: if_split_asm intro: exI [of _ "n mod 10"])
qed

end
