(* ===== verification/RB_Node.thy ===== *)
theory RB_Node
  imports Prelude
begin

text \<open>
  The node store of \<open>rbtree.go\<close>: Go's \<open>*Node\<close> pointers, the \<open>Node\<close> struct, the shared sentinel
  \<open>LEAF\<close>, the tree's root pointer, and the loads and stores the operations are written with. A
  load or store through \<open>nil\<close> panics. \<open>slab\<close>, the pool the nodes come from, is not under
  \<open>src/\<close>: the chunk its \<open>Alloc\<close> returns is an argument of the operations that allocate, and the
  chunks handed to its \<open>Free\<close> are recorded in \<open>freed\<close>.
\<close>

section \<open>Data\<close>

definition BLACK :: u8 where "BLACK = 0"
definition RED :: u8 where "RED = 1"

lemma RED_neq_BLACK [simp]: "RED \<noteq> BLACK" "BLACK \<noteq> RED"
  by (simp_all add: RED_def BLACK_def)

datatype nptr = NilP | LEAF | Ref nat

type_synonym 'k item = "'k option"
type_synonym 'k compare_func = "'k item \<Rightarrow> 'k item \<Rightarrow> int go"

record 'k Node =
  keyValue :: "'k item"
  parent :: nptr
  leftChild :: nptr
  rightChild :: nptr
  color :: u8
  addr :: "nat option"

definition LEAF_node :: "'k Node" where
  "LEAF_node = \<lparr>keyValue = None, parent = NilP, leftChild = NilP, rightChild = NilP,
                color = BLACK, addr = None\<rparr>"

record 'k RBtree =
  heap :: "nat \<Rightarrow> 'k Node option"
  leaf :: "'k Node"
  root :: nptr
  freed :: "nat option list"

section \<open>Loads and stores\<close>

fun deref :: "'k RBtree \<Rightarrow> nptr \<Rightarrow> 'k Node go" where
  "deref m NilP = panic NilDeref"
| "deref m LEAF = ret (leaf m)"
| "deref m (Ref a) = (case heap m a of None \<Rightarrow> panic WildPointer | Some n \<Rightarrow> ret n)"

definition ld :: "'k RBtree \<Rightarrow> nptr \<Rightarrow> ('k Node \<Rightarrow> 'v) \<Rightarrow> 'v go" where
  "ld m p f = bnd (deref m p) (\<lambda>n. ret (f n))"

fun st :: "'k RBtree \<Rightarrow> nptr \<Rightarrow> ('k Node \<Rightarrow> 'k Node) \<Rightarrow> 'k RBtree go" where
  "st m NilP f = panic NilDeref"
| "st m LEAF f = ret (m\<lparr>leaf := f (leaf m)\<rparr>)"
| "st m (Ref a) f = (case heap m a of None \<Rightarrow> panic WildPointer
                     | Some n \<Rightarrow> ret (m\<lparr>heap := (heap m)(a := Some (f n))\<rparr>))"

definition set_parent :: "'k RBtree \<Rightarrow> nptr \<Rightarrow> nptr \<Rightarrow> 'k RBtree go" where
  "set_parent m p v = st m p (\<lambda>n. n\<lparr>parent := v\<rparr>)"
definition set_left :: "'k RBtree \<Rightarrow> nptr \<Rightarrow> nptr \<Rightarrow> 'k RBtree go" where
  "set_left m p v = st m p (\<lambda>n. n\<lparr>leftChild := v\<rparr>)"
definition set_right :: "'k RBtree \<Rightarrow> nptr \<Rightarrow> nptr \<Rightarrow> 'k RBtree go" where
  "set_right m p v = st m p (\<lambda>n. n\<lparr>rightChild := v\<rparr>)"
definition set_color :: "'k RBtree \<Rightarrow> nptr \<Rightarrow> u8 \<Rightarrow> 'k RBtree go" where
  "set_color m p v = st m p (\<lambda>n. n\<lparr>color := v\<rparr>)"

lemma ld_NilP [simp]: "ld m NilP f = panic NilDeref"
  by (simp add: ld_def)

lemma ld_LEAF [simp]: "ld m LEAF f = ret (f (leaf m))"
  by (simp add: ld_def)

lemma ld_Ref [simp]: "heap m a = Some n \<Longrightarrow> ld m (Ref a) f = ret (f n)"
  by (simp add: ld_def)

lemmas store_defs = set_parent_def set_left_def set_right_def set_color_def

section \<open>Predicates and small accessors\<close>

definition IS_LEAF :: "nptr \<Rightarrow> bool" where
  "IS_LEAF x = (x = LEAF)"

definition IS_NOT_LEAF :: "nptr \<Rightarrow> bool" where
  "IS_NOT_LEAF x = (x \<noteq> LEAF)"

declare IS_LEAF_def [simp] IS_NOT_LEAF_def [simp]

definition AM_I_LEFT_CHILD :: "'k RBtree \<Rightarrow> nptr \<Rightarrow> bool go" where
  "AM_I_LEFT_CHILD m x =
     bnd (ld m x parent) (\<lambda>p. bnd (ld m p leftChild) (\<lambda>l. ret (x = l)))"

definition AM_I_RIGHT_CHILD :: "'k RBtree \<Rightarrow> nptr \<Rightarrow> bool go" where
  "AM_I_RIGHT_CHILD m x =
     bnd (ld m x parent) (\<lambda>p. bnd (ld m p rightChild) (\<lambda>r. ret (x = r)))"

definition PARENT :: "'k RBtree \<Rightarrow> nptr \<Rightarrow> nptr go" where
  "PARENT m x = ld m x parent"

definition GRANPA :: "'k RBtree \<Rightarrow> nptr \<Rightarrow> nptr go" where
  "GRANPA m x = bnd (ld m x parent) (\<lambda>p. ld m p parent)"

text \<open>\<open>InitTree\<close>: an empty tree over the node store as it stands. The comparison function the
  struct carries is an argument of the operations that call it.\<close>

definition InitTree :: "'k RBtree \<Rightarrow> 'k RBtree" where
  "InitTree m = m\<lparr>root := LEAF\<rparr>"

definition Empty :: "'k RBtree \<Rightarrow> bool" where
  "Empty m = (root m = NilP \<or> IS_LEAF (root m))"

text \<open>The store when the program starts: no node, the sentinel as its initialiser has it.\<close>

definition init_store :: "'k RBtree" where
  "init_store = \<lparr>heap = Map.empty, leaf = LEAF_node, root = NilP, freed = []\<rparr>"

section \<open>Node allocation\<close>

definition InitRBtreeMemPool :: pool_config where
  "InitRBtreeMemPool = SyncPool 60 (60 * 1024 * 200) 2"

text \<open>\<open>RBNodeAlloc\<close> reuses whatever bytes the chunk holds and only stores \<open>addr\<close>. The chunk is
  named by its address \<open>a\<close>, the pool's reply.\<close>

definition RBNodeAlloc :: "nat \<Rightarrow> 'k RBtree \<Rightarrow> (nptr \<times> 'k RBtree) go" where
  "RBNodeAlloc a m =
     (let old = (case heap m a of None \<Rightarrow> LEAF_node | Some n \<Rightarrow> n);
          m = m\<lparr>heap := (heap m)(a := Some (old\<lparr>addr := Some a\<rparr>))\<rparr>
      in ret (Ref a, m))"

definition createNode :: "nat \<Rightarrow> 'k item \<Rightarrow> 'k RBtree \<Rightarrow> (nptr \<times> 'k RBtree) go" where
  "createNode a key m =
     bnd (RBNodeAlloc a m) (\<lambda>(node, m).
     if node = NilP then ret (NilP, m) else
     bnd (st m node (\<lambda>n. n\<lparr>keyValue := key\<rparr>)) (\<lambda>m.
     bnd (set_parent m node LEAF) (\<lambda>m.
     bnd (set_left m node LEAF) (\<lambda>m.
     bnd (set_right m node LEAF) (\<lambda>m.
     bnd (set_color m node RED) (\<lambda>m.
     ret (node, m)))))))"

definition RBNodeFree :: "'k RBtree \<Rightarrow> nptr \<Rightarrow> 'k RBtree go" where
  "RBNodeFree m node = bnd (ld m node addr) (\<lambda>c. ret (m\<lparr>freed := freed m @ [c]\<rparr>))"

end
