(* ===== verification/RB_Ops.thy ===== *)
theory RB_Ops
  imports RB_Node
begin

text \<open>
  The operations of \<open>rbtree.go\<close> as written, over the node store of \<open>RB_Node\<close>: traversal, search,
  rotation, insertion and deletion with their repair loops. Each loop is a
  \<open>partial_function (option)\<close> in tail form; the body of a repair loop, one iteration, is a
  definition of its own.
\<close>

section \<open>Traversal\<close>

partial_function (option) TreeFirstNode :: "'k RBtree \<Rightarrow> nptr \<Rightarrow> nptr go" where
  "TreeFirstNode m node =
     bnd (ld m node leftChild) (\<lambda>l.
     if IS_NOT_LEAF l then TreeFirstNode m l else ret node)"

partial_function (option) TreeLastNode :: "'k RBtree \<Rightarrow> nptr \<Rightarrow> nptr go" where
  "TreeLastNode m node =
     bnd (ld m node rightChild) (\<lambda>r.
     if IS_NOT_LEAF r then TreeLastNode m r else ret node)"

text \<open>The climbing loop of \<open>TreeNext\<close>: up while the parent is a node and we are its right child.\<close>

partial_function (option) next_climb :: "'k RBtree \<Rightarrow> nptr \<Rightarrow> nptr go" where
  "next_climb m node =
     bnd (ld m node parent) (\<lambda>p.
     bnd (if IS_NOT_LEAF p then AM_I_RIGHT_CHILD m node else ret False) (\<lambda>up.
     if up then next_climb m p else ret node))"

definition TreeNext :: "'k RBtree \<Rightarrow> nptr \<Rightarrow> nptr go" where
  "TreeNext m node =
     (if node = NilP then ret NilP else
      bnd (ld m node rightChild) (\<lambda>r.
      if IS_NOT_LEAF r then TreeFirstNode m r
      else
        bnd (ld m node parent) (\<lambda>p.
        bnd (if IS_NOT_LEAF p then AM_I_LEFT_CHILD m node else ret False) (\<lambda>b.
        if b then ret p
        else bnd (next_climb m node) (\<lambda>node. ld m node parent)))))"

text \<open>The climbing loop of \<open>TreePrev\<close> tests the node itself against \<open>LEAF\<close>, not its parent.\<close>

partial_function (option) prev_climb :: "'k RBtree \<Rightarrow> nptr \<Rightarrow> nptr go" where
  "prev_climb m node =
     bnd (if IS_NOT_LEAF node then AM_I_LEFT_CHILD m node else ret False) (\<lambda>up.
     if up then bnd (ld m node parent) (\<lambda>p. prev_climb m p) else ret node)"

definition TreePrev :: "'k RBtree \<Rightarrow> nptr \<Rightarrow> nptr go" where
  "TreePrev m node =
     bnd (ld m node leftChild) (\<lambda>l.
     if IS_NOT_LEAF l then TreeLastNode m l
     else
       bnd (ld m node parent) (\<lambda>p.
       bnd (if IS_NOT_LEAF p then AM_I_RIGHT_CHILD m node else ret False) (\<lambda>b.
       if b then ret p
       else bnd (prev_climb m node) (\<lambda>node. ld m node parent))))"

section \<open>Search\<close>

partial_function (option) FindLoop ::
  "'k compare_func \<Rightarrow> 'k RBtree \<Rightarrow> 'k item \<Rightarrow> nptr \<Rightarrow> nptr go" where
  "FindLoop cmp m key found =
     (if IS_NOT_LEAF found then
        bnd (ld m found keyValue) (\<lambda>k.
        bnd (cmp k key) (\<lambda>result.
        if result = 0 then ret found
        else if result < 0 then bnd (ld m found rightChild) (\<lambda>r. FindLoop cmp m key r)
        else bnd (ld m found leftChild) (\<lambda>l. FindLoop cmp m key l)))
      else ret NilP)"

definition FindNode :: "'k compare_func \<Rightarrow> 'k RBtree \<Rightarrow> 'k item \<Rightarrow> nptr go" where
  "FindNode cmp m key = FindLoop cmp m key (root m)"

text \<open>\<open>FindKey\<close> is the same loop with the node's key as its result, \<open>nil\<close> when there is none.\<close>

definition FindKey :: "'k compare_func \<Rightarrow> 'k RBtree \<Rightarrow> 'k item \<Rightarrow> 'k item go" where
  "FindKey cmp m key =
     bnd (FindLoop cmp m key (root m)) (\<lambda>found.
     if found = NilP then ret None else ld m found keyValue)"

section \<open>Rotations\<close>

definition rotateToLeft :: "'k RBtree \<Rightarrow> nptr \<Rightarrow> 'k RBtree go" where
  "rotateToLeft m node =
     bnd (ld m node rightChild) (\<lambda>temp.
     if temp = LEAF then ret m else
     bnd (ld m temp leftChild) (\<lambda>tl.
     bnd (set_right m node tl) (\<lambda>m.
     bnd (if IS_NOT_LEAF tl then set_parent m tl node else ret m) (\<lambda>m.
     bnd (ld m node parent) (\<lambda>p.
     bnd (set_parent m temp p) (\<lambda>m.
     bnd (if IS_LEAF p then ret (m\<lparr>root := temp\<rparr>)
          else bnd (ld m p leftChild) (\<lambda>pl.
               if node = pl then set_left m p temp else set_right m p temp)) (\<lambda>m.
     bnd (set_left m temp node) (\<lambda>m.
     set_parent m node temp))))))))"

definition rotateToRight :: "'k RBtree \<Rightarrow> nptr \<Rightarrow> 'k RBtree go" where
  "rotateToRight m node =
     bnd (ld m node leftChild) (\<lambda>temp.
     bnd (ld m temp rightChild) (\<lambda>tr.
     bnd (set_left m node tr) (\<lambda>m.
     if temp = LEAF then ret m else
     bnd (if IS_NOT_LEAF tr then set_parent m tr node else ret m) (\<lambda>m.
     bnd (ld m node parent) (\<lambda>p.
     bnd (set_parent m temp p) (\<lambda>m.
     bnd (if IS_LEAF p then ret (m\<lparr>root := temp\<rparr>)
          else bnd (ld m p rightChild) (\<lambda>pr.
               if node = pr then set_right m p temp else set_left m p temp)) (\<lambda>m.
     bnd (set_right m temp node) (\<lambda>m.
     set_parent m node temp))))))))"

section \<open>Insertion\<close>

text \<open>One iteration of \<open>fixInsertCollisions\<close> when \<open>node.parent\<close> is a right child: the new store
  and the new value of \<open>node\<close>.\<close>

definition fixInsert_right :: "'k RBtree \<Rightarrow> nptr \<Rightarrow> ('k RBtree \<times> nptr) go" where
  "fixInsert_right m node =
     bnd (GRANPA m node) (\<lambda>g.
     bnd (ld m g leftChild) (\<lambda>temp.
     bnd (ld m temp color) (\<lambda>tc.
     if tc = RED then
       bnd (PARENT m node) (\<lambda>p.
       bnd (set_color m p BLACK) (\<lambda>m.
       bnd (set_color m temp BLACK) (\<lambda>m.
       bnd (GRANPA m node) (\<lambda>g.
       bnd (set_color m g RED) (\<lambda>m.
       bnd (GRANPA m node) (\<lambda>g. ret (m, g)))))))
     else if tc = BLACK then
       bnd (PARENT m node) (\<lambda>p.
       bnd (ld m p leftChild) (\<lambda>pl.
       bnd (if node = pl then bnd (rotateToRight m p) (\<lambda>m. ret (m, p)) else ret (m, node))
         (\<lambda>(m, node).
       bnd (PARENT m node) (\<lambda>p.
       bnd (set_color m p BLACK) (\<lambda>m.
       bnd (GRANPA m node) (\<lambda>g.
       bnd (set_color m g RED) (\<lambda>m.
       bnd (GRANPA m node) (\<lambda>g.
       bnd (rotateToLeft m g) (\<lambda>m. ret (m, node))))))))))
     else ret (m, node))))"

definition fixInsert_left :: "'k RBtree \<Rightarrow> nptr \<Rightarrow> ('k RBtree \<times> nptr) go" where
  "fixInsert_left m node =
     bnd (GRANPA m node) (\<lambda>g.
     bnd (ld m g rightChild) (\<lambda>temp.
     bnd (ld m temp color) (\<lambda>tc.
     if tc = RED then
       bnd (PARENT m node) (\<lambda>p.
       bnd (set_color m p BLACK) (\<lambda>m.
       bnd (set_color m temp BLACK) (\<lambda>m.
       bnd (GRANPA m node) (\<lambda>g.
       bnd (set_color m g RED) (\<lambda>m.
       bnd (GRANPA m node) (\<lambda>g. ret (m, g)))))))
     else if tc = BLACK then
       bnd (AM_I_RIGHT_CHILD m node) (\<lambda>rc.
       bnd (if rc then bnd (PARENT m node) (\<lambda>p. bnd (rotateToLeft m p) (\<lambda>m. ret (m, p)))
            else ret (m, node))
         (\<lambda>(m, node).
       bnd (PARENT m node) (\<lambda>p.
       bnd (set_color m p BLACK) (\<lambda>m.
       bnd (GRANPA m node) (\<lambda>g.
       bnd (set_color m g RED) (\<lambda>m.
       bnd (GRANPA m node) (\<lambda>g.
       bnd (rotateToRight m g) (\<lambda>m. ret (m, node)))))))))
     else ret (m, node))))"

definition fixInsert_body :: "'k RBtree \<Rightarrow> nptr \<Rightarrow> ('k RBtree \<times> nptr) go" where
  "fixInsert_body m node =
     bnd (PARENT m node) (\<lambda>p.
     bnd (AM_I_RIGHT_CHILD m p) (\<lambda>rc.
     if rc then fixInsert_right m node else
     bnd (AM_I_LEFT_CHILD m p) (\<lambda>lc.
     if lc then fixInsert_left m node else ret (m, node))))"

definition fixInsert_guard :: "'k RBtree \<Rightarrow> nptr \<Rightarrow> bool go" where
  "fixInsert_guard m node =
     bnd (PARENT m node) (\<lambda>p.
     bnd (ld m p color) (\<lambda>c.
     if c = RED then bnd (GRANPA m node) (\<lambda>g. ret (IS_NOT_LEAF g)) else ret False))"

partial_function (option) fixInsert_loop :: "'k RBtree \<Rightarrow> nptr \<Rightarrow> 'k RBtree go" where
  "fixInsert_loop m node =
     bnd (fixInsert_guard m node) (\<lambda>go_on.
     if go_on then bnd (fixInsert_body m node) (\<lambda>r. fixInsert_loop (fst r) (snd r))
     else ret m)"

definition fixInsertCollisions :: "'k RBtree \<Rightarrow> nptr \<Rightarrow> 'k RBtree go" where
  "fixInsertCollisions m node =
     bnd (fixInsert_loop m node) (\<lambda>m. set_color m (root m) BLACK)"

text \<open>The descent of \<open>Insert\<close>: the last node passed, \<open>LEAF\<close> on an empty tree.\<close>

partial_function (option) insert_search ::
  "'k compare_func \<Rightarrow> 'k RBtree \<Rightarrow> 'k item \<Rightarrow> nptr \<Rightarrow> nptr \<Rightarrow> nptr go" where
  "insert_search cmp m key last_node temp =
     (if IS_NOT_LEAF temp then
        bnd (ld m temp keyValue) (\<lambda>k.
        bnd (cmp key k) (\<lambda>result.
        if result < 0 then bnd (ld m temp leftChild) (\<lambda>l. insert_search cmp m key temp l)
        else bnd (ld m temp rightChild) (\<lambda>r. insert_search cmp m key temp r)))
      else ret last_node)"

text \<open>What \<open>Insert\<close> returns: \<open>nil\<close>, the key already stored, or \<open>&LEAF\<close> for a failed allocation.\<close>

datatype 'k reply = ReplyNil | ReplyKey 'k | ReplyLEAF

definition Insert ::
  "'k compare_func \<Rightarrow> nat \<Rightarrow> 'k item \<Rightarrow> 'k RBtree \<Rightarrow> ('k reply \<times> 'k RBtree) go" where
  "Insert cmp a key m =
     bnd (if IS_NOT_LEAF (root m) then FindKey cmp m key else ret None) (\<lambda>LocalKey.
     case LocalKey of Some k \<Rightarrow> ret (ReplyKey k, m) | None \<Rightarrow>
     let temp = root m in
     bnd (createNode a key m) (\<lambda>(insert, m).
     if insert = NilP then ret (ReplyLEAF, m) else
     bnd (ld m insert keyValue) (\<lambda>ik.
     bnd (insert_search cmp m ik LEAF temp) (\<lambda>last_node.
     bnd (set_parent m insert last_node) (\<lambda>m.
     bnd (if IS_LEAF last_node then ret (m\<lparr>root := insert\<rparr>)
          else bnd (ld m last_node keyValue) (\<lambda>lk.
               bnd (cmp ik lk) (\<lambda>result.
               if result < 0 then set_left m last_node insert
               else set_right m last_node insert))) (\<lambda>m.
     bnd (fixInsertCollisions m insert) (\<lambda>m.
     ret (ReplyNil, m))))))))"

section \<open>Deletion\<close>

definition switchNodes :: "'k RBtree \<Rightarrow> nptr \<Rightarrow> nptr \<Rightarrow> 'k RBtree go" where
  "switchNodes m nodeA nodeB =
     bnd (ld m nodeA parent) (\<lambda>p.
     bnd (if IS_LEAF p then ret (m\<lparr>root := nodeB\<rparr>)
          else if IS_NOT_LEAF nodeA then
            bnd (AM_I_LEFT_CHILD m nodeA) (\<lambda>lc.
            if lc then set_left m p nodeB else set_right m p nodeB)
          else ret m) (\<lambda>m.
     if IS_NOT_LEAF nodeB then
       bnd (ld m nodeA parent) (\<lambda>p. set_parent m nodeB p)
     else ret m))"

text \<open>The out-parameter \<open>temp\<close> is the second component of the result of \<open>deleteNode\<close> and
  \<open>deleteCheckSwitch\<close>.\<close>

definition deleteNode :: "'k RBtree \<Rightarrow> nptr \<Rightarrow> (u8 \<times> nptr \<times> 'k RBtree) go" where
  "deleteNode m d =
     bnd (ld m d rightChild) (\<lambda>dr.
     bnd (TreeFirstNode m dr) (\<lambda>mn.
     bnd (ld m mn color) (\<lambda>nodeColor.
     bnd (ld m mn rightChild) (\<lambda>temp.
     bnd (ld m mn parent) (\<lambda>mp.
     bnd (if mp = d \<and> IS_NOT_LEAF temp then set_parent m temp mn
          else
            bnd (switchNodes m mn temp) (\<lambda>m.
            bnd (ld m d rightChild) (\<lambda>dr.
            bnd (set_right m mn dr) (\<lambda>m.
            if IS_NOT_LEAF dr then set_parent m dr mn else ret m)))) (\<lambda>m.
     bnd (switchNodes m d mn) (\<lambda>m.
     bnd (ld m d leftChild) (\<lambda>dl.
     bnd (set_left m mn dl) (\<lambda>m.
     bnd (if IS_NOT_LEAF dl then set_parent m dl mn else ret m) (\<lambda>m.
     bnd (ld m d color) (\<lambda>dc.
     bnd (set_color m mn dc) (\<lambda>m.
     ret (nodeColor, temp, m)))))))))))))"

definition deleteCheckSwitch :: "'k RBtree \<Rightarrow> nptr \<Rightarrow> (u8 \<times> nptr \<times> 'k RBtree) go" where
  "deleteCheckSwitch m d =
     bnd (ld m d color) (\<lambda>nodeColor.
     bnd (ld m d leftChild) (\<lambda>l.
     bnd (ld m d rightChild) (\<lambda>r.
     if IS_LEAF l then bnd (switchNodes m d r) (\<lambda>m. ret (nodeColor, r, m))
     else if IS_LEAF r then bnd (switchNodes m d l) (\<lambda>m. ret (nodeColor, l, m))
     else deleteNode m d)))"

text \<open>One iteration of \<open>fixDeleteCollisions\<close> for a left child, then its mirror image.\<close>

definition fixDelete_left :: "'k RBtree \<Rightarrow> nptr \<Rightarrow> ('k RBtree \<times> nptr) go" where
  "fixDelete_left m node =
     bnd (PARENT m node) (\<lambda>p.
     bnd (ld m p rightChild) (\<lambda>temp.
     bnd (ld m temp color) (\<lambda>tc.
     bnd (if tc = RED then
            bnd (set_color m temp BLACK) (\<lambda>m.
            bnd (set_color m p RED) (\<lambda>m.
            bnd (rotateToLeft m p) (\<lambda>m.
            bnd (PARENT m node) (\<lambda>p.
            bnd (ld m p rightChild) (\<lambda>temp. ret (m, temp))))))
          else ret (m, temp)) (\<lambda>(m, temp).
     bnd (ld m temp leftChild) (\<lambda>tl.
     bnd (ld m tl color) (\<lambda>tlc.
     bnd (if tlc = BLACK then
            bnd (ld m temp rightChild) (\<lambda>tr. bnd (ld m tr color) (\<lambda>c. ret (c = BLACK)))
          else ret False) (\<lambda>both_black.
     if both_black then
       bnd (set_color m temp RED) (\<lambda>m.
       bnd (PARENT m node) (\<lambda>p. ret (m, p)))
     else
       bnd (ld m temp rightChild) (\<lambda>tr.
       bnd (ld m tr color) (\<lambda>trc.
       bnd (if trc = BLACK then
              bnd (ld m temp leftChild) (\<lambda>tl.
              bnd (set_color m tl BLACK) (\<lambda>m.
              bnd (set_color m temp RED) (\<lambda>m.
              bnd (rotateToRight m temp) (\<lambda>m.
              bnd (PARENT m temp) (\<lambda>tp.
              bnd (ld m tp rightChild) (\<lambda>temp. ret (m, temp)))))))
            else ret (m, temp)) (\<lambda>(m, temp).
       bnd (PARENT m node) (\<lambda>p.
       bnd (ld m p color) (\<lambda>pc.
       bnd (set_color m temp pc) (\<lambda>m.
       bnd (set_color m p BLACK) (\<lambda>m.
       bnd (ld m temp rightChild) (\<lambda>tr.
       bnd (set_color m tr BLACK) (\<lambda>m.
       bnd (rotateToLeft m p) (\<lambda>m.
       ret (m, root m))))))))))))))))))"

definition fixDelete_right :: "'k RBtree \<Rightarrow> nptr \<Rightarrow> ('k RBtree \<times> nptr) go" where
  "fixDelete_right m node =
     bnd (PARENT m node) (\<lambda>p.
     bnd (ld m p leftChild) (\<lambda>temp.
     bnd (ld m temp color) (\<lambda>tc.
     bnd (if tc = RED then
            bnd (set_color m temp BLACK) (\<lambda>m.
            bnd (set_color m p RED) (\<lambda>m.
            bnd (rotateToRight m p) (\<lambda>m.
            bnd (PARENT m node) (\<lambda>p.
            bnd (ld m p leftChild) (\<lambda>temp. ret (m, temp))))))
          else ret (m, temp)) (\<lambda>(m, temp).
     bnd (ld m temp rightChild) (\<lambda>tr.
     bnd (ld m tr color) (\<lambda>trc.
     bnd (if trc = BLACK then
            bnd (ld m temp leftChild) (\<lambda>tl. bnd (ld m tl color) (\<lambda>c. ret (c = BLACK)))
          else ret False) (\<lambda>both_black.
     if both_black then
       bnd (set_color m temp RED) (\<lambda>m.
       bnd (PARENT m node) (\<lambda>p. ret (m, p)))
     else
       bnd (ld m temp leftChild) (\<lambda>tl.
       bnd (ld m tl color) (\<lambda>tlc.
       bnd (if tlc = BLACK then
              bnd (ld m temp rightChild) (\<lambda>tr.
              bnd (set_color m tr BLACK) (\<lambda>m.
              bnd (set_color m temp RED) (\<lambda>m.
              bnd (rotateToLeft m temp) (\<lambda>m.
              bnd (PARENT m temp) (\<lambda>tp.
              bnd (ld m tp leftChild) (\<lambda>temp. ret (m, temp)))))))
            else ret (m, temp)) (\<lambda>(m, temp).
       bnd (PARENT m node) (\<lambda>p.
       bnd (ld m p color) (\<lambda>pc.
       bnd (set_color m temp pc) (\<lambda>m.
       bnd (set_color m p BLACK) (\<lambda>m.
       bnd (ld m temp leftChild) (\<lambda>tl.
       bnd (set_color m tl BLACK) (\<lambda>m.
       bnd (rotateToRight m p) (\<lambda>m.
       ret (m, root m))))))))))))))))))"

definition fixDelete_body :: "'k RBtree \<Rightarrow> nptr \<Rightarrow> ('k RBtree \<times> nptr) go" where
  "fixDelete_body m node =
     bnd (AM_I_LEFT_CHILD m node) (\<lambda>lc.
     if lc then fixDelete_left m node else fixDelete_right m node)"

definition fixDelete_guard :: "'k RBtree \<Rightarrow> nptr \<Rightarrow> bool go" where
  "fixDelete_guard m node =
     (if node = root m then ret False
      else bnd (ld m node color) (\<lambda>c. ret (c = BLACK \<and> IS_NOT_LEAF node)))"

partial_function (option) fixDelete_loop :: "'k RBtree \<Rightarrow> nptr \<Rightarrow> ('k RBtree \<times> nptr) go" where
  "fixDelete_loop m node =
     bnd (fixDelete_guard m node) (\<lambda>go_on.
     if go_on then bnd (fixDelete_body m node) (\<lambda>r. fixDelete_loop (fst r) (snd r))
     else ret (m, node))"

definition fixDeleteCollisions :: "'k RBtree \<Rightarrow> nptr \<Rightarrow> 'k RBtree go" where
  "fixDeleteCollisions m node =
     bnd (fixDelete_loop m node) (\<lambda>r. set_color (fst r) (snd r) BLACK)"

definition Delete ::
  "'k compare_func \<Rightarrow> 'k item \<Rightarrow> 'k RBtree \<Rightarrow> ('k item \<times> 'k RBtree) go" where
  "Delete cmp key m =
     (case key of None \<Rightarrow> ret (None, m) | Some _ \<Rightarrow>
     bnd (FindNode cmp m key) (\<lambda>d.
     if d = NilP then ret (None, m) else
     bnd (ld m d keyValue) (\<lambda>lkey.
     bnd (deleteCheckSwitch m d) (\<lambda>(nodeColor, temp, m).
     bnd (if nodeColor = BLACK then fixDeleteCollisions m temp else ret m) (\<lambda>m.
     bnd (RBNodeFree m d) (\<lambda>m.
     ret (lkey, m)))))))"

text \<open>The loops evaluate by their equations.\<close>

lemmas rb_loop_simps [code] =
  TreeFirstNode.simps TreeLastNode.simps next_climb.simps prev_climb.simps FindLoop.simps
  insert_search.simps fixInsert_loop.simps fixDelete_loop.simps

end
