(* ===== verification/RB_Tree.thy ===== *)
theory RB_Tree
  imports RB_Node
begin

text \<open>
  What a store of \<open>RB_Node\<close> means: the tree it holds. An abstract node carries the address of the
  concrete one, so that a store determines the tree and the tree determines the fields of every
  node. A tree under work is a zipper: the frames above the focus, innermost first, and the
  subtree in focus. \<open>rep m fs t\<close> says that the store \<open>m\<close> holds exactly that zipper; moving the
  focus up or down does not change the store.
\<close>

section \<open>Trees and frames\<close>

datatype colour = Red | Black

fun cw :: "colour \<Rightarrow> u8" where
  "cw Red = RED"
| "cw Black = BLACK"

lemma cw_eq [simp]: "cw c = RED \<longleftrightarrow> c = Red" "cw c = BLACK \<longleftrightarrow> c = Black"
  by (cases c; simp)+

lemma not_Red [simp]: "c \<noteq> Red \<longleftrightarrow> c = Black" "c \<noteq> Black \<longleftrightarrow> c = Red"
  by (cases c; simp)+

datatype 'k rbt = Lf | Nd "'k rbt" nat colour 'k "'k rbt"

datatype 'k frame =
    LFr nat colour 'k "'k rbt"   \<comment> \<open>the hole is the left child of this node\<close>
  | RFr "'k rbt" nat colour 'k   \<comment> \<open>the hole is the right child\<close>

type_synonym 'k frames = "'k frame list"

fun ptr_of :: "'k rbt \<Rightarrow> nptr" where
  "ptr_of Lf = LEAF"
| "ptr_of (Nd l a c k r) = Ref a"

fun tcol :: "'k rbt \<Rightarrow> colour" where
  "tcol Lf = Black"
| "tcol (Nd l a c k r) = c"

fun paint :: "colour \<Rightarrow> 'k rbt \<Rightarrow> 'k rbt" where
  "paint c Lf = Lf"
| "paint c (Nd l a c' k r) = Nd l a c k r"

fun frame_addr :: "'k frame \<Rightarrow> nat" where
  "frame_addr (LFr a c k r) = a"
| "frame_addr (RFr l a c k) = a"

fun fcol :: "'k frame \<Rightarrow> colour" where
  "fcol (LFr a c k r) = c"
| "fcol (RFr l a c k) = c"

fun fpaint :: "colour \<Rightarrow> 'k frame \<Rightarrow> 'k frame" where
  "fpaint c (LFr a c' k r) = LFr a c k r"
| "fpaint c (RFr l a c' k) = RFr l a c k"

fun fill :: "'k frame \<Rightarrow> 'k rbt \<Rightarrow> 'k rbt" where
  "fill (LFr a c k r) t = Nd t a c k r"
| "fill (RFr l a c k) t = Nd l a c k t"

fun plug :: "'k frames \<Rightarrow> 'k rbt \<Rightarrow> 'k rbt" where
  "plug [] t = t"
| "plug (f # fs) t = plug fs (fill f t)"

fun above :: "'k frames \<Rightarrow> nptr" where
  "above [] = LEAF"
| "above (f # fs) = Ref (frame_addr f)"

fun addrs :: "'k rbt \<Rightarrow> nat list" where
  "addrs Lf = []"
| "addrs (Nd l a c k r) = a # addrs l @ addrs r"

fun faddrs :: "'k frames \<Rightarrow> nat list" where
  "faddrs [] = []"
| "faddrs (LFr a c k r # fs) = a # addrs r @ faddrs fs"
| "faddrs (RFr l a c k # fs) = a # addrs l @ faddrs fs"

fun inorder :: "'k rbt \<Rightarrow> 'k list" where
  "inorder Lf = []"
| "inorder (Nd l a c k r) = inorder l @ k # inorder r"

text \<open>The nodes of a tree in key order, with their addresses.\<close>

fun nodes :: "'k rbt \<Rightarrow> (nat \<times> 'k) list" where
  "nodes Lf = []"
| "nodes (Nd l a c k r) = nodes l @ (a, k) # nodes r"

fun fleft :: "'k frames \<Rightarrow> 'k list" where
  "fleft [] = []"
| "fleft (LFr a c k r # fs) = fleft fs"
| "fleft (RFr l a c k # fs) = fleft fs @ inorder l @ [k]"

fun fright :: "'k frames \<Rightarrow> 'k list" where
  "fright [] = []"
| "fright (LFr a c k r # fs) = k # inorder r @ fright fs"
| "fright (RFr l a c k # fs) = fright fs"

lemma inorder_paint [simp]: "inorder (paint c t) = inorder t"
  by (cases t) simp_all

lemma ptr_of_paint [simp]: "ptr_of (paint c t) = ptr_of t"
  by (cases t) simp_all

lemma addrs_paint [simp]: "addrs (paint c t) = addrs t"
  by (cases t) simp_all

lemma inorder_plug: "inorder (plug fs t) = fleft fs @ inorder t @ fright fs"
proof (induction fs arbitrary: t)
  case Nil
  then show ?case by simp
next
  case (Cons f fs)
  then show ?case by (cases f) simp_all
qed

lemma plug_append: "plug (fs @ gs) t = plug gs (plug fs t)"
  by (induction fs arbitrary: t) simp_all

lemma map_snd_nodes [simp]: "map snd (nodes t) = inorder t"
  by (induction t) simp_all

lemma set_map_fst_nodes: "fst ` set (nodes t) = set (addrs t)"
  by (induction t) auto

section \<open>The tree in the store\<close>

definition mk_node :: "nat \<Rightarrow> nptr \<Rightarrow> nptr \<Rightarrow> nptr \<Rightarrow> colour \<Rightarrow> 'k \<Rightarrow> 'k Node" where
  "mk_node a p l r c k = \<lparr>keyValue = Some k, parent = p, leftChild = l, rightChild = r,
                          color = cw c, addr = Some a\<rparr>"

lemma mk_node_sel [simp]:
  "keyValue (mk_node a p l r c k) = Some k" "parent (mk_node a p l r c k) = p"
  "leftChild (mk_node a p l r c k) = l" "rightChild (mk_node a p l r c k) = r"
  "color (mk_node a p l r c k) = cw c" "addr (mk_node a p l r c k) = Some a"
  by (simp_all add: mk_node_def)

lemma mk_node_upd [simp]:
  "(mk_node a p l r c k)\<lparr>parent := q\<rparr> = mk_node a q l r c k"
  "(mk_node a p l r c k)\<lparr>leftChild := q\<rparr> = mk_node a p q r c k"
  "(mk_node a p l r c k)\<lparr>rightChild := q\<rparr> = mk_node a p l q c k"
  "(mk_node a p l r c k)\<lparr>color := RED\<rparr> = mk_node a p l r Red k"
  "(mk_node a p l r c k)\<lparr>color := BLACK\<rparr> = mk_node a p l r Black k"
  "(mk_node a p l r c k)\<lparr>color := cw d\<rparr> = mk_node a p l r d k"
  by (simp_all add: mk_node_def)

fun stored :: "(nat \<Rightarrow> 'k Node option) \<Rightarrow> nptr \<Rightarrow> 'k rbt \<Rightarrow> bool" where
  "stored h p Lf = True"
| "stored h p (Nd l a c k r) =
     (h a = Some (mk_node a p (ptr_of l) (ptr_of r) c k) \<and> stored h (Ref a) l \<and> stored h (Ref a) r)"

text \<open>\<open>q\<close> is the pointer in the hole of the innermost frame.\<close>

fun fstored :: "(nat \<Rightarrow> 'k Node option) \<Rightarrow> nptr \<Rightarrow> 'k frames \<Rightarrow> bool" where
  "fstored h q [] = True"
| "fstored h q (LFr a c k r # fs) =
     (h a = Some (mk_node a (above fs) q (ptr_of r) c k) \<and> stored h (Ref a) r \<and> fstored h (Ref a) fs)"
| "fstored h q (RFr l a c k # fs) =
     (h a = Some (mk_node a (above fs) (ptr_of l) q c k) \<and> stored h (Ref a) l \<and> fstored h (Ref a) fs)"

fun root_of :: "nptr \<Rightarrow> 'k frames \<Rightarrow> nptr" where
  "root_of q [] = q"
| "root_of q (f # fs) = root_of (Ref (frame_addr f)) fs"

definition rep :: "'k RBtree \<Rightarrow> 'k frames \<Rightarrow> 'k rbt \<Rightarrow> bool" where
  "rep m fs t \<longleftrightarrow> leaf m = LEAF_node \<and> distinct (faddrs fs @ addrs t)
     \<and> stored (heap m) (above fs) t \<and> fstored (heap m) (ptr_of t) fs \<and> root m = root_of (ptr_of t) fs"

definition is_tree :: "'k RBtree \<Rightarrow> 'k rbt \<Rightarrow> bool" where
  "is_tree m t \<longleftrightarrow> rep m [] t"

lemma stored_upd [simp]: "a \<notin> set (addrs t) \<Longrightarrow> stored (h(a := x)) p t = stored h p t"
  by (induction t arbitrary: p) auto

lemma fstored_upd [simp]: "a \<notin> set (faddrs fs) \<Longrightarrow> fstored (h(a := x)) q fs = fstored h q fs"
  by (induction fs arbitrary: q rule: faddrs.induct) auto

lemma rep_up: "rep m (f # fs) t = rep m fs (fill f t)"
  by (cases f) (auto simp: rep_def)

lemma rep_LFr: "rep m (LFr a c k r # fs) t = rep m fs (Nd t a c k r)"
  by (simp add: rep_up)

lemma rep_RFr: "rep m (RFr l a c k # fs) t = rep m fs (Nd l a c k t)"
  by (simp add: rep_up)

lemma rep_plug: "rep m fs t = is_tree m (plug fs t)"
  by (induction fs arbitrary: t) (simp_all add: rep_up is_tree_def)

lemma rep_leaf: "rep m fs t \<Longrightarrow> leaf m = LEAF_node"
  by (simp add: rep_def)

lemma LEAF_node_sel [simp]:
  "keyValue LEAF_node = None" "parent LEAF_node = NilP" "leftChild LEAF_node = NilP"
  "rightChild LEAF_node = NilP" "color LEAF_node = BLACK" "addr LEAF_node = None"
  by (simp_all add: LEAF_node_def)

lemma ptr_of_neq [simp]:
  "a \<notin> set (addrs t) \<Longrightarrow> ptr_of t \<noteq> Ref a" "a \<notin> set (addrs t) \<Longrightarrow> Ref a \<noteq> ptr_of t"
  by (cases t; auto)+

lemma ptr_of_NilP [simp]: "ptr_of t \<noteq> NilP" "NilP \<noteq> ptr_of t"
  by (cases t; simp)+

lemma ptr_of_LEAF [simp]: "ptr_of t = LEAF \<longleftrightarrow> t = Lf" "LEAF = ptr_of t \<longleftrightarrow> t = Lf"
  by (cases t; simp)+

lemma above_neq [simp]: "above fs \<noteq> NilP" "above fs = LEAF \<longleftrightarrow> fs = []" "LEAF = above fs \<longleftrightarrow> fs = []"
  by (cases fs; simp)+

text \<open>What the loads see at the focus, and at the frame above it.\<close>

lemma rep_focus:
  assumes "rep m fs (Nd l a c k r)"
  shows "heap m a = Some (mk_node a (above fs) (ptr_of l) (ptr_of r) c k)"
  using assms by (simp add: rep_def)

lemma rep_LFr_node:
  assumes "rep m (LFr a c k r # fs) t"
  shows "heap m a = Some (mk_node a (above fs) (ptr_of t) (ptr_of r) c k)"
  using assms by (simp add: rep_def)

lemma rep_RFr_node:
  assumes "rep m (RFr l a c k # fs) t"
  shows "heap m a = Some (mk_node a (above fs) (ptr_of l) (ptr_of t) c k)"
  using assms by (simp add: rep_def)

lemma rep_color: "rep m fs t \<Longrightarrow> ld m (ptr_of t) color = ret (cw (tcol t))"
  by (cases t) (auto simp: rep_leaf rep_focus)

lemma is_tree_iff:
  "is_tree m t \<longleftrightarrow> leaf m = LEAF_node \<and> distinct (addrs t) \<and> stored (heap m) LEAF t \<and> root m = ptr_of t"
  by (simp add: is_tree_def rep_def)

lemma rep_root: "rep m fs t \<Longrightarrow> root m = ptr_of (plug fs t)"
  by (simp add: rep_plug is_tree_iff)

section \<open>Footprints\<close>

text \<open>\<open>same_outside A m m'\<close>: the store changed at the addresses of \<open>A\<close> only; no chunk was freed.\<close>

definition same_outside :: "nat set \<Rightarrow> 'k RBtree \<Rightarrow> 'k RBtree \<Rightarrow> bool" where
  "same_outside A m m' \<longleftrightarrow>
     freed m' = freed m \<and> leaf m' = leaf m \<and> (\<forall>a. a \<notin> A \<longrightarrow> heap m' a = heap m a)"

lemma same_outside_refl [simp]: "same_outside A m m"
  by (simp add: same_outside_def)

lemma same_outside_trans:
  "same_outside A m m' \<Longrightarrow> same_outside A m' m'' \<Longrightarrow> same_outside A m m''"
  by (simp add: same_outside_def)

lemma same_outside_mono: "same_outside A m m' \<Longrightarrow> A \<subseteq> B \<Longrightarrow> same_outside B m m'"
  by (auto simp: same_outside_def)

text \<open>The addresses of a zipper do not depend on where its focus is.\<close>

lemma set_addrs_plug: "set (addrs (plug fs t)) = set (faddrs fs) \<union> set (addrs t)"
proof (induction fs arbitrary: t)
  case Nil
  then show ?case by simp
next
  case (Cons f fs)
  then show ?case by (cases f) auto
qed

lemma distinct_addrs_plug: "rep m fs t \<Longrightarrow> distinct (addrs (plug fs t))"
  by (simp add: rep_plug is_tree_iff)

end
