(* ===== verification/RB_Rotate.thy ===== *)
theory RB_Rotate
  imports RB_Ops RB_Tree
begin

text \<open>
  Stores and rotations as steps on zippers: recolouring the focus, \<open>rotateToLeft\<close> and
  \<open>rotateToRight\<close>. Each lemma says that the operation returns, what zipper the new store holds
  and which addresses it touched.
\<close>

section \<open>Recolouring\<close>

lemma set_color_rep:
  assumes "rep m fs (Nd l a c k r)"
  shows "\<exists>m'. set_color m (Ref a) (cw d) = ret m' \<and> rep m' fs (Nd l a d k r) \<and> same_outside {a} m m'"
  using assms by (cases fs rule: faddrs.cases) (auto simp: rep_def set_color_def same_outside_def)

lemma set_color_paint:
  assumes "rep m fs t" and "t \<noteq> Lf"
  shows "\<exists>m'. set_color m (ptr_of t) (cw d) = ret m' \<and> rep m' fs (paint d t)
    \<and> same_outside (set (addrs t)) m m'"
proof (cases t)
  case Lf
  with assms show ?thesis by simp
next
  case (Nd l a c k r)
  with assms have "rep m fs (Nd l a c k r)" by simp
  from set_color_rep [OF this, of d] show ?thesis
    using Nd by (auto simp: same_outside_def)
qed

text \<open>Writing \<open>BLACK\<close> into the sentinel changes nothing.\<close>

lemma set_color_LEAF:
  assumes "leaf m = LEAF_node"
  shows "set_color m LEAF BLACK = ret m"
  using assms by (simp add: set_color_def LEAF_node_def BLACK_def)

section \<open>Rotations\<close>

lemma rotateToLeft_rep:
  assumes "rep m fs (Nd l a c k (Nd rl b d j rr))"
  shows "\<exists>m'. rotateToLeft m (Ref a) = ret m' \<and> rep m' fs (Nd (Nd l a c k rl) b d j rr)
    \<and> same_outside (set (addrs (plug fs (Nd l a c k (Nd rl b d j rr))))) m m'"
  using assms
  by (cases fs rule: faddrs.cases; cases rl)
    (auto simp: rep_def rotateToLeft_def store_defs same_outside_def set_addrs_plug)

lemma rotateToRight_rep:
  assumes "rep m fs (Nd (Nd ll b d j lr) a c k r)"
  shows "\<exists>m'. rotateToRight m (Ref a) = ret m' \<and> rep m' fs (Nd ll b d j (Nd lr a c k r))
    \<and> same_outside (set (addrs (plug fs (Nd (Nd ll b d j lr) a c k r)))) m m'"
  using assms
  by (cases fs rule: faddrs.cases; cases lr)
    (auto simp: rep_def rotateToRight_def store_defs same_outside_def set_addrs_plug)

end
