(* ===== verification/RB_Search.thy ===== *)
theory RB_Search
  imports RB_Rotate
begin

text \<open>
  The contract of a comparison function, as a locale, and the search operations under it:
  \<open>FindNode\<close> and \<open>FindKey\<close> find the stored key that compares equal, when there is one.
\<close>

section \<open>The contract of \<open>CompareFunc\<close>\<close>

locale comparator =
  fixes Compare :: "'k compare_func" and ord :: "'k \<Rightarrow> 'k \<Rightarrow> int"
  assumes returns: "Compare (Some a) (Some b) = ret (ord a b)"
    and flip: "ord a b < 0 \<longleftrightarrow> 0 < ord b a"
    and less_trans: "ord a b < 0 \<Longrightarrow> ord b c < 0 \<Longrightarrow> ord a c < 0"
    and eq_less: "ord a b = 0 \<Longrightarrow> ord b c < 0 \<Longrightarrow> ord a c < 0"
begin

lemma ord_refl: "ord a a = 0"
  using flip [of a a] by linarith

lemma eq_sym: "ord a b = 0 \<Longrightarrow> ord b a = 0"
  using flip [of a b] flip [of b a] by linarith

lemma less_eq: "ord a b < 0 \<Longrightarrow> ord b c = 0 \<Longrightarrow> ord a c < 0"
  using eq_less [of c b a] eq_sym [of b c] less_trans [of c a b] eq_less [of c a b] flip [of a b]
    flip [of c a] flip [of a c] flip [of c b] eq_sym [of a c]
  by linarith

lemma eq_trans: "ord a b = 0 \<Longrightarrow> ord b c = 0 \<Longrightarrow> ord a c = 0"
  using eq_less [of b a c] eq_sym [of a b] eq_less [of b c a] flip [of c a]
  by linarith

lemma not_less: "\<not> ord a b < 0 \<Longrightarrow> ord a b \<noteq> 0 \<Longrightarrow> ord b a < 0"
  using flip [of b a] by linarith

end

text \<open>A list of keys in strictly ascending order.\<close>

definition sorted_by :: "('k \<Rightarrow> 'k \<Rightarrow> int) \<Rightarrow> 'k list \<Rightarrow> bool" where
  "sorted_by ord xs \<longleftrightarrow> sorted_wrt (\<lambda>x y. ord x y < 0) xs"

lemma sorted_by_simps [simp]:
  "sorted_by ord []"
  "sorted_by ord (x # xs) \<longleftrightarrow> (\<forall>y \<in> set xs. ord x y < 0) \<and> sorted_by ord xs"
  "sorted_by ord (xs @ ys) \<longleftrightarrow>
     sorted_by ord xs \<and> sorted_by ord ys \<and> (\<forall>x \<in> set xs. \<forall>y \<in> set ys. ord x y < 0)"
  by (simp_all add: sorted_by_def sorted_wrt_append)

section \<open>Search\<close>

fun find_ptr :: "('k \<Rightarrow> 'k \<Rightarrow> int) \<Rightarrow> 'k \<Rightarrow> 'k rbt \<Rightarrow> nptr" where
  "find_ptr ord k Lf = NilP"
| "find_ptr ord k (Nd l a c x r) =
     (if ord x k = 0 then Ref a
      else if ord x k < 0 then find_ptr ord k r else find_ptr ord k l)"

text \<open>The key stored in a tree that compares equal to \<open>k\<close>.\<close>

definition key_in :: "('k \<Rightarrow> 'k \<Rightarrow> int) \<Rightarrow> 'k \<Rightarrow> 'k list \<Rightarrow> 'k option" where
  "key_in ord k xs = find (\<lambda>x. ord x k = 0) xs"

lemma key_in_None: "key_in ord k xs = None \<longleftrightarrow> (\<forall>x \<in> set xs. ord x k \<noteq> 0)"
  by (auto simp: key_in_def find_None_iff)

lemma key_in_Some: "key_in ord k xs = Some x \<Longrightarrow> x \<in> set xs \<and> ord x k = 0"
  by (auto simp: key_in_def find_Some_iff)

context comparator
begin

lemma FindLoop_stored:
  "stored (heap m) p t \<Longrightarrow> FindLoop Compare m (Some k) (ptr_of t) = ret (find_ptr ord k t)"
proof (induction t arbitrary: p)
  case Lf
  show ?case by (subst FindLoop.simps) simp
next
  case (Nd l a c x r)
  then show ?case by (subst ptr_of.simps, subst FindLoop.simps) (auto simp: returns)
qed

lemma FindNode_tree: "is_tree m t \<Longrightarrow> FindNode Compare m (Some k) = ret (find_ptr ord k t)"
  using FindLoop_stored by (auto simp: FindNode_def is_tree_iff)

text \<open>Where the search stops: a zipper with an equal key in focus.\<close>

lemma find_ptr_zipper:
  "find_ptr ord k t \<noteq> NilP \<Longrightarrow>
   \<exists>fs l a c x r. t = plug fs (Nd l a c x r) \<and> ord x k = 0 \<and> find_ptr ord k t = Ref a"
proof (induction t)
  case Lf
  then show ?case by simp
next
  case (Nd l a c x r)
  consider "ord x k = 0" | "ord x k < 0" | "ord x k > 0" by linarith
  then show ?case
  proof cases
    case 1
    then have "Nd l a c x r = plug [] (Nd l a c x r) \<and> ord x k = 0 \<and> find_ptr ord k (Nd l a c x r) = Ref a"
      by simp
    then show ?thesis by blast
  next
    case 2
    with Nd obtain fs l' a' c' x' r' where
      "r = plug fs (Nd l' a' c' x' r') \<and> ord x' k = 0 \<and> find_ptr ord k r = Ref a'" by auto
    with 2 have "Nd l a c x r = plug (fs @ [RFr l a c x]) (Nd l' a' c' x' r') \<and> ord x' k = 0
       \<and> find_ptr ord k (Nd l a c x r) = Ref a'"
      by (auto simp: plug_append)
    then show ?thesis by blast
  next
    case 3
    with Nd obtain fs l' a' c' x' r' where
      "l = plug fs (Nd l' a' c' x' r') \<and> ord x' k = 0 \<and> find_ptr ord k l = Ref a'" by auto
    with 3 have "Nd l a c x r = plug (fs @ [LFr a c x r]) (Nd l' a' c' x' r') \<and> ord x' k = 0
       \<and> find_ptr ord k (Nd l a c x r) = Ref a'"
      by (auto simp: plug_append)
    then show ?thesis by blast
  qed
qed

lemma find_ptr_NilP:
  "sorted_by ord (inorder t) \<Longrightarrow> find_ptr ord k t = NilP \<longleftrightarrow> key_in ord k (inorder t) = None"
proof (induction t)
  case Lf
  then show ?case by (simp add: key_in_None)
next
  case (Nd l a c x r)
  then have IH: "find_ptr ord k l = NilP \<longleftrightarrow> key_in ord k (inorder l) = None"
      "find_ptr ord k r = NilP \<longleftrightarrow> key_in ord k (inorder r) = None"
    and lt: "\<forall>y \<in> set (inorder l). ord y x < 0" and gt: "\<forall>y \<in> set (inorder r). ord x y < 0"
    by simp_all
  consider "ord x k = 0" | "ord x k < 0" | "ord x k > 0" by linarith
  then show ?case
  proof cases
    case 1
    then show ?thesis by (simp add: key_in_None)
  next
    case 2
    with lt have "\<forall>y \<in> set (inorder l). ord y k < 0" by (blast intro: less_trans)
    with 2 IH show ?thesis by (auto simp: key_in_None)
  next
    case 3
    then have "ord k x < 0" by (simp add: flip)
    with gt have "\<forall>y \<in> set (inorder r). ord k y < 0" by (blast intro: less_trans)
    then have "\<forall>y \<in> set (inorder r). ord y k \<noteq> 0" using eq_sym by fastforce
    with 3 IH show ?thesis by (auto simp: key_in_None)
  qed
qed

text \<open>At most one stored key compares equal to \<open>k\<close>.\<close>

lemma key_in_unique:
  assumes "sorted_by ord (xs @ x # ys)" and "ord x k = 0"
  shows "key_in ord k (xs @ x # ys) = Some x"
proof -
  have "\<forall>y \<in> set xs. ord y k < 0"
    using assms by (auto intro: less_eq)
  then have "\<forall>y \<in> set xs. ord y k \<noteq> 0" by force
  then show ?thesis
    using assms(2) by (induction xs) (simp_all add: key_in_def)
qed

lemma FindKey_tree:
  assumes "is_tree m t" and "sorted_by ord (inorder t)"
  shows "FindKey Compare m (Some k) = ret (key_in ord k (inorder t))"
proof (cases "find_ptr ord k t = NilP")
  case True
  moreover from True assms(2) have "key_in ord k (inorder t) = None" by (simp add: find_ptr_NilP)
  ultimately show ?thesis
    using FindNode_tree [OF assms(1), of k] by (simp add: FindKey_def FindNode_def)
next
  case False
  then obtain fs l a c x r where
    t: "t = plug fs (Nd l a c x r)" and x: "ord x k = 0" and p: "find_ptr ord k t = Ref a"
    using find_ptr_zipper by blast
  have "rep m fs (Nd l a c x r)" using assms(1) t by (simp add: rep_plug)
  then have "heap m a = Some (mk_node a (above fs) (ptr_of l) (ptr_of r) c x)"
    by (rule rep_focus)
  moreover have "key_in ord k (inorder t) = Some x"
    using assms(2) x key_in_unique [of "fleft fs @ inorder l" x "inorder r @ fright fs" k]
    by (simp add: t inorder_plug)
  ultimately show ?thesis
    using FindNode_tree [OF assms(1), of k] p by (simp add: FindKey_def FindNode_def)
qed

end

end
