(* ===== verification/RB_Balance.thy ===== *)
theory RB_Balance
  imports RB_Search
begin

text \<open>
  Insertion as a function on zippers, and the red-black invariants it keeps: the order of the
  keys, no red node with a red child, the same number of black nodes on every path, a black root.
  Nothing here mentions the store; \<open>RB_Insert\<close> shows that \<open>Insert\<close> computes this function.
\<close>

section \<open>Descent and repair on zippers\<close>

fun ins_frames :: "('k \<Rightarrow> 'k \<Rightarrow> int) \<Rightarrow> 'k \<Rightarrow> 'k frames \<Rightarrow> 'k rbt \<Rightarrow> 'k frames" where
  "ins_frames ord k fs Lf = fs"
| "ins_frames ord k fs (Nd l a c x r) =
     (if ord k x < 0 then ins_frames ord k (LFr a c x r # fs) l
      else ins_frames ord k (RFr l a c x # fs) r)"

text \<open>The repair after a black uncle: the rotation that brings the middle key up.\<close>

fun rot_right_uncle :: "'k frame \<Rightarrow> 'k rbt \<Rightarrow> nat \<Rightarrow> 'k \<Rightarrow> 'k rbt \<Rightarrow> 'k rbt" where
  "rot_right_uncle (LFr pa pc pk pr) t ga gk u = Nd t pa Black pk (Nd pr ga Red gk u)"
| "rot_right_uncle (RFr pl pa pc pk) (Nd tL ta tc tk tR) ga gk u =
     Nd (Nd pl pa pc pk tL) ta Black tk (Nd tR ga Red gk u)"
| "rot_right_uncle (RFr pl pa pc pk) Lf ga gk u = Nd (Nd pl pa pc pk Lf) ga Red gk u"

fun rot_left_uncle :: "'k rbt \<Rightarrow> nat \<Rightarrow> 'k \<Rightarrow> 'k frame \<Rightarrow> 'k rbt \<Rightarrow> 'k rbt" where
  "rot_left_uncle u ga gk (RFr pl pa pc pk) t = Nd (Nd u ga Red gk pl) pa Black pk t"
| "rot_left_uncle u ga gk (LFr pa pc pk pr) (Nd tL ta tc tk tR) =
     Nd (Nd u ga Red gk tL) ta Black tk (Nd tR pa pc pk pr)"
| "rot_left_uncle u ga gk (LFr pa pc pk pr) Lf = Nd u ga Red gk (Nd Lf pa pc pk pr)"

fun fixI :: "'k frames \<Rightarrow> 'k rbt \<Rightarrow> 'k rbt" where
  "fixI (p # LFr ga gc gk u # fs) t =
     (if fcol p = Black then plug (p # LFr ga gc gk u # fs) t
      else if tcol u = Red then fixI fs (Nd (fill (fpaint Black p) t) ga Red gk (paint Black u))
      else plug fs (rot_right_uncle p t ga gk u))"
| "fixI (p # RFr u ga gc gk # fs) t =
     (if fcol p = Black then plug (p # RFr u ga gc gk # fs) t
      else if tcol u = Red then fixI fs (Nd (paint Black u) ga Red gk (fill (fpaint Black p) t))
      else plug fs (rot_left_uncle u ga gk p t))"
| "fixI fs t = plug fs t"

definition ins_tree :: "('k \<Rightarrow> 'k \<Rightarrow> int) \<Rightarrow> nat \<Rightarrow> 'k \<Rightarrow> 'k rbt \<Rightarrow> 'k rbt" where
  "ins_tree ord a k t = paint Black (fixI (ins_frames ord k [] t) (Nd Lf a Red k Lf))"

section \<open>Order\<close>

lemma plug_ins_frames: "plug (ins_frames ord k fs t) Lf = plug fs t"
  by (induction t arbitrary: fs) simp_all

lemma inorder_fill: "inorder (fill f t) = fleft [f] @ inorder t @ fright [f]"
  by (cases f) simp_all

lemma fpaint_simps [simp]: "fleft [fpaint c f] = fleft [f]" "fright [fpaint c f] = fright [f]"
  "fcol (fpaint c f) = c" "frame_addr (fpaint c f) = frame_addr f"
  by (cases f; simp)+

lemma inorder_rot_right_uncle:
  "inorder (rot_right_uncle p t ga gk u) = inorder (fill p t) @ gk # inorder u"
  by (cases "(p, t, ga, gk, u)" rule: rot_right_uncle.cases) simp_all

lemma inorder_rot_left_uncle:
  "inorder (rot_left_uncle u ga gk p t) = inorder u @ gk # inorder (fill p t)"
  by (cases "(u, ga, gk, p, t)" rule: rot_left_uncle.cases) simp_all

lemma inorder_fixI: "inorder (fixI fs t) = inorder (plug fs t)"
  by (induction fs t rule: fixI.induct)
    (simp_all add: inorder_plug inorder_rot_right_uncle inorder_rot_left_uncle inorder_fill)

text \<open>Everything left of the hole the descent found is below the key, everything right above it.\<close>

definition splits_at :: "('k \<Rightarrow> 'k \<Rightarrow> int) \<Rightarrow> 'k \<Rightarrow> 'k frames \<Rightarrow> bool" where
  "splits_at ord k fs \<longleftrightarrow> (\<forall>x \<in> set (fleft fs). ord x k < 0) \<and> (\<forall>x \<in> set (fright fs). ord k x < 0)"

definition ins_list :: "('k \<Rightarrow> 'k \<Rightarrow> int) \<Rightarrow> 'k \<Rightarrow> 'k list \<Rightarrow> 'k list" where
  "ins_list ord k xs = filter (\<lambda>x. ord x k < 0) xs @ k # filter (\<lambda>x. ord k x < 0) xs"

context comparator
begin

lemma ins_frames_splits:
  assumes "sorted_by ord (inorder (plug fs t))" and "splits_at ord k fs"
    and "\<forall>x \<in> set (inorder t). ord x k \<noteq> 0"
  shows "splits_at ord k (ins_frames ord k fs t)"
  using assms
proof (induction t arbitrary: fs)
  case Lf
  then show ?case by simp
next
  case (Nd l a c x r)
  then have srt: "sorted_by ord (fleft fs @ (inorder l @ x # inorder r) @ fright fs)"
    and fs: "splits_at ord k fs" and x: "ord x k \<noteq> 0"
    by (simp_all add: inorder_plug)
  show ?case
  proof (cases "ord k x < 0")
    case True
    then have "\<forall>y \<in> set (inorder r). ord k y < 0"
      using srt by (auto intro: less_trans)
    with True fs have "splits_at ord k (LFr a c x r # fs)"
      by (auto simp: splits_at_def)
    with True Nd show ?thesis by simp
  next
    case False
    then have xk: "ord x k < 0" using x flip [of k x] by linarith
    then have "\<forall>y \<in> set (inorder l). ord y k < 0"
      using srt by (auto intro: less_trans)
    with xk fs have "splits_at ord k (RFr l a c x # fs)"
      by (auto simp: splits_at_def)
    with False Nd show ?thesis by simp
  qed
qed

lemma ins_list_split:
  assumes "\<forall>x \<in> set xs. ord x k < 0" and "\<forall>x \<in> set ys. ord k x < 0"
  shows "ins_list ord k (xs @ ys) = xs @ k # ys"
proof -
  have "filter (\<lambda>x. ord x k < 0) ys = []" "filter (\<lambda>x. ord k x < 0) xs = []"
    using assms flip by (force simp: filter_empty_conv)+
  then show ?thesis using assms by (simp add: ins_list_def)
qed

theorem inorder_ins_tree:
  assumes "sorted_by ord (inorder t)" and "key_in ord k (inorder t) = None"
  shows "inorder (ins_tree ord a k t) = ins_list ord k (inorder t)"
proof -
  let ?fs = "ins_frames ord k [] t"
  have "inorder t = fleft ?fs @ fright ?fs"
    using plug_ins_frames [of ord k "[]" t] inorder_plug [of ?fs Lf] by simp
  moreover have "splits_at ord k ?fs"
    using assms by (intro ins_frames_splits) (auto simp: splits_at_def key_in_None)
  ultimately show ?thesis
    by (simp add: ins_tree_def inorder_fixI inorder_plug splits_at_def ins_list_split)
qed

lemma sorted_ins_list:
  assumes "sorted_by ord xs"
  shows "sorted_by ord (ins_list ord k xs)"
  using assms by (auto simp: ins_list_def sorted_by_def sorted_wrt_append sorted_wrt_filter
      intro: less_trans)

end

section \<open>Colours and heights\<close>

fun invc :: "'k rbt \<Rightarrow> bool" where
  "invc Lf = True"
| "invc (Nd l a c k r) =
     ((c = Red \<longrightarrow> tcol l = Black \<and> tcol r = Black) \<and> invc l \<and> invc r)"

fun bh :: "'k rbt \<Rightarrow> nat" where
  "bh Lf = 0"
| "bh (Nd l a c k r) = (if c = Black then Suc (bh l) else bh l)"

fun invh :: "'k rbt \<Rightarrow> bool" where
  "invh Lf = True"
| "invh (Nd l a c k r) = (bh l = bh r \<and> invh l \<and> invh r)"

definition rb :: "'k rbt \<Rightarrow> bool" where
  "rb t \<longleftrightarrow> invc t \<and> invh t \<and> tcol t = Black"

fun sib :: "'k frame \<Rightarrow> 'k rbt" where
  "sib (LFr a c k r) = r"
| "sib (RFr l a c k) = l"

text \<open>The colour invariant of the frames, given whether the frame above may be red.\<close>

fun finvc :: "'k frames \<Rightarrow> bool" where
  "finvc [] = True"
| "finvc (f # fs) = (invc (sib f) \<and> finvc fs
     \<and> (fcol f = Red \<longrightarrow> tcol (sib f) = Black \<and> (fs \<noteq> [] \<longrightarrow> fcol (hd fs) = Black)))"

fun finvh :: "nat \<Rightarrow> 'k frames \<Rightarrow> bool" where
  "finvh n [] = True"
| "finvh n (f # fs) = (invh (sib f) \<and> bh (sib f) = n \<and> finvh (if fcol f = Black then Suc n else n) fs)"

lemma invc_plug:
  "invc (plug fs t) \<longleftrightarrow>
     finvc fs \<and> invc t \<and> (fs \<noteq> [] \<and> fcol (hd fs) = Red \<longrightarrow> tcol t = Black)"
proof (induction fs arbitrary: t)
  case Nil
  then show ?case by simp
next
  case (Cons f fs)
  show ?case by (cases f) (auto simp: Cons.IH)
qed

lemma invh_plug: "invh (plug fs t) \<longleftrightarrow> invh t \<and> finvh (bh t) fs"
proof (induction fs arbitrary: t)
  case Nil
  then show ?case by simp
next
  case (Cons f fs)
  show ?case by (cases f) (auto simp: Cons.IH)
qed

lemma invc_paint: "invc t \<Longrightarrow> invc (paint Black t)"
  by (cases t) simp_all

lemma invh_paint [simp]: "invh (paint c t) = invh t"
  by (cases t) simp_all

lemma tcol_paint_Black [simp]: "tcol (paint Black t) = Black"
  by (cases t) simp_all

lemma bh_paint_Black: "tcol t = Red \<Longrightarrow> bh (paint Black t) = Suc (bh t)"
  by (cases t) auto

subsection \<open>Insertion\<close>

lemma invc_fill [simp]:
  "invc (fill f t) \<longleftrightarrow>
     invc (sib f) \<and> invc t \<and> (fcol f = Red \<longrightarrow> tcol (sib f) = Black \<and> tcol t = Black)"
  by (cases f) auto

lemma invh_fill [simp]: "invh (fill f t) \<longleftrightarrow> invh (sib f) \<and> invh t \<and> bh (sib f) = bh t"
  by (cases f) auto

lemma bh_fill: "bh (sib f) = bh t \<Longrightarrow> bh (fill f t) = (if fcol f = Black then Suc (bh t) else bh t)"
  by (cases f) auto

lemma fill_simps [simp]: "tcol (fill f t) = fcol f" "sib (fpaint c f) = sib f"
  by (cases f; simp)+

lemma rot_right_uncle_inv:
  assumes "tcol t = Red" and "invc t" and "invc (sib p)" and "fcol p = Red"
    and "tcol (sib p) = Black" and "invc u" and "tcol u = Black"
  shows "invc (rot_right_uncle p t ga gk u)" "tcol (rot_right_uncle p t ga gk u) = Black"
  using assms by (cases "(p, t, ga, gk, u)" rule: rot_right_uncle.cases; simp)+

lemma rot_left_uncle_inv:
  assumes "tcol t = Red" and "invc t" and "invc (sib p)" and "fcol p = Red"
    and "tcol (sib p) = Black" and "invc u" and "tcol u = Black"
  shows "invc (rot_left_uncle u ga gk p t)" "tcol (rot_left_uncle u ga gk p t) = Black"
  using assms by (cases "(u, ga, gk, p, t)" rule: rot_left_uncle.cases; simp)+

lemma rot_right_uncle_invh:
  assumes "tcol t = Red" and "fcol p = Red" and "invh t" and "invh (sib p)" and "invh u"
    and "bh (sib p) = bh t" and "bh u = bh t"
  shows "invh (rot_right_uncle p t ga gk u)" "bh (rot_right_uncle p t ga gk u) = Suc (bh t)"
  using assms by (cases "(p, t, ga, gk, u)" rule: rot_right_uncle.cases; simp)+

lemma rot_left_uncle_invh:
  assumes "tcol t = Red" and "fcol p = Red" and "invh t" and "invh (sib p)" and "invh u"
    and "bh (sib p) = bh t" and "bh u = bh t"
  shows "invh (rot_left_uncle u ga gk p t)" "bh (rot_left_uncle u ga gk p t) = Suc (bh t)"
  using assms by (cases "(u, ga, gk, p, t)" rule: rot_left_uncle.cases; simp)+

lemma fixI_invc:
  "finvc fs \<Longrightarrow> invc t \<Longrightarrow> tcol t = Red \<Longrightarrow> invc (paint Black (fixI fs t))"
proof (induction fs t rule: fixI.induct [case_names 1 2 3 4])
  case (1 p ga gc gk u fs t)
  consider "fcol p = Black" | "fcol p = Red" "tcol u = Red" | "fcol p = Red" "tcol u = Black"
    by (cases "fcol p"; cases "tcol u") auto
  then show ?case
  proof cases
    case 1
    with "1.prems" show ?thesis
      by (intro invc_paint) (auto simp: invc_plug)
  next
    case 2
    with "1.prems" have "invc (paint Black (fixI fs (Nd (fill (fpaint Black p) t) ga Red gk (paint Black u))))"
      by (intro "1.IH") (auto simp: invc_paint)
    with 2 show ?thesis by simp
  next
    case 3
    with "1.prems" show ?thesis
      by (intro invc_paint) (auto simp: invc_plug rot_right_uncle_inv)
  qed
next
  case (2 p u ga gc gk fs t)
  consider "fcol p = Black" | "fcol p = Red" "tcol u = Red" | "fcol p = Red" "tcol u = Black"
    by (cases "fcol p"; cases "tcol u") auto
  then show ?case
  proof cases
    case 1
    with "2.prems" show ?thesis
      by (intro invc_paint) (auto simp: invc_plug)
  next
    case 2
    with "2.prems" have "invc (paint Black (fixI fs (Nd (paint Black u) ga Red gk (fill (fpaint Black p) t))))"
      by (intro "2.IH") (auto simp: invc_paint)
    with 2 show ?thesis by simp
  next
    case 3
    with "2.prems" show ?thesis
      by (intro invc_paint) (auto simp: invc_plug rot_left_uncle_inv)
  qed
next
  case (3 t)
  then show ?case by (simp add: invc_paint)
next
  case (4 v t)
  then show ?case by (cases v) simp_all
qed

lemma fixI_invh:
  "invh t \<Longrightarrow> finvh (bh t) fs \<Longrightarrow> tcol t = Red \<Longrightarrow> finvc fs \<Longrightarrow> invh (fixI fs t)"
proof (induction fs t rule: fixI.induct [case_names 1 2 3 4])
  case (1 p ga gc gk u fs t)
  then show ?case
    by (auto simp: invh_plug bh_paint_Black bh_fill rot_right_uncle_invh)
next
  case (2 p u ga gc gk fs t)
  then show ?case
    by (auto simp: invh_plug bh_paint_Black bh_fill rot_left_uncle_invh)
next
  case (3 t)
  then show ?case by simp
next
  case (4 v t)
  then show ?case by auto
qed

lemma finvc_ins_frames:
  "invc (plug fs t) \<Longrightarrow> finvc (ins_frames ord k fs t)"
  using plug_ins_frames [of ord k fs t] by (metis invc_plug)

lemma finvh_ins_frames:
  "invh (plug fs t) \<Longrightarrow> finvh 0 (ins_frames ord k fs t)"
  using plug_ins_frames [of ord k fs t] by (metis bh.simps(1) invh_plug)

lemma invc_ins_tree: "invc t \<Longrightarrow> invc (ins_tree ord a k t)"
  unfolding ins_tree_def by (rule fixI_invc) (use finvc_ins_frames [of "[]" t] in auto)

theorem rb_ins_tree: "rb t \<Longrightarrow> rb (ins_tree ord a k t)"
proof -
  assume t: "rb t"
  then have "invh (fixI (ins_frames ord k [] t) (Nd Lf a Red k Lf))"
    using finvc_ins_frames [of "[]" t] finvh_ins_frames [of "[]" t]
    by (intro fixI_invh) (auto simp: rb_def)
  with t show ?thesis
    by (simp add: rb_def invc_ins_tree) (simp add: ins_tree_def)
qed

subsection \<open>The height of a red-black tree\<close>

fun height :: "'k rbt \<Rightarrow> nat" where
  "height Lf = 0"
| "height (Nd l a c k r) = Suc (max (height l) (height r))"

lemma height_bh: "invc t \<Longrightarrow> invh t \<Longrightarrow> height t \<le> 2 * bh t + (if tcol t = Black then 0 else 1)"
  by (induction t) (auto split: if_split_asm)

lemma bh_length: "invh t \<Longrightarrow> 2 ^ bh t \<le> Suc (length (inorder t))"
  by (induction t) auto

lemma rb_height: "rb t \<Longrightarrow> 2 ^ height t \<le> (Suc (length (inorder t))) ^ 2"
proof -
  assume t: "rb t"
  then have "height t \<le> 2 * bh t" using height_bh [of t] by (simp add: rb_def)
  then have "(2::nat) ^ height t \<le> 2 ^ (2 * bh t)" by (simp add: power_increasing)
  also have "\<dots> = (2 ^ bh t) ^ 2" by (simp add: power_mult [symmetric] mult.commute)
  also have "\<dots> \<le> (Suc (length (inorder t))) ^ 2"
    using t bh_length [of t] by (intro power_mono) (simp_all add: rb_def)
  finally show ?thesis .
qed

end
