(* ===== verification/RB_Insert.thy ===== *)
theory RB_Insert
  imports RB_Balance
begin

text \<open>
  \<open>Insert\<close> on the store computes \<open>ins_tree\<close>: the pointer reads of the repair loop on a zipper, one
  iteration of the loop, the loop by induction on the frames, the descent, the attachment of the
  new node, and the whole operation.
\<close>

section \<open>What the repair loop reads\<close>

lemma rep_node_parent:
  assumes "rep m fs t" and "t \<noteq> Lf"
  shows "PARENT m (ptr_of t) = ret (above fs)" "ld m (ptr_of t) parent = ret (above fs)"
  using assms by (cases t; auto simp: PARENT_def rep_focus)+

lemma rep_GRANPA:
  assumes "rep m (p # fs) t" and "t \<noteq> Lf"
  shows "GRANPA m (ptr_of t) = ret (above fs)"
  using assms rep_node_parent(2) [OF assms]
  by (cases p) (auto simp: GRANPA_def rep_LFr_node rep_RFr_node)

lemma ptr_of_fill: "ptr_of (fill f t) = Ref (frame_addr f)"
  by (cases f) simp_all

lemma rep_AM_I_RIGHT:
  assumes "rep m (f # fs) t" and "t \<noteq> Lf"
  shows "AM_I_RIGHT_CHILD m (ptr_of t) = ret (case f of RFr l a c k \<Rightarrow> True | LFr a c k r \<Rightarrow> False)"
proof (cases f)
  case (LFr a c k r)
  with assms have "ptr_of t \<noteq> ptr_of r" by (cases t) (auto simp: rep_def)
  with assms LFr show ?thesis
    by (auto simp: AM_I_RIGHT_CHILD_def rep_node_parent rep_LFr_node)
next
  case (RFr l a c k)
  with assms show ?thesis
    by (auto simp: AM_I_RIGHT_CHILD_def rep_node_parent rep_RFr_node)
qed

lemma rep_AM_I_LEFT:
  assumes "rep m (f # fs) t" and "t \<noteq> Lf"
  shows "AM_I_LEFT_CHILD m (ptr_of t) = ret (case f of RFr l a c k \<Rightarrow> False | LFr a c k r \<Rightarrow> True)"
proof (cases f)
  case (RFr l a c k)
  with assms have "ptr_of t \<noteq> ptr_of l" by (cases t) (auto simp: rep_def)
  with assms RFr show ?thesis
    by (auto simp: AM_I_LEFT_CHILD_def rep_node_parent rep_RFr_node)
next
  case (LFr a c k r)
  with assms show ?thesis
    by (auto simp: AM_I_LEFT_CHILD_def rep_node_parent rep_LFr_node)
qed

lemma rep_frame_color: "rep m (f # fs) t \<Longrightarrow> ld m (Ref (frame_addr f)) color = ret (cw (fcol f))"
  using rep_color [of m fs "fill f t"] by (simp add: rep_up ptr_of_fill)

lemma rep_guard:
  assumes "rep m fs t" and "t \<noteq> Lf"
  shows "fixInsert_guard m (ptr_of t) =
    ret (case fs of [] \<Rightarrow> False | [p] \<Rightarrow> False | p # g # _ \<Rightarrow> fcol p = Red)"
proof (cases fs)
  case Nil
  with assms show ?thesis by (simp add: fixInsert_guard_def rep_node_parent rep_leaf)
next
  case (Cons p gs)
  with assms show ?thesis
    by (cases gs)
      (auto simp: fixInsert_guard_def rep_node_parent rep_frame_color rep_GRANPA)
qed

text \<open>Recolouring a frame of a zipper.\<close>

lemma set_color_frame:
  assumes "rep m (f # fs) t"
  shows "\<exists>m'. set_color m (Ref (frame_addr f)) (cw d) = ret m' \<and> rep m' (fpaint d f # fs) t
    \<and> same_outside (set (addrs (plug (f # fs) t))) m m'"
proof -
  have "fill f t \<noteq> Lf" "paint d (fill f t) = fill (fpaint d f) t" by (cases f; simp)+
  with assms set_color_paint [of m fs "fill f t" d] show ?thesis
    by (auto simp: rep_up ptr_of_fill set_addrs_plug intro: same_outside_mono)
qed

section \<open>One iteration\<close>

lemma addrs_fill: "set (addrs (fill f t)) = insert (frame_addr f) (set (addrs (sib f)) \<union> set (addrs t))"
  by (cases f) auto

lemma faddrs_Cons: "set (faddrs (f # fs)) = insert (frame_addr f) (set (addrs (sib f)) \<union> set (faddrs fs))"
  by (cases f) auto

text \<open>Red uncle: three recolourings, and the focus moves to the grandparent.\<close>

lemma recolour_left:
  assumes r: "rep m (p # LFr ga gc gk u # fs) t" and t: "t \<noteq> Lf" and "tcol u = Red"
  shows "\<exists>m'. fixInsert_left m (ptr_of t) = ret (m', Ref ga)
    \<and> rep m' fs (Nd (fill (fpaint Black p) t) ga Red gk (paint Black u))
    \<and> same_outside (set (addrs (plug (p # LFr ga gc gk u # fs) t))) m m'"
proof -
  let ?X = "fill (fpaint Black p) t"
  have u: "u \<noteq> Lf" using assms(3) by auto
  obtain m1 where m1: "set_color m (Ref (frame_addr p)) BLACK = ret m1"
      "rep m1 (fpaint Black p # LFr ga gc gk u # fs) t"
      "same_outside (set (addrs (plug (p # LFr ga gc gk u # fs) t))) m m1"
    using set_color_frame [OF r, of Black] by auto
  then have "rep m1 (RFr ?X ga gc gk # fs) u" by (simp add: rep_up)
  from set_color_paint [OF this u, of Black] obtain m2 where
    m2: "set_color m1 (ptr_of u) BLACK = ret m2" "rep m2 (RFr ?X ga gc gk # fs) (paint Black u)"
      "same_outside (set (addrs u)) m1 m2" by auto
  then have m2': "rep m2 fs (Nd ?X ga gc gk (paint Black u))"
      "rep m2 (fpaint Black p # LFr ga gc gk (paint Black u) # fs) t" by (simp_all add: rep_up)
  from set_color_rep [OF m2'(1), of Red] obtain m3 where
    m3: "set_color m2 (Ref ga) RED = ret m3" "rep m3 fs (Nd ?X ga Red gk (paint Black u))"
      "same_outside {ga} m2 m3" by auto
  then have m3': "rep m3 (fpaint Black p # LFr ga Red gk (paint Black u) # fs) t" by (simp add: rep_up)
  have "ld m (Ref ga) rightChild = ret (ptr_of u)" "ld m (ptr_of u) color = ret RED"
    using r assms(3) rep_color [of m "RFr (fill p t) ga gc gk # fs" u]
      rep_LFr_node [of m ga gc gk u fs "fill p t"] by (simp_all add: rep_up)
  then have "fixInsert_left m (ptr_of t) = ret (m3, Ref ga)"
    using r m1(1) m2(1) m3(1) m2' m3' t
    by (simp add: fixInsert_left_def rep_GRANPA [OF r t] rep_GRANPA [OF m2'(2) t]
        rep_GRANPA [OF m3' t] rep_node_parent [OF r t])
  moreover have "same_outside (set (addrs (plug (p # LFr ga gc gk u # fs) t))) m m3"
    using m1(3) m2(3) m3(3) by (simp add: same_outside_def set_addrs_plug addrs_fill)
  ultimately show ?thesis using m3(2) by blast
qed

lemma recolour_right:
  assumes r: "rep m (p # RFr u ga gc gk # fs) t" and t: "t \<noteq> Lf" and "tcol u = Red"
  shows "\<exists>m'. fixInsert_right m (ptr_of t) = ret (m', Ref ga)
    \<and> rep m' fs (Nd (paint Black u) ga Red gk (fill (fpaint Black p) t))
    \<and> same_outside (set (addrs (plug (p # RFr u ga gc gk # fs) t))) m m'"
proof -
  let ?X = "fill (fpaint Black p) t"
  have u: "u \<noteq> Lf" using assms(3) by auto
  obtain m1 where m1: "set_color m (Ref (frame_addr p)) BLACK = ret m1"
      "rep m1 (fpaint Black p # RFr u ga gc gk # fs) t"
      "same_outside (set (addrs (plug (p # RFr u ga gc gk # fs) t))) m m1"
    using set_color_frame [OF r, of Black] by auto
  then have "rep m1 (LFr ga gc gk ?X # fs) u" by (simp add: rep_up)
  from set_color_paint [OF this u, of Black] obtain m2 where
    m2: "set_color m1 (ptr_of u) BLACK = ret m2" "rep m2 (LFr ga gc gk ?X # fs) (paint Black u)"
      "same_outside (set (addrs u)) m1 m2" by auto
  then have m2': "rep m2 fs (Nd (paint Black u) ga gc gk ?X)"
      "rep m2 (fpaint Black p # RFr (paint Black u) ga gc gk # fs) t" by (simp_all add: rep_up)
  from set_color_rep [OF m2'(1), of Red] obtain m3 where
    m3: "set_color m2 (Ref ga) RED = ret m3" "rep m3 fs (Nd (paint Black u) ga Red gk ?X)"
      "same_outside {ga} m2 m3" by auto
  then have m3': "rep m3 (fpaint Black p # RFr (paint Black u) ga Red gk # fs) t" by (simp add: rep_up)
  have "ld m (Ref ga) leftChild = ret (ptr_of u)" "ld m (ptr_of u) color = ret RED"
    using r assms(3) rep_color [of m "LFr ga gc gk (fill p t) # fs" u]
      rep_RFr_node [of m u ga gc gk fs "fill p t"] by (simp_all add: rep_up)
  then have "fixInsert_right m (ptr_of t) = ret (m3, Ref ga)"
    using r m1(1) m2(1) m3(1) m2' m3' t
    by (simp add: fixInsert_right_def rep_GRANPA [OF r t] rep_GRANPA [OF m2'(2) t]
        rep_GRANPA [OF m3' t] rep_node_parent [OF r t])
  moreover have "same_outside (set (addrs (plug (p # RFr u ga gc gk # fs) t))) m m3"
    using m1(3) m2(3) m3(3) by (simp add: same_outside_def set_addrs_plug addrs_fill)
  ultimately show ?thesis using m3(2) by blast
qed

text \<open>Black uncle: at most two rotations, after which the loop's guard fails.\<close>

lemma rotate_tail_left:
  assumes r: "rep m (LFr pa pc pk pr # LFr ga gc gk u # fs) t" and t: "t \<noteq> Lf"
  shows "\<exists>m'. bnd (PARENT m (ptr_of t)) (\<lambda>p.
       bnd (set_color m p BLACK) (\<lambda>m.
       bnd (GRANPA m (ptr_of t)) (\<lambda>g.
       bnd (set_color m g RED) (\<lambda>m.
       bnd (GRANPA m (ptr_of t)) (\<lambda>g.
       bnd (rotateToRight m g) (\<lambda>m. ret (m, ptr_of t))))))) = ret (m', ptr_of t)
    \<and> rep m' fs (Nd t pa Black pk (Nd pr ga Red gk u))
    \<and> fixInsert_guard m' (ptr_of t) = ret False
    \<and> same_outside (set (addrs (plug fs (Nd (Nd t pa pc pk pr) ga gc gk u)))) m m'"
proof -
  let ?A = "set (addrs (plug fs (Nd (Nd t pa pc pk pr) ga gc gk u)))"
  obtain m1 where m1: "set_color m (Ref pa) BLACK = ret m1"
      "rep m1 (LFr pa Black pk pr # LFr ga gc gk u # fs) t" "same_outside ?A m m1"
    using set_color_frame [OF r, of Black] by auto
  then have "rep m1 fs (Nd (Nd t pa Black pk pr) ga gc gk u)" by (simp add: rep_up)
  from set_color_rep [OF this, of Red] obtain m2 where
    m2: "set_color m1 (Ref ga) RED = ret m2" "rep m2 fs (Nd (Nd t pa Black pk pr) ga Red gk u)"
      "same_outside {ga} m1 m2" by auto
  then have m2': "rep m2 (LFr pa Black pk pr # LFr ga Red gk u # fs) t" by (simp add: rep_up)
  from rotateToRight_rep [OF m2(2)] obtain m3 where
    m3: "rotateToRight m2 (Ref ga) = ret m3" "rep m3 fs (Nd t pa Black pk (Nd pr ga Red gk u))"
      "same_outside ?A m2 m3" by (auto simp: set_addrs_plug)
  then have "rep m3 (LFr pa Black pk (Nd pr ga Red gk u) # fs) t" by (simp add: rep_up)
  then have "fixInsert_guard m3 (ptr_of t) = ret False"
    using t by (simp add: rep_guard split: list.split)
  moreover have "same_outside ?A m m3"
    using m1(3) m2(3) m3(3) by (simp add: same_outside_def set_addrs_plug)
  ultimately show ?thesis
    using m1(1) m2(1) m3(1,2)
    by (simp add: rep_GRANPA [OF m1(2) t] rep_GRANPA [OF m2' t] rep_node_parent [OF r t])
qed

lemma rotate_tail_right:
  assumes r: "rep m (RFr pl pa pc pk # RFr u ga gc gk # fs) t" and t: "t \<noteq> Lf"
  shows "\<exists>m'. bnd (PARENT m (ptr_of t)) (\<lambda>p.
       bnd (set_color m p BLACK) (\<lambda>m.
       bnd (GRANPA m (ptr_of t)) (\<lambda>g.
       bnd (set_color m g RED) (\<lambda>m.
       bnd (GRANPA m (ptr_of t)) (\<lambda>g.
       bnd (rotateToLeft m g) (\<lambda>m. ret (m, ptr_of t))))))) = ret (m', ptr_of t)
    \<and> rep m' fs (Nd (Nd u ga Red gk pl) pa Black pk t)
    \<and> fixInsert_guard m' (ptr_of t) = ret False
    \<and> same_outside (set (addrs (plug fs (Nd u ga gc gk (Nd pl pa pc pk t))))) m m'"
proof -
  let ?A = "set (addrs (plug fs (Nd u ga gc gk (Nd pl pa pc pk t))))"
  obtain m1 where m1: "set_color m (Ref pa) BLACK = ret m1"
      "rep m1 (RFr pl pa Black pk # RFr u ga gc gk # fs) t" "same_outside ?A m m1"
    using set_color_frame [OF r, of Black] by auto
  then have "rep m1 fs (Nd u ga gc gk (Nd pl pa Black pk t))" by (simp add: rep_up)
  from set_color_rep [OF this, of Red] obtain m2 where
    m2: "set_color m1 (Ref ga) RED = ret m2" "rep m2 fs (Nd u ga Red gk (Nd pl pa Black pk t))"
      "same_outside {ga} m1 m2" by auto
  then have m2': "rep m2 (RFr pl pa Black pk # RFr u ga Red gk # fs) t" by (simp add: rep_up)
  from rotateToLeft_rep [OF m2(2)] obtain m3 where
    m3: "rotateToLeft m2 (Ref ga) = ret m3" "rep m3 fs (Nd (Nd u ga Red gk pl) pa Black pk t)"
      "same_outside ?A m2 m3" by (auto simp: set_addrs_plug)
  then have "rep m3 (RFr (Nd u ga Red gk pl) pa Black pk # fs) t" by (simp add: rep_up)
  then have "fixInsert_guard m3 (ptr_of t) = ret False"
    using t by (simp add: rep_guard split: list.split)
  moreover have "same_outside ?A m m3"
    using m1(3) m2(3) m3(3) by (simp add: same_outside_def set_addrs_plug)
  ultimately show ?thesis
    using m1(1) m2(1) m3(1,2)
    by (simp add: rep_GRANPA [OF m1(2) t] rep_GRANPA [OF m2' t] rep_node_parent [OF r t])
qed

lemma rotate_left:
  assumes r: "rep m (p # LFr ga gc gk u # fs) t" and t: "t \<noteq> Lf" and u: "tcol u = Black"
  shows "\<exists>m' q. fixInsert_left m (ptr_of t) = ret (m', q)
    \<and> rep m' fs (rot_right_uncle p t ga gk u) \<and> fixInsert_guard m' q = ret False
    \<and> same_outside (set (addrs (plug (p # LFr ga gc gk u # fs) t))) m m'"
proof -
  have rd: "ld m (Ref ga) rightChild = ret (ptr_of u)" "ld m (ptr_of u) color = ret BLACK"
    using r u rep_color [of m "RFr (fill p t) ga gc gk # fs" u]
      rep_LFr_node [of m ga gc gk u fs "fill p t"] by (simp_all add: rep_up)
  show ?thesis
  proof (cases p)
    case (LFr pa pc pk pr)
    with r have "rep m (LFr pa pc pk pr # LFr ga gc gk u # fs) t" by simp
    from rotate_tail_left [OF this t] LFr rd show ?thesis
      by (simp add: fixInsert_left_def rep_GRANPA [OF r t] rep_AM_I_RIGHT [OF r t]) blast
  next
    case (RFr pl pa pc pk)
    obtain tL ta tc tk tR where T: "t = Nd tL ta tc tk tR" using t by (cases t) auto
    have "rep m (LFr ga gc gk u # fs) (Nd pl pa pc pk (Nd tL ta tc tk tR))"
      using r RFr T by (simp add: rep_up)
    from rotateToLeft_rep [OF this] obtain m1 where
      m1: "rotateToLeft m (Ref pa) = ret m1"
        "rep m1 (LFr ga gc gk u # fs) (Nd (Nd pl pa pc pk tL) ta tc tk tR)"
        "same_outside (set (addrs (plug (p # LFr ga gc gk u # fs) t))) m m1"
      by (auto simp: RFr T)
    then have "rep m1 (LFr ta tc tk tR # LFr ga gc gk u # fs) (Nd pl pa pc pk tL)" by (simp add: rep_up)
    from rotate_tail_left [OF this] obtain m2 where
      m2: "bnd (PARENT m1 (Ref pa)) (\<lambda>p.
       bnd (set_color m1 p BLACK) (\<lambda>m.
       bnd (GRANPA m (Ref pa)) (\<lambda>g.
       bnd (set_color m g RED) (\<lambda>m.
       bnd (GRANPA m (Ref pa)) (\<lambda>g.
       bnd (rotateToRight m g) (\<lambda>m. ret (m, Ref pa))))))) = ret (m2, Ref pa)"
        "rep m2 fs (Nd (Nd pl pa pc pk tL) ta Black tk (Nd tR ga Red gk u))"
        "fixInsert_guard m2 (Ref pa) = ret False"
        "same_outside (set (addrs (plug (p # LFr ga gc gk u # fs) t))) m1 m2"
      by (auto simp: RFr T set_addrs_plug insert_commute Un_assoc Un_left_commute Un_commute)
    have "fixInsert_left m (ptr_of t) = ret (m2, Ref pa)"
      using rd m1(1) m2(1)
      by (simp add: fixInsert_left_def rep_GRANPA [OF r t] rep_AM_I_RIGHT [OF r t]
          rep_node_parent [OF r t] RFr)
    then show ?thesis
      using m2(2,3) same_outside_trans [OF m1(3) m2(4)] RFr T by auto
  qed
qed

lemma rotate_right:
  assumes r: "rep m (p # RFr u ga gc gk # fs) t" and t: "t \<noteq> Lf" and u: "tcol u = Black"
  shows "\<exists>m' q. fixInsert_right m (ptr_of t) = ret (m', q)
    \<and> rep m' fs (rot_left_uncle u ga gk p t) \<and> fixInsert_guard m' q = ret False
    \<and> same_outside (set (addrs (plug (p # RFr u ga gc gk # fs) t))) m m'"
proof -
  have rd: "ld m (Ref ga) leftChild = ret (ptr_of u)" "ld m (ptr_of u) color = ret BLACK"
    using r u rep_color [of m "LFr ga gc gk (fill p t) # fs" u]
      rep_RFr_node [of m u ga gc gk fs "fill p t"] by (simp_all add: rep_up)
  have lc: "ld m (Ref (frame_addr p)) leftChild
      = ret (case p of LFr _ _ _ _ \<Rightarrow> ptr_of t | RFr l _ _ _ \<Rightarrow> ptr_of l)"
    using r by (cases p) (auto dest: rep_LFr_node rep_RFr_node)
  show ?thesis
  proof (cases p)
    case (RFr pl pa pc pk)
    with r t have "ptr_of t \<noteq> ptr_of pl" by (cases t) (auto simp: rep_def)
    moreover have "rep m (RFr pl pa pc pk # RFr u ga gc gk # fs) t" using r RFr by simp
    from rotate_tail_right [OF this t] obtain m' where
      "bnd (PARENT m (ptr_of t)) (\<lambda>p.
       bnd (set_color m p BLACK) (\<lambda>m.
       bnd (GRANPA m (ptr_of t)) (\<lambda>g.
       bnd (set_color m g RED) (\<lambda>m.
       bnd (GRANPA m (ptr_of t)) (\<lambda>g.
       bnd (rotateToLeft m g) (\<lambda>m. ret (m, ptr_of t))))))) = ret (m', ptr_of t)"
      "rep m' fs (Nd (Nd u ga Red gk pl) pa Black pk t)"
      "fixInsert_guard m' (ptr_of t) = ret False"
      "same_outside (set (addrs (plug fs (Nd u ga gc gk (Nd pl pa pc pk t))))) m m'" by blast
    ultimately show ?thesis
      using RFr rd lc
      by (auto simp: fixInsert_right_def rep_GRANPA [OF r t] rep_node_parent [OF r t])
  next
    case (LFr pa pc pk pr)
    obtain tL ta tc tk tR where T: "t = Nd tL ta tc tk tR" using t by (cases t) auto
    have "rep m (RFr u ga gc gk # fs) (Nd (Nd tL ta tc tk tR) pa pc pk pr)"
      using r LFr T by (simp add: rep_up)
    from rotateToRight_rep [OF this] obtain m1 where
      m1: "rotateToRight m (Ref pa) = ret m1"
        "rep m1 (RFr u ga gc gk # fs) (Nd tL ta tc tk (Nd tR pa pc pk pr))"
        "same_outside (set (addrs (plug (p # RFr u ga gc gk # fs) t))) m m1"
      by (auto simp: LFr T)
    then have "rep m1 (RFr tL ta tc tk # RFr u ga gc gk # fs) (Nd tR pa pc pk pr)" by (simp add: rep_up)
    from rotate_tail_right [OF this] obtain m2 where
      m2: "bnd (PARENT m1 (Ref pa)) (\<lambda>p.
       bnd (set_color m1 p BLACK) (\<lambda>m.
       bnd (GRANPA m (Ref pa)) (\<lambda>g.
       bnd (set_color m g RED) (\<lambda>m.
       bnd (GRANPA m (Ref pa)) (\<lambda>g.
       bnd (rotateToLeft m g) (\<lambda>m. ret (m, Ref pa))))))) = ret (m2, Ref pa)"
        "rep m2 fs (Nd (Nd u ga Red gk tL) ta Black tk (Nd tR pa pc pk pr))"
        "fixInsert_guard m2 (Ref pa) = ret False"
        "same_outside (set (addrs (plug (p # RFr u ga gc gk # fs) t))) m1 m2"
      by (auto simp: LFr T set_addrs_plug insert_commute Un_assoc Un_left_commute Un_commute)
    have "fixInsert_right m (ptr_of t) = ret (m2, Ref pa)"
      using rd lc m1(1) m2(1)
      by (simp add: fixInsert_right_def rep_GRANPA [OF r t] rep_node_parent [OF r t] LFr)
    then show ?thesis
      using m2(2,3) same_outside_trans [OF m1(3) m2(4)] LFr T by auto
  qed
qed

section \<open>The repair loop\<close>

lemma fill_neq_Lf [simp]: "fill f t \<noteq> Lf"
  by (cases f) simp_all

lemma fixInsert_body_rep:
  assumes r: "rep m (p # g # fs) t" and t: "t \<noteq> Lf"
  shows "fixInsert_body m (ptr_of t) =
    (case g of RFr _ _ _ _ \<Rightarrow> fixInsert_right m (ptr_of t) | LFr _ _ _ _ \<Rightarrow> fixInsert_left m (ptr_of t))"
proof -
  have "rep m (g # fs) (fill p t)" using r by (simp add: rep_up)
  from rep_AM_I_RIGHT [OF this] rep_AM_I_LEFT [OF this] show ?thesis
    by (cases g) (simp_all add: fixInsert_body_def rep_node_parent [OF r t] ptr_of_fill)
qed

lemma fixInsert_loop_stop: "fixInsert_guard m q = ret False \<Longrightarrow> fixInsert_loop m q = ret m"
  by (subst fixInsert_loop.simps) simp

lemma fixInsert_loop_step:
  "fixInsert_guard m q = ret True \<Longrightarrow> fixInsert_body m q = ret (m', q') \<Longrightarrow>
   fixInsert_loop m q = fixInsert_loop m' q'"
  by (subst fixInsert_loop.simps) simp

theorem fixInsert_loop_rep:
  "rep m fs t \<Longrightarrow> t \<noteq> Lf \<Longrightarrow>
   \<exists>m'. fixInsert_loop m (ptr_of t) = ret m' \<and> is_tree m' (fixI fs t)
     \<and> same_outside (set (addrs (plug fs t))) m m'"
proof (induction fs t arbitrary: m rule: fixI.induct [case_names 1 2 3 4])
  case (1 p ga gc gk u fs t)
  note r = "1.prems"(1) and t = "1.prems"(2)
  let ?A = "set (addrs (plug (p # LFr ga gc gk u # fs) t))"
  consider "fcol p = Black" | "fcol p = Red" "tcol u = Red" | "fcol p = Red" "tcol u = Black"
    by (cases "fcol p"; cases "tcol u") auto
  then show ?case
  proof cases
    case 1
    then show ?thesis
      using fixInsert_loop_stop [of m "ptr_of t"] rep_guard [OF r t] r
      by (auto simp: rep_plug)
  next
    case 2
    let ?t = "Nd (fill (fpaint Black p) t) ga Red gk (paint Black u)"
    obtain m1 where m1: "fixInsert_left m (ptr_of t) = ret (m1, ptr_of ?t)" "rep m1 fs ?t"
        "same_outside ?A m m1"
      using recolour_left [OF r t 2(2)] by auto
    have "?A = set (addrs (plug fs ?t))" by (auto simp: set_addrs_plug addrs_fill)
    with "1.IH" [of m1] 2 m1(2) obtain m2 where
      m2: "fixInsert_loop m1 (ptr_of ?t) = ret m2" "is_tree m2 (fixI fs ?t)" "same_outside ?A m1 m2"
      by auto
    have "fixInsert_loop m (ptr_of t) = ret m2"
      using 2 m1(1) m2(1) rep_guard [OF r t] fixInsert_body_rep [OF r t]
        fixInsert_loop_step [of m "ptr_of t"] by simp
    with m2(2) same_outside_trans [OF m1(3) m2(3)] 2 show ?thesis by auto
  next
    case 3
    from rotate_left [OF r t 3(2)] obtain m1 q where
      m1: "fixInsert_left m (ptr_of t) = ret (m1, q)" "rep m1 fs (rot_right_uncle p t ga gk u)"
        "fixInsert_guard m1 q = ret False" "same_outside ?A m m1" by blast
    have "fixInsert_loop m (ptr_of t) = ret m1"
      using 3 m1(1) rep_guard [OF r t] fixInsert_body_rep [OF r t]
        fixInsert_loop_step [of m "ptr_of t" m1 q] fixInsert_loop_stop [OF m1(3)] by simp
    with m1(2,4) 3 show ?thesis by (auto simp: rep_plug)
  qed
next
  case (2 p u ga gc gk fs t)
  note r = "2.prems"(1) and t = "2.prems"(2)
  let ?A = "set (addrs (plug (p # RFr u ga gc gk # fs) t))"
  consider "fcol p = Black" | "fcol p = Red" "tcol u = Red" | "fcol p = Red" "tcol u = Black"
    by (cases "fcol p"; cases "tcol u") auto
  then show ?case
  proof cases
    case 1
    then show ?thesis
      using fixInsert_loop_stop [of m "ptr_of t"] rep_guard [OF r t] r
      by (auto simp: rep_plug)
  next
    case 2
    let ?t = "Nd (paint Black u) ga Red gk (fill (fpaint Black p) t)"
    obtain m1 where m1: "fixInsert_right m (ptr_of t) = ret (m1, ptr_of ?t)" "rep m1 fs ?t"
        "same_outside ?A m m1"
      using recolour_right [OF r t 2(2)] by auto
    have "?A = set (addrs (plug fs ?t))" by (auto simp: set_addrs_plug addrs_fill)
    with "2.IH" [of m1] 2 m1(2) obtain m2 where
      m2: "fixInsert_loop m1 (ptr_of ?t) = ret m2" "is_tree m2 (fixI fs ?t)" "same_outside ?A m1 m2"
      by auto
    have "fixInsert_loop m (ptr_of t) = ret m2"
      using 2 m1(1) m2(1) rep_guard [OF r t] fixInsert_body_rep [OF r t]
        fixInsert_loop_step [of m "ptr_of t"] by simp
    with m2(2) same_outside_trans [OF m1(3) m2(3)] 2 show ?thesis by auto
  next
    case 3
    from rotate_right [OF r t 3(2)] obtain m1 q where
      m1: "fixInsert_right m (ptr_of t) = ret (m1, q)" "rep m1 fs (rot_left_uncle u ga gk p t)"
        "fixInsert_guard m1 q = ret False" "same_outside ?A m m1" by blast
    have "fixInsert_loop m (ptr_of t) = ret m1"
      using 3 m1(1) rep_guard [OF r t] fixInsert_body_rep [OF r t]
        fixInsert_loop_step [of m "ptr_of t" m1 q] fixInsert_loop_stop [OF m1(3)] by simp
    with m1(2,4) 3 show ?thesis by (auto simp: rep_plug)
  qed
next
  case (3 t)
  then show ?case
    using fixInsert_loop_stop [of m "ptr_of t"] rep_guard [of m "[]" t] by (auto simp: is_tree_def)
next
  case (4 v t)
  then show ?case
    using fixInsert_loop_stop [of m "ptr_of t"] rep_guard [of m "[v]" t] by (auto simp: rep_plug)
qed

lemma fixI_neq_Lf: "t \<noteq> Lf \<Longrightarrow> fixI fs t \<noteq> Lf"
proof
  assume t: "t \<noteq> Lf" and "fixI fs t = Lf"
  then have "inorder (plug fs t) = []" using inorder_fixI [of fs t] by simp
  with t show False by (cases t) (simp_all add: inorder_plug)
qed

lemma addrs_rot:
  "set (addrs (rot_right_uncle p t ga gk u)) = insert ga (set (addrs (fill p t)) \<union> set (addrs u))"
  "set (addrs (rot_left_uncle u ga gk p t)) = insert ga (set (addrs (fill p t)) \<union> set (addrs u))"
  by (cases "(p, t, ga, gk, u)" rule: rot_right_uncle.cases; auto)
    (cases "(u, ga, gk, p, t)" rule: rot_left_uncle.cases; auto)

lemma addrs_fixI: "set (addrs (fixI fs t)) = set (addrs (plug fs t))"
  by (induction fs t rule: fixI.induct) (auto simp: set_addrs_plug addrs_rot addrs_fill)

theorem fixInsertCollisions_rep:
  assumes r: "rep m fs t" and t: "t \<noteq> Lf"
  shows "\<exists>m'. fixInsertCollisions m (ptr_of t) = ret m' \<and> is_tree m' (paint Black (fixI fs t))
     \<and> same_outside (set (addrs (plug fs t))) m m'"
proof -
  obtain m1 where m1: "fixInsert_loop m (ptr_of t) = ret m1" "rep m1 [] (fixI fs t)"
      "same_outside (set (addrs (plug fs t))) m m1"
    using fixInsert_loop_rep [OF r t] by (auto simp: is_tree_def)
  from set_color_paint [OF m1(2) fixI_neq_Lf [OF t], of Black] obtain m2 where
    m2: "set_color m1 (ptr_of (fixI fs t)) BLACK = ret m2" "rep m2 [] (paint Black (fixI fs t))"
      "same_outside (set (addrs (fixI fs t))) m1 m2" by auto
  have "root m1 = ptr_of (fixI fs t)" using rep_root [OF m1(2)] by simp
  with m1(1) m2(1) have "fixInsertCollisions m (ptr_of t) = ret m2"
    by (simp add: fixInsertCollisions_def)
  with m2(2) same_outside_trans [OF m1(3)] m2(3) show ?thesis
    by (auto simp: is_tree_def addrs_fixI)
qed

section \<open>The new node\<close>

lemma node_overwrite:
  "n\<lparr>addr := Some a, keyValue := Some k, parent := LEAF, leftChild := LEAF, rightChild := LEAF,
      color := RED\<rparr> = mk_node a LEAF LEAF LEAF Red k"
  by (cases n) (simp add: mk_node_def)

lemma createNode_eq:
  "createNode a (Some k) m =
     ret (Ref a, m\<lparr>heap := (heap m)(a := Some (mk_node a LEAF LEAF LEAF Red k))\<rparr>)"
  by (simp add: createNode_def RBNodeAlloc_def store_defs node_overwrite)

text \<open>The side taken at each frame of a descent.\<close>

definition on_path :: "('k \<Rightarrow> 'k \<Rightarrow> int) \<Rightarrow> 'k \<Rightarrow> 'k frame \<Rightarrow> bool" where
  "on_path ord k f = (case f of LFr a c x r \<Rightarrow> ord k x < 0 | RFr l a c x \<Rightarrow> \<not> ord k x < 0)"

lemma ins_frames_on_path:
  "(\<forall>f \<in> set fs. on_path ord k f) \<Longrightarrow> \<forall>f \<in> set (ins_frames ord k fs t). on_path ord k f"
proof (induction t arbitrary: fs)
  case Lf
  then show ?case by simp
next
  case (Nd l a c x r)
  show ?case
  proof (cases "ord k x < 0")
    case True
    with Nd.prems have "\<forall>f \<in> set (LFr a c x r # fs). on_path ord k f" by (simp add: on_path_def)
    from Nd.IH(1) [OF this] True show ?thesis by simp
  next
    case False
    with Nd.prems have "\<forall>f \<in> set (RFr l a c x # fs). on_path ord k f" by (simp add: on_path_def)
    from Nd.IH(2) [OF this] False show ?thesis by simp
  qed
qed

lemma set_addrs_ins_frames: "set (faddrs (ins_frames ord k fs t)) = set (faddrs fs) \<union> set (addrs t)"
  using plug_ins_frames [of ord k fs t] set_addrs_plug [of fs t]
    set_addrs_plug [of "ins_frames ord k fs t" Lf] by simp

text \<open>The tail of \<open>Insert\<close> before the repair: the new node goes below the last node passed, on the
  side the comparison says.\<close>

definition link_node ::
  "'k compare_func \<Rightarrow> 'k RBtree \<Rightarrow> nptr \<Rightarrow> nptr \<Rightarrow> 'k item \<Rightarrow> 'k RBtree go" where
  "link_node cmp m new last_node ik =
     bnd (set_parent m new last_node) (\<lambda>m.
     if IS_LEAF last_node then ret (m\<lparr>root := new\<rparr>)
     else bnd (ld m last_node keyValue) (\<lambda>lk.
          bnd (cmp ik lk) (\<lambda>result.
          if result < 0 then set_left m last_node new else set_right m last_node new)))"

lemma Insert_link_node:
  "Insert cmp a key m =
     bnd (if IS_NOT_LEAF (root m) then FindKey cmp m key else ret None) (\<lambda>LocalKey.
     case LocalKey of Some k \<Rightarrow> ret (ReplyKey k, m) | None \<Rightarrow>
     bnd (createNode a key m) (\<lambda>(new, m1).
     if new = NilP then ret (ReplyLEAF, m1) else
     bnd (ld m1 new keyValue) (\<lambda>ik.
     bnd (insert_search cmp m1 ik LEAF (root m)) (\<lambda>last_node.
     bnd (link_node cmp m1 new last_node ik) (\<lambda>m2.
     bnd (fixInsertCollisions m2 new) (\<lambda>m3. ret (ReplyNil, m3)))))))"
  unfolding Insert_def link_node_def Let_def bnd_assoc by (rule refl)

context comparator
begin

lemma insert_search_stored:
  "stored (heap m) (above fs) t \<Longrightarrow>
   insert_search Compare m (Some k) (above fs) (ptr_of t) = ret (above (ins_frames ord k fs t))"
proof (induction t arbitrary: fs)
  case Lf
  show ?case by (subst insert_search.simps) simp
next
  case (Nd l a c x r)
  from Nd.IH(1) [of "LFr a c x r # fs"] Nd.IH(2) [of "RFr l a c x # fs"] Nd.prems show ?case
    by (subst ptr_of.simps, subst insert_search.simps) (simp add: returns)
qed

lemma link_rep:
  assumes "rep m fs Lf" and "heap m a = Some (mk_node a LEAF LEAF LEAF Red k)"
    and "a \<notin> set (faddrs fs)" and "\<forall>f \<in> set fs. on_path ord k f"
  shows "\<exists>m'. link_node Compare m (Ref a) (above fs) (Some k) = ret m' \<and> rep m' fs (Nd Lf a Red k Lf)
     \<and> same_outside (insert a (set (faddrs fs))) m m'"
proof (cases fs)
  case Nil
  with assms show ?thesis
    by (auto simp: link_node_def rep_def store_defs same_outside_def)
next
  case (Cons f gs)
  show ?thesis
  proof (cases f)
    case (LFr b c x r)
    with assms Cons show ?thesis
      by (auto simp: link_node_def rep_def store_defs same_outside_def on_path_def returns)
  next
    case (RFr l b c x)
    with assms Cons show ?thesis
      by (auto simp: link_node_def rep_def store_defs same_outside_def on_path_def returns)
  qed
qed

text \<open>A stored key that compares equal is returned, and nothing changes.\<close>

theorem Insert_present:
  assumes "is_tree m t" and "sorted_by ord (inorder t)" and "key_in ord k (inorder t) = Some x"
  shows "Insert Compare a (Some k) m = ret (ReplyKey x, m)"
proof -
  have "root m \<noteq> LEAF" using assms by (auto simp: is_tree_iff key_in_def)
  with assms show ?thesis by (simp add: Insert_def FindKey_tree)
qed

theorem Insert_absent:
  assumes t: "is_tree m t" and srt: "sorted_by ord (inorder t)"
    and new: "key_in ord k (inorder t) = None" and a: "a \<notin> set (addrs t)"
  shows "\<exists>m'. Insert Compare a (Some k) m = ret (ReplyNil, m') \<and> is_tree m' (ins_tree ord a k t)
     \<and> same_outside (insert a (set (addrs t))) m m'"
proof -
  let ?m1 = "m\<lparr>heap := (heap m)(a := Some (mk_node a LEAF LEAF LEAF Red k))\<rparr>"
  let ?fs = "ins_frames ord k [] t" and ?n = "Nd Lf a Red k Lf"
  have rt: "root m = ptr_of t" using t by (simp add: is_tree_iff)
  have t1: "is_tree ?m1 t" using t a by (simp add: is_tree_iff)
  then have "rep ?m1 ?fs Lf" by (simp add: rep_plug plug_ins_frames)
  moreover have "a \<notin> set (faddrs ?fs)" using a by (simp add: set_addrs_ins_frames)
  ultimately obtain m2 where m2: "link_node Compare ?m1 (Ref a) (above ?fs) (Some k) = ret m2" "rep m2 ?fs ?n"
      "same_outside (insert a (set (addrs t))) ?m1 m2"
    using link_rep [of ?m1 ?fs a k] ins_frames_on_path [of "[]" ord k t]
    by (auto simp: set_addrs_ins_frames)
  from fixInsertCollisions_rep [OF m2(2)] obtain m3 where
    m3: "fixInsertCollisions m2 (Ref a) = ret m3" "is_tree m3 (paint Black (fixI ?fs ?n))"
      "same_outside (insert a (set (addrs t))) m2 m3"
    by (auto simp: set_addrs_plug set_addrs_ins_frames)
  have "insert_search Compare ?m1 (Some k) LEAF (ptr_of t) = ret (above ?fs)"
    using t1 insert_search_stored [of ?m1 "[]" t k] by (simp add: is_tree_iff)
  then have "Insert Compare a (Some k) m = ret (ReplyNil, m3)"
    using m2(1) m3(1) rt new FindKey_tree [OF t srt, of k]
    by (cases t) (simp_all add: Insert_link_node createNode_eq)
  moreover have "same_outside (insert a (set (addrs t))) m m3"
    using m2(3) m3(3) by (simp add: same_outside_def)
  ultimately show ?thesis using m3(2) by (auto simp: ins_tree_def)
qed

end

end
