(* ===== verification/RB_Delete.thy ===== *)
theory RB_Delete
  imports RB_Insert
begin

text \<open>
  \<open>Delete\<close> on the store. \<open>gap fs t\<close> names what the code does to the tree when the node in focus
  is deleted: the zipper of the place where a node is physically unlinked, that node's colour and
  the child that takes its place. \<open>deleteCheckSwitch\<close> computes it on every tree. The repair loop
  runs only when the child is a black node below another one; on a red-black tree it never does,
  and the theorems for \<open>Delete\<close> here are for that case.
\<close>

section \<open>Unlinking on zippers\<close>

fun min_zip :: "'k frames \<Rightarrow> 'k rbt \<Rightarrow> 'k frames \<times> 'k rbt" where
  "min_zip fs (Nd (Nd ll b d j lr) a c k r) = min_zip (LFr a c k r # fs) (Nd ll b d j lr)"
| "min_zip fs (Nd Lf a c k r) = (fs, Nd Lf a c k r)"
| "min_zip fs Lf = (fs, Lf)"

fun gap :: "'k frames \<Rightarrow> 'k rbt \<Rightarrow> 'k frames \<times> colour \<times> 'k rbt" where
  "gap fs Lf = (fs, Red, Lf)"
| "gap fs (Nd l a c k r) =
     (if l = Lf then (fs, c, r)
      else if r = Lf then (fs, c, l)
      else (case min_zip [] r of
              (ms, Nd ml b d j br) \<Rightarrow> (ms @ RFr l b c j # fs, d, br)
            | (ms, Lf) \<Rightarrow> (fs, c, l)))"

definition del_at :: "'k frames \<Rightarrow> 'k rbt \<Rightarrow> 'k rbt" where
  "del_at fs t = (case gap fs t of (gs, d, u) \<Rightarrow> plug gs (if d = Black then paint Black u else u))"

lemma plug_min_zip: "plug (fst (min_zip fs t)) (snd (min_zip fs t)) = plug fs t"
  by (induction fs t rule: min_zip.induct) simp_all

lemma min_zip_node:
  "t \<noteq> Lf \<Longrightarrow> \<exists>b d j br. snd (min_zip fs t) = Nd Lf b d j br"
  by (induction fs t rule: min_zip.induct) auto

lemma min_zip_Nd:
  assumes "t \<noteq> Lf"
  obtains ms b d j br where "min_zip [] t = (ms, Nd Lf b d j br)" "t = plug ms (Nd Lf b d j br)"
  using plug_min_zip [of "[]" t] min_zip_node [OF assms, of "[]"]
  by (cases "min_zip [] t") auto

lemma TreeFirstNode_stored:
  "stored (heap m) p t \<Longrightarrow> t \<noteq> Lf \<Longrightarrow> TreeFirstNode m (ptr_of t) = ret (ptr_of (snd (min_zip fs t)))"
proof (induction fs t arbitrary: p rule: min_zip.induct)
  case (1 fs ll b d j lr a c k r)
  then have "stored (heap m) (Ref a) (Nd ll b d j lr)" by simp
  with 1 have "TreeFirstNode m (Ref b) = ret (ptr_of (snd (min_zip fs (Nd (Nd ll b d j lr) a c k r))))"
    by simp
  with "1.prems"(1) show ?case by (subst ptr_of.simps, subst TreeFirstNode.simps) simp
next
  case (2 fs a c k r)
  then show ?case by (subst ptr_of.simps, subst TreeFirstNode.simps) simp
next
  case (3 fs)
  then show ?case by simp
qed

section \<open>\<open>switchNodes\<close>\<close>

lemma switchNodes_right:
  assumes "rep m fs (Nd Lf a c k r)"
  shows "\<exists>m'. switchNodes m (Ref a) (ptr_of r) = ret m' \<and> rep m' fs r \<and> heap m' a = heap m a
    \<and> same_outside (set (addrs (plug fs (Nd Lf a c k r)))) m m'"
  using assms
  by (cases fs rule: faddrs.cases; cases r)
    (auto simp: rep_def switchNodes_def AM_I_LEFT_CHILD_def store_defs same_outside_def set_addrs_plug)

lemma switchNodes_left:
  assumes "rep m fs (Nd l a c k Lf)"
  shows "\<exists>m'. switchNodes m (Ref a) (ptr_of l) = ret m' \<and> rep m' fs l \<and> heap m' a = heap m a
    \<and> same_outside (set (addrs (plug fs (Nd l a c k Lf)))) m m'"
  using assms
  by (cases fs rule: faddrs.cases; cases l)
    (auto simp: rep_def switchNodes_def AM_I_LEFT_CHILD_def store_defs same_outside_def set_addrs_plug)

text \<open>The state in the middle of \<open>deleteNode\<close>: node \<open>a\<close> still hangs in the frames, the successor
  \<open>b\<close> has been given the right subtree and hangs nowhere.\<close>

definition mid_delete ::
  "'k RBtree \<Rightarrow> 'k frames \<Rightarrow> 'k rbt \<Rightarrow> nat \<Rightarrow> colour \<Rightarrow> 'k \<Rightarrow> nat \<Rightarrow> colour \<Rightarrow> 'k \<Rightarrow> 'k rbt \<Rightarrow> bool" where
  "mid_delete m fs l a c k b d j R \<longleftrightarrow>
     leaf m = LEAF_node \<and> distinct (a # b # addrs l @ addrs R @ faddrs fs)
     \<and> (\<exists>q. heap m a = Some (mk_node a (above fs) (ptr_of l) q c k))
     \<and> (\<exists>x. heap m b = Some (mk_node b x LEAF (ptr_of R) d j))
     \<and> stored (heap m) (Ref b) R \<and> stored (heap m) (Ref a) l
     \<and> fstored (heap m) (Ref a) fs \<and> root m = root_of (Ref a) fs"

lemma mid_delete_give_right:
  assumes "rep m fs (Nd l a c k R)" and "heap m b = Some (mk_node b x LEAF y d j)"
    and "b \<notin> set (addrs (plug fs (Nd l a c k R)))"
  shows "\<exists>m'. bnd (ld m (Ref a) rightChild) (\<lambda>dr.
            bnd (set_right m (Ref b) dr) (\<lambda>m.
            if IS_NOT_LEAF dr then set_parent m dr (Ref b) else ret m)) = ret m'
     \<and> mid_delete m' fs l a c k b d j R
     \<and> same_outside (insert b (set (addrs (plug fs (Nd l a c k R))))) m m'"
  using assms
  by (cases R) (auto simp: rep_def mid_delete_def store_defs same_outside_def set_addrs_plug)

lemma mid_delete_switch:
  assumes "mid_delete m fs l a c k b d j R"
  shows "\<exists>m'. switchNodes m (Ref a) (Ref b) = ret m' \<and> leaf m' = LEAF_node
     \<and> (\<exists>q. heap m' a = Some (mk_node a (above fs) (ptr_of l) q c k))
     \<and> heap m' b = Some (mk_node b (above fs) LEAF (ptr_of R) d j)
     \<and> stored (heap m') (Ref b) R \<and> stored (heap m') (Ref a) l
     \<and> fstored (heap m') (Ref b) fs \<and> root m' = root_of (Ref b) fs
     \<and> same_outside (insert b (set (faddrs fs))) m m'"
  using assms
  by (cases fs rule: faddrs.cases)
    (auto simp: mid_delete_def switchNodes_def AM_I_LEFT_CHILD_def store_defs same_outside_def)

lemma mid_delete_finish:
  assumes "mid_delete m fs l a c k b d j R"
  shows "\<exists>m'. bnd (switchNodes m (Ref a) (Ref b)) (\<lambda>m.
       bnd (ld m (Ref a) leftChild) (\<lambda>dl.
       bnd (set_left m (Ref b) dl) (\<lambda>m.
       bnd (if IS_NOT_LEAF dl then set_parent m dl (Ref b) else ret m) (\<lambda>m.
       bnd (ld m (Ref a) color) (\<lambda>dc. set_color m (Ref b) dc))))) = ret m'
     \<and> rep m' fs (Nd l b c j R) \<and> (\<exists>n. heap m' a = Some n \<and> addr n = Some a)
     \<and> same_outside (insert b (set (addrs l) \<union> set (faddrs fs))) m m'"
proof -
  obtain m1 where m1: "switchNodes m (Ref a) (Ref b) = ret m1" "leaf m1 = LEAF_node"
      "\<exists>q. heap m1 a = Some (mk_node a (above fs) (ptr_of l) q c k)"
      "heap m1 b = Some (mk_node b (above fs) LEAF (ptr_of R) d j)"
      "stored (heap m1) (Ref b) R" "stored (heap m1) (Ref a) l"
      "fstored (heap m1) (Ref b) fs" "root m1 = root_of (Ref b) fs"
      "same_outside (insert b (set (faddrs fs))) m m1"
    using mid_delete_switch [OF assms] by blast
  have dist: "distinct (a # b # addrs l @ addrs R @ faddrs fs)"
    using assms by (simp add: mid_delete_def)
  have "\<exists>m'. bnd (ld m1 (Ref a) leftChild) (\<lambda>dl.
       bnd (set_left m1 (Ref b) dl) (\<lambda>m.
       bnd (if IS_NOT_LEAF dl then set_parent m dl (Ref b) else ret m) (\<lambda>m.
       bnd (ld m (Ref a) color) (\<lambda>dc. set_color m (Ref b) dc)))) = ret m'
     \<and> rep m' fs (Nd l b c j R) \<and> (\<exists>n. heap m' a = Some n \<and> addr n = Some a)
     \<and> same_outside (insert b (set (addrs l))) m1 m'"
    using m1(2-8) dist
    by (cases l) (auto simp: rep_def store_defs same_outside_def)
  then obtain m' where m': "bnd (ld m1 (Ref a) leftChild) (\<lambda>dl.
       bnd (set_left m1 (Ref b) dl) (\<lambda>m.
       bnd (if IS_NOT_LEAF dl then set_parent m dl (Ref b) else ret m) (\<lambda>m.
       bnd (ld m (Ref a) color) (\<lambda>dc. set_color m (Ref b) dc)))) = ret m'"
     "rep m' fs (Nd l b c j R)" "\<exists>n. heap m' a = Some n \<and> addr n = Some a"
     "same_outside (insert b (set (addrs l))) m1 m'" by blast
  moreover have "same_outside (insert b (set (addrs l) \<union> set (faddrs fs))) m m'"
    using m1(9) m'(4) by (simp add: same_outside_def)
  ultimately show ?thesis using m1(1) by simp
qed

text \<open>The first half of \<open>deleteNode\<close> brings the store into that state, whichever branch it takes.\<close>

lemma deleteNode_front:
  assumes r: "rep m fs (Nd l a c k r)" and mz: "min_zip [] r = (ms, Nd Lf b d j br)"
    and rp: "r = plug ms (Nd Lf b d j br)"
  shows "\<exists>m'. (if above (ms @ RFr l a c k # fs) = Ref a \<and> IS_NOT_LEAF (ptr_of br)
            then set_parent m (ptr_of br) (Ref b)
            else bnd (switchNodes m (Ref b) (ptr_of br)) (\<lambda>m.
                 bnd (ld m (Ref a) rightChild) (\<lambda>dr.
                 bnd (set_right m (Ref b) dr) (\<lambda>m.
                 if IS_NOT_LEAF dr then set_parent m dr (Ref b) else ret m)))) = ret m'
     \<and> mid_delete m' fs l a c k b d j (plug ms br)
     \<and> same_outside (set (addrs (plug fs (Nd l a c k r)))) m m'"
proof (cases "above (ms @ RFr l a c k # fs) = Ref a \<and> br \<noteq> Lf")
  case True
  have ms: "ms = []"
  proof (cases ms)
    case Nil
    then show ?thesis .
  next
    case (Cons f gs)
    then have "frame_addr f \<in> set (addrs r)" by (simp add: rp set_addrs_plug addrs_fill)
    with True Cons r show ?thesis by (auto simp: rep_def)
  qed
  with r rp True show ?thesis
    by (cases br) (auto simp: rep_def mid_delete_def store_defs same_outside_def set_addrs_plug)
next
  case False
  let ?A = "set (addrs (plug fs (Nd l a c k r)))"
  have r': "rep m (ms @ RFr l a c k # fs) (Nd Lf b d j br)"
    using r by (simp add: rep_plug plug_append rp)
  have dist: "distinct (faddrs (ms @ RFr l a c k # fs) @ addrs (Nd Lf b d j br))"
    using r' by (simp add: rep_def)
  from switchNodes_right [OF r'] obtain m1 where
    m1: "switchNodes m (Ref b) (ptr_of br) = ret m1" "rep m1 (ms @ RFr l a c k # fs) br"
      "heap m1 b = heap m b" "same_outside ?A m m1" by (auto simp: plug_append rp)
  have b: "heap m1 b = Some (mk_node b (above (ms @ RFr l a c k # fs)) LEAF (ptr_of br) d j)"
    using rep_focus [OF r'] m1(3) by simp
  have m1': "rep m1 fs (Nd l a c k (plug ms br))"
    using m1(2) by (simp add: rep_plug plug_append)
  have "set (addrs (plug fs (Nd l a c k (plug ms br)))) = set (faddrs (ms @ RFr l a c k # fs)) \<union> set (addrs br)"
    using set_addrs_plug [of "ms @ RFr l a c k # fs" br] by (simp add: plug_append)
  with dist have bn: "b \<notin> set (addrs (plug fs (Nd l a c k (plug ms br))))" by auto
  from mid_delete_give_right [OF m1' b bn] obtain m2 where
    m2: "bnd (ld m1 (Ref a) rightChild) (\<lambda>dr.
            bnd (set_right m1 (Ref b) dr) (\<lambda>m.
            if IS_NOT_LEAF dr then set_parent m dr (Ref b) else ret m)) = ret m2"
      "mid_delete m2 fs l a c k b d j (plug ms br)"
      "same_outside (insert b (set (addrs (plug fs (Nd l a c k (plug ms br)))))) m1 m2" by blast
  have "same_outside ?A m m2"
    using m1(4) m2(3) by (simp add: same_outside_def set_addrs_plug rp)
  with False m1(1) m2(1,2) show ?thesis by auto
qed

lemma deleteNode_rep:
  assumes r: "rep m fs (Nd l a c k r)" and "l \<noteq> Lf" and rn: "r \<noteq> Lf"
    and g: "gap fs (Nd l a c k r) = (gs, d, u)"
  shows "\<exists>m'. deleteNode m (Ref a) = ret (cw d, ptr_of u, m') \<and> rep m' gs u
     \<and> (\<exists>n. heap m' a = Some n \<and> addr n = Some a)
     \<and> same_outside (set (addrs (plug fs (Nd l a c k r)))) m m'"
proof -
  obtain ms b d' j br where mz: "min_zip [] r = (ms, Nd Lf b d' j br)"
    and rp: "r = plug ms (Nd Lf b d' j br)" using min_zip_Nd [OF rn] by metis
  with g assms(2) rn have gs: "gs = ms @ RFr l b c j # fs" "d' = d" "br = u" by auto
  let ?A = "set (addrs (plug fs (Nd l a c k r)))"
  from deleteNode_front [OF r mz rp] obtain m1 where
    m1: "(if above (ms @ RFr l a c k # fs) = Ref a \<and> IS_NOT_LEAF (ptr_of u)
            then set_parent m (ptr_of u) (Ref b)
            else bnd (switchNodes m (Ref b) (ptr_of u)) (\<lambda>m.
                 bnd (ld m (Ref a) rightChild) (\<lambda>dr.
                 bnd (set_right m (Ref b) dr) (\<lambda>m.
                 if IS_NOT_LEAF dr then set_parent m dr (Ref b) else ret m)))) = ret m1"
      "mid_delete m1 fs l a c k b d j (plug ms u)" "same_outside ?A m m1"
    unfolding gs(2,3) by blast
  from mid_delete_finish [OF m1(2)] obtain m2 where
    m2: "bnd (switchNodes m1 (Ref a) (Ref b)) (\<lambda>m.
       bnd (ld m (Ref a) leftChild) (\<lambda>dl.
       bnd (set_left m (Ref b) dl) (\<lambda>m.
       bnd (if IS_NOT_LEAF dl then set_parent m dl (Ref b) else ret m) (\<lambda>m.
       bnd (ld m (Ref a) color) (\<lambda>dc. set_color m (Ref b) dc))))) = ret m2"
     "rep m2 fs (Nd l b c j (plug ms u))" "\<exists>n. heap m2 a = Some n \<and> addr n = Some a"
     "same_outside (insert b (set (addrs l) \<union> set (faddrs fs))) m1 m2" by blast
  have b: "heap m b = Some (mk_node b (above (ms @ RFr l a c k # fs)) LEAF (ptr_of u) d j)"
    using r rep_focus [of m "ms @ RFr l a c k # fs" Lf b d j u] gs
    by (simp add: rep_plug plug_append rp)
  have dr: "ld m (Ref a) rightChild = ret (ptr_of r)" using rep_focus [OF r] by simp
  have "stored (heap m) (Ref a) r" using r by (simp add: rep_def)
  from TreeFirstNode_stored [OF this rn, of "[]"] mz have "TreeFirstNode m (ptr_of r) = ret (Ref b)"
    by simp
  then have "deleteNode m (Ref a) = bnd (bnd (switchNodes m1 (Ref a) (Ref b)) (\<lambda>m.
       bnd (ld m (Ref a) leftChild) (\<lambda>dl.
       bnd (set_left m (Ref b) dl) (\<lambda>m.
       bnd (if IS_NOT_LEAF dl then set_parent m dl (Ref b) else ret m) (\<lambda>m.
       bnd (ld m (Ref a) color) (\<lambda>dc. set_color m (Ref b) dc))))))
       (\<lambda>m. ret (cw d, ptr_of u, m))"
    using m1(1) b dr by (simp add: deleteNode_def bnd_assoc)
  moreover have "rep m2 gs u" using m2(2) by (simp add: gs rep_plug plug_append)
  moreover have "same_outside ?A m m2"
    using m1(3) m2(4) by (simp add: same_outside_def set_addrs_plug rp)
  ultimately show ?thesis using m2(1,3) by auto
qed

theorem deleteCheckSwitch_rep:
  assumes r: "rep m fs (Nd l a c k r)" and g: "gap fs (Nd l a c k r) = (gs, d, u)"
  shows "\<exists>m'. deleteCheckSwitch m (Ref a) = ret (cw d, ptr_of u, m') \<and> rep m' gs u
     \<and> (\<exists>n. heap m' a = Some n \<and> addr n = Some a)
     \<and> same_outside (set (addrs (plug fs (Nd l a c k r)))) m m'"
proof -
  note n = rep_focus [OF r]
  consider "l = Lf" | "l \<noteq> Lf" "r = Lf" | "l \<noteq> Lf" "r \<noteq> Lf" by blast
  then show ?thesis
  proof cases
    case 1
    with r have "rep m fs (Nd Lf a c k r)" by simp
    from switchNodes_right [OF this] 1 g n show ?thesis
      by (auto simp: deleteCheckSwitch_def)
  next
    case 2
    with r have "rep m fs (Nd l a c k Lf)" by simp
    from switchNodes_left [OF this] 2 g n show ?thesis
      by (auto simp: deleteCheckSwitch_def)
  next
    case 3
    with deleteNode_rep [OF r 3 g] n show ?thesis
      by (simp add: deleteCheckSwitch_def)
  qed
qed

section \<open>The deletion function\<close>

fun find_zip :: "('k \<Rightarrow> 'k \<Rightarrow> int) \<Rightarrow> 'k \<Rightarrow> 'k frames \<Rightarrow> 'k rbt \<Rightarrow> ('k frames \<times> 'k rbt) option" where
  "find_zip ord k fs Lf = None"
| "find_zip ord k fs (Nd l a c x r) =
     (if ord x k = 0 then Some (fs, Nd l a c x r)
      else if ord x k < 0 then find_zip ord k (RFr l a c x # fs) r
      else find_zip ord k (LFr a c x r # fs) l)"

definition del_tree :: "('k \<Rightarrow> 'k \<Rightarrow> int) \<Rightarrow> 'k \<Rightarrow> 'k rbt \<Rightarrow> 'k rbt" where
  "del_tree ord k t = (case find_zip ord k [] t of None \<Rightarrow> t | Some (fs, u) \<Rightarrow> del_at fs u)"

text \<open>The repair loop does not run: the unlinked node was red, or the child in its place is
  absent, red or the root.\<close>

definition quiet_del :: "('k \<Rightarrow> 'k \<Rightarrow> int) \<Rightarrow> 'k \<Rightarrow> 'k rbt \<Rightarrow> bool" where
  "quiet_del ord k t = (case find_zip ord k [] t of None \<Rightarrow> True | Some (fs, v) \<Rightarrow>
     (case gap fs v of (gs, d, u) \<Rightarrow> d = Red \<or> u = Lf \<or> tcol u = Red \<or> gs = []))"

text \<open>The unlinked node is black, has no child and is not the root.\<close>

definition loses_black :: "('k \<Rightarrow> 'k \<Rightarrow> int) \<Rightarrow> 'k \<Rightarrow> 'k rbt \<Rightarrow> bool" where
  "loses_black ord k t = (case find_zip ord k [] t of None \<Rightarrow> False | Some (fs, v) \<Rightarrow>
     (case gap fs v of (gs, d, u) \<Rightarrow> d = Black \<and> u = Lf \<and> gs \<noteq> []))"

lemma find_zip_Some:
  "find_zip ord k fs t = Some (gs, u) \<Longrightarrow>
   plug gs u = plug fs t \<and> (\<exists>l a c x r. u = Nd l a c x r \<and> ord x k = 0 \<and> find_ptr ord k t = Ref a)"
  by (induction t arbitrary: fs) (auto split: if_split_asm)

lemma find_zip_None: "find_zip ord k fs t = None \<Longrightarrow> find_ptr ord k t = NilP"
  by (induction t arbitrary: fs) (auto split: if_split_asm)

subsection \<open>Order\<close>

lemma min_zip_fleft: "fleft fs = [] \<Longrightarrow> fleft (fst (min_zip fs t)) = []"
  by (induction fs t rule: min_zip.induct) simp_all

lemma fleft_append: "fleft (ms @ fs) = fleft fs @ fleft ms" "fright (ms @ fs) = fright ms @ fright fs"
  by (induction ms rule: fleft.induct) simp_all

lemma inorder_gap:
  assumes "gap fs (Nd l a c k r) = (gs, d, u)"
  shows "inorder (plug gs u) = fleft fs @ inorder l @ inorder r @ fright fs"
proof (cases "l = Lf \<or> r = Lf")
  case True
  with assms show ?thesis by (auto simp: inorder_plug split: if_split_asm)
next
  case False
  then obtain ms b e j br where mz: "min_zip [] r = (ms, Nd Lf b e j br)" "r = plug ms (Nd Lf b e j br)"
    using min_zip_Nd by metis
  have "fleft ms = []"
    using min_zip_fleft [of "[]" r] mz(1) by simp
  with mz False assms show ?thesis
    by (auto simp: inorder_plug fleft_append)
qed

definition del_list :: "('k \<Rightarrow> 'k \<Rightarrow> int) \<Rightarrow> 'k \<Rightarrow> 'k list \<Rightarrow> 'k list" where
  "del_list ord k xs = filter (\<lambda>x. ord x k \<noteq> 0) xs"

lemma inorder_del_at:
  "inorder (del_at fs (Nd l a c k r)) = fleft fs @ inorder l @ inorder r @ fright fs"
  using inorder_gap [of fs l a c k r]
  by (cases "gap fs (Nd l a c k r)") (simp add: del_at_def inorder_plug)

subsection \<open>Colours and heights\<close>

lemma finvc_rekey: "finvc (ms @ RFr l a c k # fs) = finvc (ms @ RFr l b c j # fs)"
proof (induction ms)
  case Nil
  show ?case by simp
next
  case (Cons f ms)
  then show ?case by (cases ms) simp_all
qed

lemma finvh_rekey: "finvh n (ms @ RFr l a c k # fs) = finvh n (ms @ RFr l b c j # fs)"
  by (induction ms arbitrary: n) simp_all

lemma hd_rekey:
  "fcol (hd (ms @ RFr l a c k # fs)) = fcol (hd (ms @ RFr l b c j # fs))"
  by (cases ms) simp_all

lemma gap_invc:
  assumes t: "invc (plug fs (Nd l a c k r))" and g: "gap fs (Nd l a c k r) = (gs, d, u)"
  shows "finvc gs \<and> invc u \<and> (d = Red \<longrightarrow> tcol u = Black \<and> (gs \<noteq> [] \<longrightarrow> fcol (hd gs) = Black))"
proof (cases "l = Lf \<or> r = Lf")
  case True
  with t g show ?thesis by (auto simp: invc_plug split: if_split_asm)
next
  case False
  then obtain ms b e j br where mz: "min_zip [] r = (ms, Nd Lf b e j br)" "r = plug ms (Nd Lf b e j br)"
    using min_zip_Nd by metis
  have "invc (plug (ms @ RFr l a c k # fs) (Nd Lf b e j br))"
    using t by (simp add: plug_append mz(2))
  then have "finvc (ms @ RFr l b c j # fs)" "invc br"
      "e = Red \<longrightarrow> tcol br = Black \<and> fcol (hd (ms @ RFr l b c j # fs)) = Black"
    using finvc_rekey [of ms l a c k fs b j] hd_rekey [of ms l a c k fs b j]
    by (auto simp: invc_plug)
  with False mz g show ?thesis by auto
qed

lemma gap_invh:
  assumes t: "invh (plug fs (Nd l a c k r))" and g: "gap fs (Nd l a c k r) = (gs, d, u)"
  shows "invh u \<and> bh u = 0 \<and> finvh (if d = Black then 1 else 0) gs"
proof (cases "l = Lf \<or> r = Lf")
  case True
  with g have G: "gs = fs" "d = c" "u = (if l = Lf then r else l)" by (auto split: if_split_asm)
  from t have T: "bh l = bh r" "invh l" "invh r" "finvh (if c = Black then Suc (bh l) else bh l) fs"
    by (simp_all add: invh_plug)
  from True T(1) have "bh l = 0" "bh r = 0" by auto
  with T G show ?thesis by (cases c) simp_all
next
  case False
  then obtain ms b e j br where mz: "min_zip [] r = (ms, Nd Lf b e j br)" "r = plug ms (Nd Lf b e j br)"
    using min_zip_Nd by metis
  have "invh (plug (ms @ RFr l a c k # fs) (Nd Lf b e j br))"
    using t by (simp add: plug_append mz(2))
  then have T: "finvh (if e = Black then Suc 0 else 0) (ms @ RFr l a c k # fs)" "invh br" "bh br = 0"
    by (simp_all add: invh_plug split: if_split_asm)
  have "gs = ms @ RFr l b c j # fs" "d = e" "u = br" using False mz(1) g by auto
  with T finvh_rekey [of _ ms l a c k fs b j] show ?thesis by (cases e) simp_all
qed

lemma bh_0: "bh t = 0 \<Longrightarrow> t = Lf \<or> tcol t = Red"
  by (cases t) (auto split: if_split_asm)

lemma tcol_plug: "tcol (plug fs t) = (if fs = [] then tcol t else fcol (last fs))"
  by (induction fs arbitrary: t) simp_all

lemma gap_root:
  assumes "gap fs (Nd l a c k r) = (gs, d, u)" and "tcol (plug fs (Nd l a c k r)) = Black"
  shows "if gs = [] then d = Black else fcol (last gs) = Black"
  using assms by (auto simp: tcol_plug split: if_split_asm prod.splits rbt.splits)

lemma del_at_inv:
  assumes t: "rb (plug fs (Nd l a c k r))" and g: "gap fs (Nd l a c k r) = (gs, d, u)"
  shows "invc (del_at fs (Nd l a c k r)) \<and> tcol (del_at fs (Nd l a c k r)) = Black
    \<and> (invh (del_at fs (Nd l a c k r)) \<longleftrightarrow> \<not> (d = Black \<and> u = Lf \<and> gs \<noteq> []))"
proof (intro conjI)
  have c: "finvc gs" "invc u" "d = Red \<longrightarrow> tcol u = Black \<and> (gs \<noteq> [] \<longrightarrow> fcol (hd gs) = Black)"
    using gap_invc [OF _ g] t by (simp_all add: rb_def)
  have h: "invh u" "bh u = 0" "finvh (if d = Black then 1 else 0) gs"
    using gap_invh [OF _ g] t by (simp_all add: rb_def)
  have r: "if gs = [] then d = Black else fcol (last gs) = Black"
    using gap_root [OF g] t by (simp add: rb_def)
  have D: "del_at fs (Nd l a c k r) = plug gs (if d = Black then paint Black u else u)"
    by (simp only: del_at_def g prod.case)
  show "invc (del_at fs (Nd l a c k r))"
    using c invc_paint [of u] unfolding D by (cases d) (auto simp: invc_plug)
  show "tcol (del_at fs (Nd l a c k r)) = Black"
    using r unfolding D by (cases "gs = []") (auto simp: tcol_plug)
  have f01: "finvh 0 gs \<longleftrightarrow> gs = []" if "finvh 1 gs" using that by (cases gs) auto
  show "invh (del_at fs (Nd l a c k r)) \<longleftrightarrow> \<not> (d = Black \<and> u = Lf \<and> gs \<noteq> [])"
    using h f01 bh_0 [OF h(2)] bh_paint_Black [of u]
    unfolding D by (cases d) (auto simp: invh_plug)
qed

theorem rb_quiet: "rb t \<Longrightarrow> quiet_del ord k t"
proof (cases "find_zip ord k [] t")
  case None
  then show ?thesis by (simp add: quiet_del_def)
next
  case (Some z)
  assume t: "rb t"
  obtain gs u where z: "z = (gs, u)" by fastforce
  with Some find_zip_Some [of ord k "[]" t gs u] obtain l a c x r where
    u: "u = Nd l a c x r" "plug gs u = t" by auto
  obtain hs d v where g: "gap gs u = (hs, d, v)" by (cases "gap gs u") auto
  have "bh v = 0" using gap_invh [of gs l a c x r hs d v] t g u by (simp add: rb_def)
  then have "v = Lf \<or> tcol v = Red" by (rule bh_0)
  with Some z g show ?thesis by (auto simp: quiet_del_def)
qed

theorem del_tree_inv:
  assumes t: "rb t"
  shows "invc (del_tree ord k t) \<and> tcol (del_tree ord k t) = Black
    \<and> (invh (del_tree ord k t) \<longleftrightarrow> \<not> loses_black ord k t)"
proof (cases "find_zip ord k [] t")
  case None
  with t show ?thesis by (simp add: del_tree_def loses_black_def rb_def)
next
  case (Some z)
  obtain gs u where z: "z = (gs, u)" by fastforce
  with Some find_zip_Some [of ord k "[]" t gs u] obtain l a c x r where
    u: "u = Nd l a c x r" "plug gs u = t" by auto
  obtain hs d v where g: "gap gs u = (hs, d, v)" by (cases "gap gs u") auto
  have "rb (plug gs (Nd l a c x r))" using t u by simp
  from del_at_inv [OF this] g u Some z show ?thesis
    by (simp add: del_tree_def loses_black_def)
qed

section \<open>\<open>Delete\<close> on the store\<close>

lemma fixDelete_quiet:
  assumes r: "rep m fs u" and q: "u = Lf \<or> tcol u = Red \<or> fs = []"
  shows "\<exists>m'. fixDeleteCollisions m (ptr_of u) = ret m' \<and> rep m' fs (paint Black u)
    \<and> same_outside (set (addrs u)) m m'"
proof -
  have "fixDelete_guard m (ptr_of u) = ret False"
  proof (cases "ptr_of u = root m")
    case False
    then have "fs \<noteq> []" using rep_root [OF r] by auto
    with q False show ?thesis
      using rep_color [OF r] by (auto simp: fixDelete_guard_def)
  qed (simp add: fixDelete_guard_def)
  then have "fixDelete_loop m (ptr_of u) = ret (m, ptr_of u)"
    by (subst fixDelete_loop.simps) simp
  then have "fixDeleteCollisions m (ptr_of u) = set_color m (ptr_of u) BLACK"
    by (simp add: fixDeleteCollisions_def)
  then show ?thesis
  proof (cases "u = Lf")
    case True
    with r \<open>fixDeleteCollisions m (ptr_of u) = set_color m (ptr_of u) BLACK\<close> show ?thesis
      by (simp add: set_color_LEAF rep_leaf)
  next
    case False
    with set_color_paint [OF r False, of Black]
      \<open>fixDeleteCollisions m (ptr_of u) = set_color m (ptr_of u) BLACK\<close> show ?thesis by simp
  qed
qed

lemma addrs_min_zip: "t = plug ms (Nd Lf b d j br) \<Longrightarrow> set (addrs br) \<subseteq> set (addrs t)"
  by (auto simp: set_addrs_plug)

lemma gap_addr:
  assumes r: "rep m fs (Nd l a c k r)" and g: "gap fs (Nd l a c k r) = (gs, d, u)"
  shows "a \<notin> set (addrs u)"
proof -
  have "a \<notin> set (addrs l)" "a \<notin> set (addrs r)" using r by (auto simp: rep_def)
  moreover have "set (addrs u) \<subseteq> set (addrs l) \<union> set (addrs r)"
  proof (cases "l = Lf \<or> r = Lf")
    case True
    with g show ?thesis by (auto split: if_split_asm)
  next
    case False
    then obtain ms b e j br where mz: "min_zip [] r = (ms, Nd Lf b e j br)" "r = plug ms (Nd Lf b e j br)"
      using min_zip_Nd by metis
    with g False have "u = br" by auto
    with addrs_min_zip [OF mz(2)] show ?thesis by auto
  qed
  ultimately show ?thesis by blast
qed

lemma nodes_plug: "set (nodes t) \<subseteq> set (nodes (plug fs t))"
proof (induction fs arbitrary: t)
  case Nil
  show ?case by simp
next
  case (Cons f fs)
  have "set (nodes t) \<subseteq> set (nodes (fill f t))" by (cases f) auto
  with Cons [of "fill f t"] show ?case by auto
qed

text \<open>Deleting what a zipper has in focus, when the repair loop does not run.\<close>

lemma delete_focus_rep:
  assumes r: "rep m fs (Nd l a c k r)" and g: "gap fs (Nd l a c k r) = (gs, d, u)"
    and q: "d = Red \<or> u = Lf \<or> tcol u = Red \<or> gs = []"
  shows "\<exists>m'. bnd (deleteCheckSwitch m (Ref a)) (\<lambda>(nodeColor, temp, m).
         bnd (if nodeColor = BLACK then fixDeleteCollisions m temp else ret m) (\<lambda>m.
         bnd (RBNodeFree m (Ref a)) (\<lambda>m. ret (Some k, m)))) = ret (Some k, m')
     \<and> is_tree m' (del_at fs (Nd l a c k r)) \<and> freed m' = freed m @ [Some a]"
proof -
  let ?t = "plug gs (if d = Black then paint Black u else u)"
  have D: "del_at fs (Nd l a c k r) = ?t" by (simp only: del_at_def g prod.case)
  from deleteCheckSwitch_rep [OF r g] obtain m1 n where
    m1: "deleteCheckSwitch m (Ref a) = ret (cw d, ptr_of u, m1)" "rep m1 gs u"
      "heap m1 a = Some n" "addr n = Some a" "freed m1 = freed m"
    by (auto simp: same_outside_def)
  have "\<exists>m2. (if cw d = BLACK then fixDeleteCollisions m1 (ptr_of u) else ret m1) = ret m2
      \<and> is_tree m2 ?t \<and> freed m2 = freed m1 \<and> heap m2 a = Some n"
  proof (cases d)
    case Red
    with m1 show ?thesis by (simp add: rep_plug)
  next
    case Black
    with q fixDelete_quiet [OF m1(2)] obtain m2 where
      m2: "fixDeleteCollisions m1 (ptr_of u) = ret m2" "rep m2 gs (paint Black u)"
        "same_outside (set (addrs u)) m1 m2" by auto
    have "a \<notin> set (addrs u)" by (rule gap_addr [OF r g])
    with m2(3) m1(3) have "heap m2 a = Some n" by (simp add: same_outside_def)
    with Black m2 show ?thesis by (auto simp: rep_plug same_outside_def)
  qed
  then obtain m2 where m2: "(if cw d = BLACK then fixDeleteCollisions m1 (ptr_of u) else ret m1) = ret m2"
      "is_tree m2 ?t" "freed m2 = freed m1" "heap m2 a = Some n" by blast
  have "RBNodeFree m2 (Ref a) = ret (m2\<lparr>freed := freed m2 @ [Some a]\<rparr>)"
    using m2(4) m1(4) by (simp add: RBNodeFree_def)
  moreover have "is_tree (m2\<lparr>freed := freed m2 @ [Some a]\<rparr>) ?t"
    using m2(2) by (simp add: is_tree_iff)
  ultimately show ?thesis
    unfolding D using m1(1,5) m2(1,3) by simp
qed

context comparator
begin

theorem Delete_absent:
  assumes "is_tree m t" and "sorted_by ord (inorder t)" and "key_in ord k (inorder t) = None"
  shows "Delete Compare (Some k) m = ret (None, m)"
  using assms FindNode_tree [of m t k] find_ptr_NilP [of t k] by (simp add: Delete_def)

theorem Delete_present:
  assumes t: "is_tree m t" and srt: "sorted_by ord (inorder t)"
    and k: "key_in ord k (inorder t) = Some x" and q: "quiet_del ord k t"
  shows "\<exists>m' a. Delete Compare (Some k) m = ret (Some x, m') \<and> is_tree m' (del_tree ord k t)
     \<and> (a, x) \<in> set (nodes t) \<and> freed m' = freed m @ [Some a]"
proof -
  have "find_ptr ord k t \<noteq> NilP" using find_ptr_NilP [OF srt, of k] k by simp
  then obtain fs u where z: "find_zip ord k [] t = Some (fs, u)"
    using find_zip_None [of ord k "[]" t] by (cases "find_zip ord k [] t") auto
  then obtain l a c y r where u: "u = Nd l a c y r" "ord y k = 0" "find_ptr ord k t = Ref a"
      "plug fs u = t" using find_zip_Some [OF z] by auto
  have "key_in ord k (inorder t) = Some y"
    using u srt key_in_unique [of "fleft fs @ inorder l" y "inorder r @ fright fs" k]
    by (auto simp: inorder_plug)
  with k have y: "y = x" by simp
  have r: "rep m fs (Nd l a c x r)" using t u y by (simp add: rep_plug)
  obtain gs d v where g: "gap fs (Nd l a c x r) = (gs, d, v)" by (cases "gap fs (Nd l a c x r)") auto
  have "d = Red \<or> v = Lf \<or> tcol v = Red \<or> gs = []"
    using q z g u(1) y unfolding quiet_del_def by (simp only: option.case prod.case)
  from delete_focus_rep [OF r g this] obtain m' where
    m': "bnd (deleteCheckSwitch m (Ref a)) (\<lambda>(nodeColor, temp, m).
         bnd (if nodeColor = BLACK then fixDeleteCollisions m temp else ret m) (\<lambda>m.
         bnd (RBNodeFree m (Ref a)) (\<lambda>m. ret (Some x, m)))) = ret (Some x, m')"
      "is_tree m' (del_at fs (Nd l a c x r))" "freed m' = freed m @ [Some a]" by blast
  have "Delete Compare (Some k) m = ret (Some x, m')"
    using FindNode_tree [OF t, of k] u(3) m'(1) rep_focus [OF r] by (simp add: Delete_def)
  moreover have "(a, x) \<in> set (nodes t)"
    using u(1,4) y nodes_plug [of u fs] by auto
  moreover have "del_tree ord k t = del_at fs (Nd l a c x r)"
    using z u(1) y by (simp add: del_tree_def)
  ultimately show ?thesis using m' by auto
qed

theorem inorder_del_tree:
  assumes srt: "sorted_by ord (inorder t)"
  shows "inorder (del_tree ord k t) = del_list ord k (inorder t)"
proof (cases "find_zip ord k [] t")
  case None
  then have "find_ptr ord k t = NilP" by (rule find_zip_None)
  then have "\<forall>x \<in> set (inorder t). ord x k \<noteq> 0"
    using find_ptr_NilP [OF srt] by (simp add: key_in_None)
  with None show ?thesis by (simp add: del_tree_def del_list_def)
next
  case (Some z)
  then obtain fs u where z: "find_zip ord k [] t = Some (fs, u)" by (cases z) auto
  then obtain l a c y r where u: "u = Nd l a c y r" "ord y k = 0" "plug fs u = t"
    using find_zip_Some [OF z] by auto
  let ?xs = "fleft fs @ inorder l" and ?ys = "inorder r @ fright fs"
  have t: "inorder t = ?xs @ y # ?ys" using u by (auto simp: inorder_plug)
  have "sorted_by ord (?xs @ y # ?ys)" using srt t by simp
  then have "\<forall>x \<in> set ?xs. ord x y < 0" "\<forall>x \<in> set ?ys. ord y x < 0" by auto
  then have "\<forall>x \<in> set ?xs. ord x k < 0" "\<forall>x \<in> set ?ys. ord k x < 0"
    using u(2) less_eq eq_less eq_sym by blast+
  then have "\<forall>x \<in> set ?xs. ord x k \<noteq> 0" "\<forall>x \<in> set ?ys. ord x k \<noteq> 0"
    using eq_sym by force+
  then have "del_list ord k (inorder t) = ?xs @ ?ys"
    using u(2) by (auto simp: t del_list_def)
  moreover have "inorder (del_tree ord k t) = ?xs @ ?ys"
    using z u(1) inorder_del_at [of fs l a c y r] by (simp add: del_tree_def)
  ultimately show ?thesis by simp
qed

lemma sorted_del_list: "sorted_by ord xs \<Longrightarrow> sorted_by ord (del_list ord k xs)"
  by (simp add: del_list_def sorted_by_def sorted_wrt_filter)

end

end
