(* ===== verification/RB_Walk.thy ===== *)
theory RB_Walk
  imports RB_Delete
begin

text \<open>
  The traversal operations: \<open>TreeFirstNode\<close> and \<open>TreeLastNode\<close> reach the ends of the key order,
  \<open>TreeNext\<close> and \<open>TreePrev\<close> step through it, with \<open>LEAF\<close> past either end. On the empty tree the
  first two dereference the sentinel's \<open>nil\<close> child.
\<close>

section \<open>Nodes left and right of the focus\<close>

fun nleft :: "'k frames \<Rightarrow> (nat \<times> 'k) list" where
  "nleft [] = []"
| "nleft (LFr a c k r # fs) = nleft fs"
| "nleft (RFr l a c k # fs) = nleft fs @ nodes l @ [(a, k)]"

fun nright :: "'k frames \<Rightarrow> (nat \<times> 'k) list" where
  "nright [] = []"
| "nright (LFr a c k r # fs) = (a, k) # nodes r @ nright fs"
| "nright (RFr l a c k # fs) = nright fs"

lemma nodes_plug_eq: "nodes (plug fs t) = nleft fs @ nodes t @ nright fs"
proof (induction fs arbitrary: t)
  case Nil
  show ?case by simp
next
  case (Cons f fs)
  then show ?case by (cases f) simp_all
qed

lemma nleft_append: "nleft (fs @ gs) = nleft gs @ nleft fs" "nright (fs @ gs) = nright fs @ nright gs"
  by (induction fs rule: nleft.induct) simp_all

fun first_ptr :: "(nat \<times> 'k) list \<Rightarrow> nptr" where
  "first_ptr [] = LEAF"
| "first_ptr (x # xs) = Ref (fst x)"

definition last_ptr :: "(nat \<times> 'k) list \<Rightarrow> nptr" where
  "last_ptr xs = first_ptr (rev xs)"

lemma last_ptr_simps [simp]:
  "last_ptr [] = LEAF" "last_ptr [x] = Ref (fst x)" "last_ptr (xs @ y # ys) = last_ptr (y # ys)"
proof -
  show "last_ptr [] = LEAF" "last_ptr [x] = Ref (fst x)" by (simp_all add: last_ptr_def)
  show "last_ptr (xs @ y # ys) = last_ptr (y # ys)"
    by (cases "rev (y # ys)") (simp_all add: last_ptr_def)
qed

lemma last_ptr_mid [simp]: "last_ptr (xs @ ys @ z # zs) = last_ptr (z # zs)"
  using last_ptr_simps(3) [of "xs @ ys" z zs] by simp

lemma first_ptr_append: "xs \<noteq> [] \<Longrightarrow> first_ptr (xs @ ys) = first_ptr xs"
  by (cases xs) simp_all

lemma nodes_Nil [simp]: "nodes t = [] \<longleftrightarrow> t = Lf"
  by (cases t) simp_all

section \<open>First and last\<close>

lemma TreeFirstNode_nodes:
  "stored (heap m) p t \<Longrightarrow> t \<noteq> Lf \<Longrightarrow> TreeFirstNode m (ptr_of t) = ret (first_ptr (nodes t))"
proof (induction t arbitrary: p)
  case Lf
  then show ?case by simp
next
  case (Nd l a c k r)
  then show ?case
    by (subst ptr_of.simps, subst TreeFirstNode.simps) (cases "l = Lf"; auto simp: first_ptr_append)
qed

lemma TreeLastNode_nodes:
  "stored (heap m) p t \<Longrightarrow> t \<noteq> Lf \<Longrightarrow> TreeLastNode m (ptr_of t) = ret (last_ptr (nodes t))"
proof (induction t arbitrary: p)
  case Lf
  then show ?case by simp
next
  case (Nd l a c k r)
  show ?case
  proof (cases "r = Lf")
    case True
    with Nd.prems show ?thesis
      by (subst ptr_of.simps, subst TreeLastNode.simps) auto
  next
    case False
    then obtain y ys where "nodes r = y # ys" by (cases "nodes r") auto
    then have "last_ptr (nodes (Nd l a c k r)) = last_ptr (nodes r)"
      using last_ptr_simps(3) [of "nodes l @ [(a, k)]" y ys] by simp
    with False Nd show ?thesis
      by (subst ptr_of.simps, subst TreeLastNode.simps) auto
  qed
qed

lemma TreeFirstNode_LEAF: "leaf m = LEAF_node \<Longrightarrow> TreeFirstNode m LEAF = panic NilDeref"
  by (subst TreeFirstNode.simps, simp, subst TreeFirstNode.simps, simp)

lemma TreeLastNode_LEAF: "leaf m = LEAF_node \<Longrightarrow> TreeLastNode m LEAF = panic NilDeref"
  by (subst TreeLastNode.simps, simp, subst TreeLastNode.simps, simp)

section \<open>Next and previous\<close>

lemma next_climb_rep:
  "rep m fs t \<Longrightarrow> t \<noteq> Lf \<Longrightarrow>
   \<exists>q. next_climb m (ptr_of t) = ret q \<and> ld m q parent = ret (first_ptr (nright fs))"
proof (induction fs arbitrary: t)
  case Nil
  then show ?case by (subst next_climb.simps) (simp add: rep_node_parent)
next
  case (Cons f fs)
  show ?case
  proof (cases f)
    case (LFr a c k r)
    with Cons.prems show ?thesis
      using rep_node_parent(2) [OF Cons.prems] rep_AM_I_RIGHT [OF Cons.prems]
      by (subst next_climb.simps) simp
  next
    case (RFr l a c k)
    have "rep m fs (fill f t)" using Cons.prems(1) by (simp add: rep_up)
    from Cons.IH [OF this] RFr obtain q where
      "next_climb m (Ref a) = ret q" "ld m q parent = ret (first_ptr (nright fs))" by auto
    with RFr show ?thesis
      using rep_node_parent(2) [OF Cons.prems] rep_AM_I_RIGHT [OF Cons.prems]
      by (subst next_climb.simps) simp
  qed
qed

theorem TreeNext_rep:
  assumes r: "rep m fs (Nd l a c k r)"
  shows "TreeNext m (Ref a) = ret (first_ptr (nodes r @ nright fs))"
proof (cases "r = Lf")
  case False
  have "stored (heap m) (Ref a) r" using r by (simp add: rep_def)
  from TreeFirstNode_nodes [OF this False] False rep_focus [OF r] show ?thesis
    by (simp add: TreeNext_def first_ptr_append)
next
  case True
  have n: "Nd l a c k r \<noteq> Lf" by simp
  show ?thesis
  proof (cases fs)
    case Nil
    with True rep_focus [OF r] next_climb_rep [OF r n] show ?thesis
      by (auto simp: TreeNext_def)
  next
    case (Cons f gs)
    with r have r': "rep m (f # gs) (Nd l a c k r)" by simp
    show ?thesis
      using True Cons rep_focus [OF r] next_climb_rep [OF r n] rep_AM_I_LEFT [OF r' n]
      by (cases f) (auto simp: TreeNext_def)
  qed
qed

lemma prev_climb_rep:
  "rep m fs t \<Longrightarrow> t \<noteq> Lf \<Longrightarrow>
   \<exists>q. prev_climb m (ptr_of t) = ret q \<and> ld m q parent = ret (last_ptr (nleft fs))"
proof (induction fs arbitrary: t)
  case Nil
  from Nil have "AM_I_LEFT_CHILD m (ptr_of t) = ret False"
    by (simp add: AM_I_LEFT_CHILD_def rep_node_parent rep_leaf)
  with Nil show ?case by (subst prev_climb.simps) (simp add: rep_node_parent)
next
  case (Cons f fs)
  show ?case
  proof (cases f)
    case (RFr l a c k)
    with Cons.prems show ?thesis
      using rep_node_parent(2) [OF Cons.prems] rep_AM_I_LEFT [OF Cons.prems]
      by (subst prev_climb.simps) simp
  next
    case (LFr a c k r)
    have "rep m fs (fill f t)" using Cons.prems(1) by (simp add: rep_up)
    from Cons.IH [OF this] LFr obtain q where
      "prev_climb m (Ref a) = ret q" "ld m q parent = ret (last_ptr (nleft fs))" by auto
    with LFr Cons.prems show ?thesis
      using rep_node_parent(2) [OF Cons.prems] rep_AM_I_LEFT [OF Cons.prems]
      by (subst prev_climb.simps) simp
  qed
qed

theorem TreePrev_rep:
  assumes r: "rep m fs (Nd l a c k r)"
  shows "TreePrev m (Ref a) = ret (last_ptr (nleft fs @ nodes l))"
proof (cases "l = Lf")
  case False
  then obtain y ys where y: "nodes l = y # ys" by (cases "nodes l") auto
  have "stored (heap m) (Ref a) l" using r by (simp add: rep_def)
  from TreeLastNode_nodes [OF this False] False rep_focus [OF r] y show ?thesis
    by (simp add: TreePrev_def)
next
  case True
  have n: "Nd l a c k r \<noteq> Lf" by simp
  show ?thesis
  proof (cases fs)
    case Nil
    with True rep_focus [OF r] prev_climb_rep [OF r n] show ?thesis
      by (auto simp: TreePrev_def)
  next
    case (Cons f gs)
    with r have r': "rep m (f # gs) (Nd l a c k r)" by simp
    show ?thesis
      using True Cons rep_focus [OF r] prev_climb_rep [OF r n] rep_AM_I_RIGHT [OF r' n]
      by (cases f) (auto simp: TreePrev_def)
  qed
qed

text \<open>Every node of a tree is the focus of a zipper, so both theorems apply to each of them.\<close>

lemma focus_exists:
  "nodes t = xs @ (a, k) # ys \<Longrightarrow> distinct (addrs t) \<Longrightarrow>
   \<exists>fs l c r. t = plug fs (Nd l a c k r) \<and> nleft fs @ nodes l = xs \<and> nodes r @ nright fs = ys"
proof (induction t arbitrary: xs ys)
  case Lf
  then show ?case by simp
next
  case (Nd l b c j r)
  then consider
    us where "xs = nodes l @ (b, j) # us" "nodes r = us @ (a, k) # ys"
    | "xs = nodes l" "(a, k) = (b, j)" "ys = nodes r"
    | us where "nodes l = xs @ (a, k) # us" "ys = us @ (b, j) # nodes r"
    by (auto simp: append_eq_append_conv2 Cons_eq_append_conv append_eq_Cons_conv)
  then show ?case
  proof cases
    case 1
    from Nd.IH(2) [OF 1(2)] Nd.prems(2) obtain fs l' c' r' where
      "r = plug fs (Nd l' a c' k r')" "nleft fs @ nodes l' = us" "nodes r' @ nright fs = ys" by auto
    with 1 have "Nd l b c j r = plug (fs @ [RFr l b c j]) (Nd l' a c' k r')
        \<and> nleft (fs @ [RFr l b c j]) @ nodes l' = xs \<and> nodes r' @ nright (fs @ [RFr l b c j]) = ys"
      by (auto simp: plug_append nleft_append)
    then show ?thesis by blast
  next
    case 2
    then have "Nd l b c j r = plug [] (Nd l a c k r) \<and> nleft [] @ nodes l = xs \<and> nodes r @ nright [] = ys"
      by simp
    then show ?thesis by blast
  next
    case 3
    from Nd.IH(1) [OF 3(1)] Nd.prems(2) obtain fs l' c' r' where
      "l = plug fs (Nd l' a c' k r')" "nleft fs @ nodes l' = xs" "nodes r' @ nright fs = us" by auto
    with 3 have "Nd l b c j r = plug (fs @ [LFr b c j r]) (Nd l' a c' k r')
        \<and> nleft (fs @ [LFr b c j r]) @ nodes l' = xs \<and> nodes r' @ nright (fs @ [LFr b c j r]) = ys"
      by (auto simp: plug_append nleft_append)
    then show ?thesis by blast
  qed
qed

end
