(* ===== verification/RB_Repair.thy ===== *)
theory RB_Repair
  imports RB_Walk
begin

text \<open>
  \<open>fixDeleteCollisions\<close> on every tree, balanced or not. \<open>fix_del fs t\<close> names the tree the repair
  loop leaves, or \<open>None\<close> where it meets a sibling that is the sentinel and dereferences its nil
  children. The loop returns or panics on every tree, and where it returns it keeps the keys, their
  order and the nodes.
\<close>

section \<open>The repair on zippers\<close>

text \<open>One step below the parent \<open>pa\<close> of the node \<open>t\<close>, whose sibling \<open>s\<close> is not red: the new
  subtree, and whether the loop goes on at the parent. When only the far nephew is black, the code
  takes the old sibling for the new one (\<open>temp = temp.parent.rightChild\<close>), which the colours show.\<close>

fun sib_step_left :: "'k rbt \<Rightarrow> nat \<Rightarrow> colour \<Rightarrow> 'k \<Rightarrow> 'k rbt \<Rightarrow> (bool \<times> 'k rbt) option" where
  "sib_step_left t pa pc pk Lf = None"
| "sib_step_left t pa pc pk (Nd sl b c j sr) =
     (if tcol sl = Black \<and> tcol sr = Black then Some (True, Nd t pa pc pk (Nd sl b Red j sr))
      else if tcol sr = Black then
        (case sl of Lf \<Rightarrow> None
         | Nd ll d e i lr \<Rightarrow> Some (False, Nd (Nd t pa Black pk ll) d Black i (Nd lr b pc j sr)))
      else Some (False, Nd (Nd t pa Black pk sl) b pc j (paint Black sr)))"

fun sib_step_right :: "'k rbt \<Rightarrow> nat \<Rightarrow> colour \<Rightarrow> 'k \<Rightarrow> 'k rbt \<Rightarrow> (bool \<times> 'k rbt) option" where
  "sib_step_right Lf pa pc pk t = None"
| "sib_step_right (Nd sl b c j sr) pa pc pk t =
     (if tcol sr = Black \<and> tcol sl = Black then Some (True, Nd (Nd sl b Red j sr) pa pc pk t)
      else if tcol sl = Black then
        (case sr of Lf \<Rightarrow> None
         | Nd rl d e i rr \<Rightarrow> Some (False, Nd (Nd sl b pc j rl) d Black i (Nd rr pa Black pk t)))
      else Some (False, Nd (paint Black sl) b pc j (Nd sr pa Black pk t)))"

fun fix_del :: "'k frames \<Rightarrow> 'k rbt \<Rightarrow> 'k rbt option" where
  "fix_del [] t = Some (paint Black t)"
| "fix_del (LFr pa pc pk s # fs) t =
     (if t = Lf \<or> tcol t = Red then Some (plug fs (Nd (paint Black t) pa pc pk s)) else
      (case s of
         Nd sl b Red j sr \<Rightarrow>
           (case sib_step_left t pa Red pk sl of None \<Rightarrow> None
            | Some (True, u) \<Rightarrow> Some (plug fs (Nd (paint Black u) b Black j sr))
            | Some (False, u) \<Rightarrow> Some (paint Black (plug fs (Nd u b Black j sr))))
       | _ \<Rightarrow>
           (case sib_step_left t pa pc pk s of None \<Rightarrow> None
            | Some (True, u) \<Rightarrow> fix_del fs u
            | Some (False, u) \<Rightarrow> Some (paint Black (plug fs u)))))"
| "fix_del (RFr s pa pc pk # fs) t =
     (if t = Lf \<or> tcol t = Red then Some (plug fs (Nd s pa pc pk (paint Black t))) else
      (case s of
         Nd sl b Red j sr \<Rightarrow>
           (case sib_step_right sr pa Red pk t of None \<Rightarrow> None
            | Some (True, u) \<Rightarrow> Some (plug fs (Nd sl b Black j (paint Black u)))
            | Some (False, u) \<Rightarrow> Some (paint Black (plug fs (Nd sl b Black j u))))
       | _ \<Rightarrow>
           (case sib_step_right s pa pc pk t of None \<Rightarrow> None
            | Some (True, u) \<Rightarrow> fix_del fs u
            | Some (False, u) \<Rightarrow> Some (paint Black (plug fs u)))))"

text \<open>Keys and nodes stay.\<close>

lemma nodes_paint [simp]: "nodes (paint c t) = nodes t"
  by (cases t) simp_all

lemma sib_step_nodes:
  "sib_step_left t pa pc pk s = Some (go, u) \<Longrightarrow> nodes u = nodes t @ (pa, pk) # nodes s"
  "sib_step_right s pa pc pk t = Some (go, u) \<Longrightarrow> nodes u = nodes s @ (pa, pk) # nodes t"
  by (cases s; auto split: if_split_asm rbt.splits)+

lemma nodes_plug_cong: "nodes t = nodes u \<Longrightarrow> nodes (plug fs t) = nodes (plug fs u)"
  by (simp add: nodes_plug_eq)

lemma fix_del_nodes: "fix_del fs t = Some u \<Longrightarrow> nodes u = nodes (plug fs t)"
proof (induction fs t rule: fix_del.induct)
  case (1 t)
  then show ?case by auto
next
  case (2 pa pc pk s fs t)
  then show ?case
    by (auto simp: nodes_plug_eq dest!: sib_step_nodes(1) split: if_split_asm rbt.splits colour.splits option.splits bool.splits)
next
  case (3 s pa pc pk fs t)
  then show ?case
    by (auto simp: nodes_plug_eq dest!: sib_step_nodes(2) split: if_split_asm rbt.splits colour.splits option.splits bool.splits)
qed


section \<open>The repair on the store\<close>

text \<open>A node below another one is not the root.\<close>

lemma root_of_frames: "root_of q fs = (if fs = [] then q else Ref (frame_addr (last fs)))"
  by (induction fs arbitrary: q) auto

lemma rep_not_root:
  assumes r: "rep m (f # fs) t" and t: "t \<noteq> Lf"
  shows "ptr_of t \<noteq> root m"
proof -
  have "frame_addr (last (f # fs)) \<in> set (faddrs (f # fs))"
  proof (induction fs arbitrary: f)
    case Nil
    show ?case by (cases f) simp_all
  next
    case (Cons g fs)
    then show ?case by (cases f) auto
  qed
  moreover have "root m = Ref (frame_addr (last (f # fs)))"
    using r by (simp add: rep_def root_of_frames)
  moreover have "distinct (faddrs (f # fs) @ addrs t)" using r by (simp add: rep_def)
  ultimately show ?thesis using t by (cases t) (auto simp del: last.simps faddrs.simps)
qed

text \<open>The part of an iteration after the case of a red sibling.\<close>

definition sib_left :: "'k RBtree \<Rightarrow> nptr \<Rightarrow> nptr \<Rightarrow> ('k RBtree \<times> nptr) go" where
  "sib_left m node temp =
     bnd (ld m temp leftChild) (\<lambda>tl.
     bnd (ld m tl color) (\<lambda>tlc.
     bnd (if tlc = BLACK then
            bnd (ld m temp rightChild) (\<lambda>tr. bnd (ld m tr color) (\<lambda>c. ret (c = BLACK)))
          else ret False) (\<lambda>both_black.
     if both_black then
       bnd (set_color m temp RED) (\<lambda>m.
       bnd (PARENT m node) (\<lambda>p. ret (m, p)))
     else
       bnd (ld m temp rightChild) (\<lambda>tr.
       bnd (ld m tr color) (\<lambda>trc.
       bnd (if trc = BLACK then
              bnd (ld m temp leftChild) (\<lambda>tl.
              bnd (set_color m tl BLACK) (\<lambda>m.
              bnd (set_color m temp RED) (\<lambda>m.
              bnd (rotateToRight m temp) (\<lambda>m.
              bnd (PARENT m temp) (\<lambda>tp.
              bnd (ld m tp rightChild) (\<lambda>temp. ret (m, temp)))))))
            else ret (m, temp)) (\<lambda>(m, temp).
       bnd (PARENT m node) (\<lambda>p.
       bnd (ld m p color) (\<lambda>pc.
       bnd (set_color m temp pc) (\<lambda>m.
       bnd (set_color m p BLACK) (\<lambda>m.
       bnd (ld m temp rightChild) (\<lambda>tr.
       bnd (set_color m tr BLACK) (\<lambda>m.
       bnd (rotateToLeft m p) (\<lambda>m.
       ret (m, root m))))))))))))))"

lemma fixDelete_left_sib:
  "fixDelete_left m node =
     bnd (PARENT m node) (\<lambda>p.
     bnd (ld m p rightChild) (\<lambda>temp.
     bnd (ld m temp color) (\<lambda>tc.
     bnd (if tc = RED then
            bnd (set_color m temp BLACK) (\<lambda>m.
            bnd (set_color m p RED) (\<lambda>m.
            bnd (rotateToLeft m p) (\<lambda>m.
            bnd (PARENT m node) (\<lambda>p.
            bnd (ld m p rightChild) (\<lambda>temp. ret (m, temp))))))
          else ret (m, temp)) (\<lambda>(m, temp). sib_left m node temp))))"
  unfolding fixDelete_left_def sib_left_def by (rule refl)

text \<open>The same store seen from the node, its parent and its sibling.\<close>

lemma rep_sibling:
  "rep m (LFr a c k s # fs) t \<longleftrightarrow> rep m (RFr t a c k # fs) s"
  by (simp add: rep_up)

lemma same_outside_step:
  "same_outside B m m' \<Longrightarrow> B \<subseteq> A \<Longrightarrow> same_outside A m' m'' \<Longrightarrow> same_outside A m m''"
  by (rule same_outside_trans [OF same_outside_mono])

lemma black_paint: "tcol t = Black \<Longrightarrow> paint Black t = t"
  by (cases t) auto

lemma same_frames:
  "rep m fs (Nd l a c k r) \<Longrightarrow> set (addrs l) \<union> set (addrs r) \<union> {a} \<union> set (faddrs fs) = A \<Longrightarrow>
   set (addrs (plug fs (Nd l a c k r))) = A"
  by (auto simp: set_addrs_plug)

text \<open>The last steps of an iteration, on the sibling in focus below the frames \<open>hs\<close>: none, or one
  when the near nephew was turned up and the code still holds the old sibling.\<close>

lemma finish_left:
  assumes r: "rep m (hs @ RFr t pa pc pk # fs) (Nd sl b c j sr)" and t: "t \<noteq> Lf"
    and x: "plug hs (Nd sl b pc j (paint Black sr)) = Nd xl xa xc xk xr"
  shows "\<exists>m'. bnd (PARENT m (ptr_of t)) (\<lambda>p.
       bnd (ld m p color) (\<lambda>pc.
       bnd (set_color m (Ref b) pc) (\<lambda>m.
       bnd (set_color m p BLACK) (\<lambda>m.
       bnd (ld m (Ref b) rightChild) (\<lambda>tr.
       bnd (set_color m tr BLACK) (\<lambda>m.
       bnd (rotateToLeft m p) (\<lambda>m.
       ret (m, root m)))))))) = ret (m', root m')
     \<and> rep m' fs (Nd (Nd t pa Black pk xl) xa xc xk xr)
     \<and> same_outside (set (addrs (plug (hs @ RFr t pa pc pk # fs) (Nd sl b c j sr)))) m m'"
proof -
  let ?A = "set (addrs (plug (hs @ RFr t pa pc pk # fs) (Nd sl b c j sr)))"
  have up: "rep m' (gs @ RFr t a c k # fs) u \<longleftrightarrow> rep m' fs (Nd t a c k (plug gs u))" for m' gs a c k u
    by (simp add: rep_plug plug_append)
  have r0: "rep m (LFr pa pc pk (plug hs (Nd sl b c j sr)) # fs) t"
    using r by (simp add: up rep_up)
  have p: "PARENT m (ptr_of t) = ret (Ref pa)" using rep_node_parent(1) [OF r0 t] by simp
  have c: "ld m (Ref pa) color = ret (cw pc)" using rep_frame_color [OF r0] by simp
  from set_color_rep [OF r, of pc] obtain m1 where m1: "set_color m (Ref b) (cw pc) = ret m1"
    "rep m1 fs (Nd t pa pc pk (plug hs (Nd sl b pc j sr)))" "same_outside {b} m m1" unfolding up by blast
  from set_color_rep [OF m1(2), of Black] obtain m2 where m2: "set_color m1 (Ref pa) BLACK = ret m2"
    "rep m2 fs (Nd t pa Black pk (plug hs (Nd sl b pc j sr)))" "same_outside {pa} m1 m2"
    unfolding cw.simps by blast
  then have r2: "rep m2 (hs @ RFr t pa Black pk # fs) (Nd sl b pc j sr)" by (simp add: up)
  have l2: "ld m2 (Ref b) rightChild = ret (ptr_of sr)" using rep_focus [OF r2] by simp
  have "\<exists>m3. set_color m2 (ptr_of sr) BLACK = ret m3
      \<and> rep m3 (hs @ RFr t pa Black pk # fs) (Nd sl b pc j (paint Black sr))
      \<and> same_outside (set (addrs sr)) m2 m3"
  proof (cases "sr = Lf")
    case True
    then show ?thesis using r2 set_color_LEAF [OF rep_leaf [OF r2]] by simp
  next
    case False
    have "rep m2 (RFr sl b pc j # hs @ RFr t pa Black pk # fs) sr" using r2 by (simp add: rep_up)
    from set_color_paint [OF this False, of Black] show ?thesis by (simp add: rep_up)
  qed
  then obtain m3 where m3: "set_color m2 (ptr_of sr) BLACK = ret m3"
    "rep m3 fs (Nd t pa Black pk (Nd xl xa xc xk xr))" "same_outside (set (addrs sr)) m2 m3"
    unfolding up x by blast
  have "set (addrs (plug hs (Nd sl b pc j (paint Black sr)))) = set (addrs (plug hs (Nd sl b c j sr)))"
    by (simp add: set_addrs_plug)
  then have A: "set (addrs (plug fs (Nd t pa Black pk (Nd xl xa xc xk xr)))) = ?A"
    unfolding x by (simp add: set_addrs_plug plug_append)
  from rotateToLeft_rep [OF m3(2)] obtain m4 where m4: "rotateToLeft m3 (Ref pa) = ret m4"
    "rep m4 fs (Nd (Nd t pa Black pk xl) xa xc xk xr)" "same_outside ?A m3 m4" unfolding A by blast
  have "{b} \<subseteq> ?A" "{pa} \<subseteq> ?A" "set (addrs sr) \<subseteq> ?A" by (auto simp: set_addrs_plug plug_append)
  note same_outside_step [OF m1(3) this(1) same_outside_step [OF m2(3) this(2) same_outside_step [OF m3(3) this(3) m4(3)]]]
  with p c m1(1) m2(1) l2 m3(1) m4 show ?thesis by simp
qed

lemma near_nephew_left:
  assumes r: "rep m (RFr t pa pc pk # fs) (Nd (Nd ll d e i lr) b c j sr)"
  shows "\<exists>m'. bnd (ld m (Ref b) leftChild) (\<lambda>tl.
       bnd (set_color m tl BLACK) (\<lambda>m.
       bnd (set_color m (Ref b) RED) (\<lambda>m.
       bnd (rotateToRight m (Ref b)) (\<lambda>m.
       bnd (PARENT m (Ref b)) (\<lambda>tp.
       bnd (ld m tp rightChild) (\<lambda>temp. ret (m, temp))))))) = ret (m', Ref b)
     \<and> rep m' (RFr t pa pc pk # fs) (Nd ll d Black i (Nd lr b Red j sr))
     \<and> same_outside (set (addrs (plug fs (Nd t pa pc pk (Nd (Nd ll d e i lr) b c j sr))))) m m'"
proof -
  let ?A = "set (addrs (plug fs (Nd t pa pc pk (Nd (Nd ll d e i lr) b c j sr))))"
  let ?F = "RFr t pa pc pk # fs"
  have l: "ld m (Ref b) leftChild = ret (Ref d)" using rep_focus [OF r] by simp
  have "rep m (LFr b c j sr # ?F) (Nd ll d e i lr)" using r by (simp add: rep_up)
  from set_color_rep [OF this, of Black] obtain m1 where m1: "set_color m (Ref d) BLACK = ret m1"
    "rep m1 ?F (Nd (Nd ll d Black i lr) b c j sr)" "same_outside {d} m m1"
    unfolding rep_LFr cw.simps by blast
  from set_color_rep [OF m1(2), of Red] obtain m2 where m2: "set_color m1 (Ref b) RED = ret m2"
    "rep m2 ?F (Nd (Nd ll d Black i lr) b Red j sr)" "same_outside {b} m1 m2" unfolding cw.simps by blast
  have A: "set (addrs (plug ?F (Nd (Nd ll d Black i lr) b Red j sr))) = ?A" by (simp add: set_addrs_plug)
  from rotateToRight_rep [OF m2(2)] obtain m3 where m3: "rotateToRight m2 (Ref b) = ret m3"
    "rep m3 ?F (Nd ll d Black i (Nd lr b Red j sr))" "same_outside ?A m2 m3" unfolding A by blast
  have f: "rep m3 (RFr ll d Black i # ?F) (Nd lr b Red j sr)" using m3(2) by (simp add: rep_up)
  from rep_node_parent(1) [OF f] have "PARENT m3 (Ref b) = ret (Ref d)" by simp
  moreover have "ld m3 (Ref d) rightChild = ret (Ref b)" using rep_focus [OF m3(2)] by simp
  moreover have "{d} \<subseteq> ?A" "{b} \<subseteq> ?A" by (simp_all add: set_addrs_plug)
  note same_outside_step [OF m1(3) this(1) same_outside_step [OF m2(3) this(2) m3(3)]]
  ultimately show ?thesis using l m1(1) m2(1) m3(1,2) by simp
qed


lemma sib_left_panic: "leaf m = LEAF_node \<Longrightarrow> sib_left m node LEAF = panic NilDeref"
  by (simp add: sib_left_def)

lemma sib_left_rep:
  assumes r: "rep m (LFr pa pc pk s # fs) t" and t: "t \<noteq> Lf"
  shows "case sib_step_left t pa pc pk s of
      None \<Rightarrow> sib_left m (ptr_of t) (ptr_of s) = panic NilDeref
    | Some (go, u) \<Rightarrow> \<exists>m'. sib_left m (ptr_of t) (ptr_of s) = ret (m', if go then ptr_of u else root m')
        \<and> rep m' fs u \<and> same_outside (set (addrs (plug fs (Nd t pa pc pk s)))) m m'"
proof (cases s)
  case Lf
  then show ?thesis using sib_left_panic [of m "ptr_of t"] rep_leaf [OF r] by simp
next
  case (Nd sl b c j sr)
  have rs: "rep m (RFr t pa pc pk # fs) (Nd sl b c j sr)" using r Nd by (simp add: rep_up)
  have l: "ld m (Ref b) leftChild = ret (ptr_of sl)" "ld m (Ref b) rightChild = ret (ptr_of sr)"
    using rep_focus [OF rs] by simp_all
  have "rep m (LFr b c j sr # RFr t pa pc pk # fs) sl" "rep m (RFr sl b c j # RFr t pa pc pk # fs) sr"
    using rs by (simp_all add: rep_up)
  then have cl: "ld m (ptr_of sl) color = ret (cw (tcol sl))" "ld m (ptr_of sr) color = ret (cw (tcol sr))"
    by (blast intro: rep_color)+
  consider "tcol sl = Black" "tcol sr = Black" | "tcol sl = Red" "tcol sr = Black" | "tcol sr = Red"
    using not_Red by blast
  then show ?thesis
  proof cases
    case 1
    from set_color_rep [OF rs, of Red] obtain m1 where m1: "set_color m (Ref b) RED = ret m1"
      "rep m1 (RFr t pa pc pk # fs) (Nd sl b Red j sr)" "same_outside {b} m m1" unfolding cw.simps by blast
    then have "rep m1 (LFr pa pc pk (Nd sl b Red j sr) # fs) t" by (simp add: rep_up)
    from rep_node_parent(1) [OF this t] have "PARENT m1 (ptr_of t) = ret (Ref pa)" by simp
    moreover have "same_outside (set (addrs (plug fs (Nd t pa pc pk s)))) m m1"
      by (rule same_outside_mono [OF m1(3)]) (simp add: set_addrs_plug Nd)
    ultimately show ?thesis
      using 1 m1 l cl Nd by (simp add: sib_left_def rep_up)
  next
    case 2
    then obtain ll d i lr where sl: "sl = Nd ll d Red i lr" by (cases sl) auto
    from near_nephew_left [OF rs [unfolded sl]] obtain m1 where m1:
      "bnd (ld m (Ref b) leftChild) (\<lambda>tl.
       bnd (set_color m tl BLACK) (\<lambda>m.
       bnd (set_color m (Ref b) RED) (\<lambda>m.
       bnd (rotateToRight m (Ref b)) (\<lambda>m.
       bnd (PARENT m (Ref b)) (\<lambda>tp.
       bnd (ld m tp rightChild) (\<lambda>temp. ret (m, temp))))))) = ret (m1, Ref b)"
      "rep m1 (RFr t pa pc pk # fs) (Nd ll d Black i (Nd lr b Red j sr))"
      "same_outside (set (addrs (plug fs (Nd t pa pc pk s)))) m m1" unfolding Nd sl by blast
    have A: "set (addrs (plug ([RFr ll d Black i] @ RFr t pa pc pk # fs) (Nd lr b Red j sr)))
        = set (addrs (plug fs (Nd t pa pc pk s)))"
      by (auto simp: set_addrs_plug Nd sl)
    have "rep m1 ([RFr ll d Black i] @ RFr t pa pc pk # fs) (Nd lr b Red j sr)" using m1(2) by (simp add: rep_up)
    from finish_left [OF this t, of ll d Black i "Nd lr b pc j (paint Black sr)"] obtain m2 where m2:
      "bnd (PARENT m1 (ptr_of t)) (\<lambda>p.
       bnd (ld m1 p color) (\<lambda>pc.
       bnd (set_color m1 (Ref b) pc) (\<lambda>m.
       bnd (set_color m p BLACK) (\<lambda>m.
       bnd (ld m (Ref b) rightChild) (\<lambda>tr.
       bnd (set_color m tr BLACK) (\<lambda>m.
       bnd (rotateToLeft m p) (\<lambda>m.
       ret (m, root m)))))))) = ret (m2, root m2)"
      "rep m2 fs (Nd (Nd t pa Black pk ll) d Black i (Nd lr b pc j (paint Black sr)))"
      "same_outside (set (addrs (plug fs (Nd t pa pc pk s)))) m1 m2" unfolding A by auto
    have "sib_left m (ptr_of t) (Ref b) = ret (m2, root m2)"
      using l cl 2 m1(1) m2(1) by (simp add: sib_left_def)
    with m2 same_outside_trans [OF m1(3) m2(3)] 2 sl Nd show ?thesis by (simp add: black_paint)
  next
    case 3
    have A: "set (addrs (plug ([] @ RFr t pa pc pk # fs) (Nd sl b c j sr))) = set (addrs (plug fs (Nd t pa pc pk s)))"
      by (simp add: Nd)
    have "rep m ([] @ RFr t pa pc pk # fs) (Nd sl b c j sr)" using rs by simp
    from finish_left [OF this t, of sl b pc j "paint Black sr"] obtain m2 where m2:
      "bnd (PARENT m (ptr_of t)) (\<lambda>p.
       bnd (ld m p color) (\<lambda>pc.
       bnd (set_color m (Ref b) pc) (\<lambda>m.
       bnd (set_color m p BLACK) (\<lambda>m.
       bnd (ld m (Ref b) rightChild) (\<lambda>tr.
       bnd (set_color m tr BLACK) (\<lambda>m.
       bnd (rotateToLeft m p) (\<lambda>m.
       ret (m, root m)))))))) = ret (m2, root m2)"
      "rep m2 fs (Nd (Nd t pa Black pk sl) b pc j (paint Black sr))"
      "same_outside (set (addrs (plug fs (Nd t pa pc pk s)))) m m2" unfolding A by auto
    have "sib_left m (ptr_of t) (Ref b) = ret (m2, root m2)"
      using l cl 3 m2(1) by (simp add: sib_left_def)
    with m2 3 Nd show ?thesis by simp
  qed
qed

text \<open>A whole iteration, by the colour of the sibling.\<close>

lemma fixDelete_left_black:
  assumes r: "rep m (LFr pa pc pk s # fs) t" and t: "t \<noteq> Lf" and s: "tcol s = Black"
  shows "fixDelete_left m (ptr_of t) = sib_left m (ptr_of t) (ptr_of s)"
proof -
  have "ld m (Ref pa) rightChild = ret (ptr_of s)" using rep_LFr_node [OF r] by simp
  moreover have "ld m (ptr_of s) color = ret BLACK"
    using rep_color [of m "RFr t pa pc pk # fs" s] r s by (simp add: rep_up)
  ultimately show ?thesis
    using rep_node_parent(1) [OF r t] by (simp add: fixDelete_left_sib)
qed

lemma fixDelete_left_red:
  assumes r: "rep m (LFr pa pc pk (Nd sl b Red j sr) # fs) t" and t: "t \<noteq> Lf"
  shows "\<exists>m'. fixDelete_left m (ptr_of t) = sib_left m' (ptr_of t) (ptr_of sl)
    \<and> rep m' (LFr pa Red pk sl # LFr b Black j sr # fs) t
    \<and> same_outside (set (addrs (plug fs (Nd t pa pc pk (Nd sl b Red j sr))))) m m'"
proof -
  let ?A = "set (addrs (plug fs (Nd t pa pc pk (Nd sl b Red j sr))))"
  have p: "PARENT m (ptr_of t) = ret (Ref pa)" using rep_node_parent(1) [OF r t] by simp
  have rc: "ld m (Ref pa) rightChild = ret (Ref b)" using rep_LFr_node [OF r] by simp
  have rs: "rep m (RFr t pa pc pk # fs) (Nd sl b Red j sr)" using r by (simp add: rep_up)
  have c: "ld m (Ref b) color = ret RED" using rep_focus [OF rs] by simp
  from set_color_rep [OF rs, of Black] obtain m1 where m1: "set_color m (Ref b) BLACK = ret m1"
    "rep m1 fs (Nd t pa pc pk (Nd sl b Black j sr))" "same_outside {b} m m1"
    unfolding rep_RFr cw.simps by blast
  from set_color_rep [OF m1(2), of Red] obtain m2 where m2: "set_color m1 (Ref pa) RED = ret m2"
    "rep m2 fs (Nd t pa Red pk (Nd sl b Black j sr))" "same_outside {pa} m1 m2" unfolding cw.simps by blast
  have A: "set (addrs (plug fs (Nd t pa Red pk (Nd sl b Black j sr)))) = ?A" by (simp add: set_addrs_plug)
  from rotateToLeft_rep [OF m2(2)] obtain m3 where m3: "rotateToLeft m2 (Ref pa) = ret m3"
    "rep m3 fs (Nd (Nd t pa Red pk sl) b Black j sr)" "same_outside ?A m2 m3" unfolding A by blast
  then have r3: "rep m3 (LFr pa Red pk sl # LFr b Black j sr # fs) t" by (simp add: rep_up)
  have "PARENT m3 (ptr_of t) = ret (Ref pa)" using rep_node_parent(1) [OF r3 t] by simp
  moreover have "ld m3 (Ref pa) rightChild = ret (ptr_of sl)" using rep_LFr_node [OF r3] by simp
  moreover have "{b} \<subseteq> ?A" "{pa} \<subseteq> ?A" by (simp_all add: set_addrs_plug)
  note same_outside_step [OF m1(3) this(1) same_outside_step [OF m2(3) this(2) m3(3)]]
  ultimately show ?thesis
    using p rc c m1(1) m2(1) m3(1) r3 by (intro exI [of _ m3]) (simp add: fixDelete_left_sib)
qed

text \<open>The mirror images.\<close>

definition sib_right :: "'k RBtree \<Rightarrow> nptr \<Rightarrow> nptr \<Rightarrow> ('k RBtree \<times> nptr) go" where
  "sib_right m node temp =
     bnd (ld m temp rightChild) (\<lambda>tr.
     bnd (ld m tr color) (\<lambda>trc.
     bnd (if trc = BLACK then
            bnd (ld m temp leftChild) (\<lambda>tl. bnd (ld m tl color) (\<lambda>c. ret (c = BLACK)))
          else ret False) (\<lambda>both_black.
     if both_black then
       bnd (set_color m temp RED) (\<lambda>m.
       bnd (PARENT m node) (\<lambda>p. ret (m, p)))
     else
       bnd (ld m temp leftChild) (\<lambda>tl.
       bnd (ld m tl color) (\<lambda>tlc.
       bnd (if tlc = BLACK then
              bnd (ld m temp rightChild) (\<lambda>tr.
              bnd (set_color m tr BLACK) (\<lambda>m.
              bnd (set_color m temp RED) (\<lambda>m.
              bnd (rotateToLeft m temp) (\<lambda>m.
              bnd (PARENT m temp) (\<lambda>tp.
              bnd (ld m tp leftChild) (\<lambda>temp. ret (m, temp)))))))
            else ret (m, temp)) (\<lambda>(m, temp).
       bnd (PARENT m node) (\<lambda>p.
       bnd (ld m p color) (\<lambda>pc.
       bnd (set_color m temp pc) (\<lambda>m.
       bnd (set_color m p BLACK) (\<lambda>m.
       bnd (ld m temp leftChild) (\<lambda>tl.
       bnd (set_color m tl BLACK) (\<lambda>m.
       bnd (rotateToRight m p) (\<lambda>m.
       ret (m, root m))))))))))))))"

lemma fixDelete_right_sib:
  "fixDelete_right m node =
     bnd (PARENT m node) (\<lambda>p.
     bnd (ld m p leftChild) (\<lambda>temp.
     bnd (ld m temp color) (\<lambda>tc.
     bnd (if tc = RED then
            bnd (set_color m temp BLACK) (\<lambda>m.
            bnd (set_color m p RED) (\<lambda>m.
            bnd (rotateToRight m p) (\<lambda>m.
            bnd (PARENT m node) (\<lambda>p.
            bnd (ld m p leftChild) (\<lambda>temp. ret (m, temp))))))
          else ret (m, temp)) (\<lambda>(m, temp). sib_right m node temp))))"
  unfolding fixDelete_right_def sib_right_def by (rule refl)

lemma finish_right:
  assumes r: "rep m (hs @ LFr pa pc pk t # fs) (Nd sl b c j sr)" and t: "t \<noteq> Lf"
    and x: "plug hs (Nd (paint Black sl) b pc j sr) = Nd xl xa xc xk xr"
  shows "\<exists>m'. bnd (PARENT m (ptr_of t)) (\<lambda>p.
       bnd (ld m p color) (\<lambda>pc.
       bnd (set_color m (Ref b) pc) (\<lambda>m.
       bnd (set_color m p BLACK) (\<lambda>m.
       bnd (ld m (Ref b) leftChild) (\<lambda>tl.
       bnd (set_color m tl BLACK) (\<lambda>m.
       bnd (rotateToRight m p) (\<lambda>m.
       ret (m, root m)))))))) = ret (m', root m')
     \<and> rep m' fs (Nd xl xa xc xk (Nd xr pa Black pk t))
     \<and> same_outside (set (addrs (plug (hs @ LFr pa pc pk t # fs) (Nd sl b c j sr)))) m m'"
proof -
  let ?A = "set (addrs (plug (hs @ LFr pa pc pk t # fs) (Nd sl b c j sr)))"
  have up: "rep m' (gs @ LFr a c k t # fs) u \<longleftrightarrow> rep m' fs (Nd (plug gs u) a c k t)" for m' gs a c k u
    by (simp add: rep_plug plug_append)
  have r0: "rep m (RFr (plug hs (Nd sl b c j sr)) pa pc pk # fs) t"
    using r by (simp add: up rep_up)
  have p: "PARENT m (ptr_of t) = ret (Ref pa)" using rep_node_parent(1) [OF r0 t] by simp
  have c: "ld m (Ref pa) color = ret (cw pc)" using rep_frame_color [OF r0] by simp
  from set_color_rep [OF r, of pc] obtain m1 where m1: "set_color m (Ref b) (cw pc) = ret m1"
    "rep m1 fs (Nd (plug hs (Nd sl b pc j sr)) pa pc pk t)" "same_outside {b} m m1" unfolding up by blast
  from set_color_rep [OF m1(2), of Black] obtain m2 where m2: "set_color m1 (Ref pa) BLACK = ret m2"
    "rep m2 fs (Nd (plug hs (Nd sl b pc j sr)) pa Black pk t)" "same_outside {pa} m1 m2"
    unfolding cw.simps by blast
  then have r2: "rep m2 (hs @ LFr pa Black pk t # fs) (Nd sl b pc j sr)" by (simp add: up)
  have l2: "ld m2 (Ref b) leftChild = ret (ptr_of sl)" using rep_focus [OF r2] by simp
  have "\<exists>m3. set_color m2 (ptr_of sl) BLACK = ret m3
      \<and> rep m3 (hs @ LFr pa Black pk t # fs) (Nd (paint Black sl) b pc j sr)
      \<and> same_outside (set (addrs sl)) m2 m3"
  proof (cases "sl = Lf")
    case True
    then show ?thesis using r2 set_color_LEAF [OF rep_leaf [OF r2]] by simp
  next
    case False
    have "rep m2 (LFr b pc j sr # hs @ LFr pa Black pk t # fs) sl" using r2 by (simp add: rep_up)
    from set_color_paint [OF this False, of Black] show ?thesis by (simp add: rep_up)
  qed
  then obtain m3 where m3: "set_color m2 (ptr_of sl) BLACK = ret m3"
    "rep m3 fs (Nd (Nd xl xa xc xk xr) pa Black pk t)" "same_outside (set (addrs sl)) m2 m3"
    unfolding up x by blast
  have "set (addrs (plug hs (Nd (paint Black sl) b pc j sr))) = set (addrs (plug hs (Nd sl b c j sr)))"
    by (simp add: set_addrs_plug)
  then have A: "set (addrs (plug fs (Nd (Nd xl xa xc xk xr) pa Black pk t))) = ?A"
    unfolding x by (simp add: set_addrs_plug plug_append) blast
  from rotateToRight_rep [OF m3(2)] obtain m4 where m4: "rotateToRight m3 (Ref pa) = ret m4"
    "rep m4 fs (Nd xl xa xc xk (Nd xr pa Black pk t))" "same_outside ?A m3 m4" unfolding A by blast
  have "{b} \<subseteq> ?A" "{pa} \<subseteq> ?A" "set (addrs sl) \<subseteq> ?A" by (auto simp: set_addrs_plug plug_append)
  note same_outside_step [OF m1(3) this(1) same_outside_step [OF m2(3) this(2) same_outside_step [OF m3(3) this(3) m4(3)]]]
  with p c m1(1) m2(1) l2 m3(1) m4 show ?thesis by simp
qed

lemma near_nephew_right:
  assumes r: "rep m (LFr pa pc pk t # fs) (Nd sl b c j (Nd rl d e i rr))"
  shows "\<exists>m'. bnd (ld m (Ref b) rightChild) (\<lambda>tr.
       bnd (set_color m tr BLACK) (\<lambda>m.
       bnd (set_color m (Ref b) RED) (\<lambda>m.
       bnd (rotateToLeft m (Ref b)) (\<lambda>m.
       bnd (PARENT m (Ref b)) (\<lambda>tp.
       bnd (ld m tp leftChild) (\<lambda>temp. ret (m, temp))))))) = ret (m', Ref b)
     \<and> rep m' (LFr pa pc pk t # fs) (Nd (Nd sl b Red j rl) d Black i rr)
     \<and> same_outside (set (addrs (plug fs (Nd (Nd sl b c j (Nd rl d e i rr)) pa pc pk t)))) m m'"
proof -
  let ?A = "set (addrs (plug fs (Nd (Nd sl b c j (Nd rl d e i rr)) pa pc pk t)))"
  let ?F = "LFr pa pc pk t # fs"
  have l: "ld m (Ref b) rightChild = ret (Ref d)" using rep_focus [OF r] by simp
  have "rep m (RFr sl b c j # ?F) (Nd rl d e i rr)" using r by (simp add: rep_up)
  from set_color_rep [OF this, of Black] obtain m1 where m1: "set_color m (Ref d) BLACK = ret m1"
    "rep m1 ?F (Nd sl b c j (Nd rl d Black i rr))" "same_outside {d} m m1"
    unfolding rep_RFr cw.simps by blast
  from set_color_rep [OF m1(2), of Red] obtain m2 where m2: "set_color m1 (Ref b) RED = ret m2"
    "rep m2 ?F (Nd sl b Red j (Nd rl d Black i rr))" "same_outside {b} m1 m2" unfolding cw.simps by blast
  have A: "set (addrs (plug ?F (Nd sl b Red j (Nd rl d Black i rr)))) = ?A" by (simp add: set_addrs_plug)
  from rotateToLeft_rep [OF m2(2)] obtain m3 where m3: "rotateToLeft m2 (Ref b) = ret m3"
    "rep m3 ?F (Nd (Nd sl b Red j rl) d Black i rr)" "same_outside ?A m2 m3" unfolding A by blast
  have f: "rep m3 (LFr d Black i rr # ?F) (Nd sl b Red j rl)" using m3(2) by (simp add: rep_up)
  from rep_node_parent(1) [OF f] have "PARENT m3 (Ref b) = ret (Ref d)" by simp
  moreover have "ld m3 (Ref d) leftChild = ret (Ref b)" using rep_focus [OF m3(2)] by simp
  moreover have "{d} \<subseteq> ?A" "{b} \<subseteq> ?A" by (simp_all add: set_addrs_plug)
  note same_outside_step [OF m1(3) this(1) same_outside_step [OF m2(3) this(2) m3(3)]]
  ultimately show ?thesis using l m1(1) m2(1) m3(1,2) by simp
qed


lemma sib_right_panic: "leaf m = LEAF_node \<Longrightarrow> sib_right m node LEAF = panic NilDeref"
  by (simp add: sib_right_def)

lemma sib_right_rep:
  assumes r: "rep m (RFr s pa pc pk # fs) t" and t: "t \<noteq> Lf"
  shows "case sib_step_right s pa pc pk t of
      None \<Rightarrow> sib_right m (ptr_of t) (ptr_of s) = panic NilDeref
    | Some (go, u) \<Rightarrow> \<exists>m'. sib_right m (ptr_of t) (ptr_of s) = ret (m', if go then ptr_of u else root m')
        \<and> rep m' fs u \<and> same_outside (set (addrs (plug fs (Nd s pa pc pk t)))) m m'"
proof (cases s)
  case Lf
  then show ?thesis using sib_right_panic [of m "ptr_of t"] rep_leaf [OF r] by simp
next
  case (Nd sl b c j sr)
  have rs: "rep m (LFr pa pc pk t # fs) (Nd sl b c j sr)" using r Nd by (simp add: rep_up)
  have l: "ld m (Ref b) rightChild = ret (ptr_of sr)" "ld m (Ref b) leftChild = ret (ptr_of sl)"
    using rep_focus [OF rs] by simp_all
  have "rep m (RFr sl b c j # LFr pa pc pk t # fs) sr" "rep m (LFr b c j sr # LFr pa pc pk t # fs) sl"
    using rs by (simp_all add: rep_up)
  then have cl: "ld m (ptr_of sr) color = ret (cw (tcol sr))" "ld m (ptr_of sl) color = ret (cw (tcol sl))"
    by (blast intro: rep_color)+
  consider "tcol sr = Black" "tcol sl = Black" | "tcol sr = Red" "tcol sl = Black" | "tcol sl = Red"
    using not_Red by blast
  then show ?thesis
  proof cases
    case 1
    from set_color_rep [OF rs, of Red] obtain m1 where m1: "set_color m (Ref b) RED = ret m1"
      "rep m1 (LFr pa pc pk t # fs) (Nd sl b Red j sr)" "same_outside {b} m m1" unfolding cw.simps by blast
    then have "rep m1 (RFr (Nd sl b Red j sr) pa pc pk # fs) t" by (simp add: rep_up)
    from rep_node_parent(1) [OF this t] have "PARENT m1 (ptr_of t) = ret (Ref pa)" by simp
    moreover have "same_outside (set (addrs (plug fs (Nd s pa pc pk t)))) m m1"
      by (rule same_outside_mono [OF m1(3)]) (simp add: set_addrs_plug Nd)
    ultimately show ?thesis
      using 1 m1 l cl Nd by (simp add: sib_right_def rep_up)
  next
    case 2
    then obtain rr d i rl where sr: "sr = Nd rl d Red i rr" by (cases sr) auto
    from near_nephew_right [OF rs [unfolded sr]] obtain m1 where m1:
      "bnd (ld m (Ref b) rightChild) (\<lambda>tr.
       bnd (set_color m tr BLACK) (\<lambda>m.
       bnd (set_color m (Ref b) RED) (\<lambda>m.
       bnd (rotateToLeft m (Ref b)) (\<lambda>m.
       bnd (PARENT m (Ref b)) (\<lambda>tp.
       bnd (ld m tp leftChild) (\<lambda>temp. ret (m, temp))))))) = ret (m1, Ref b)"
      "rep m1 (LFr pa pc pk t # fs) (Nd (Nd sl b Red j rl) d Black i rr)"
      "same_outside (set (addrs (plug fs (Nd s pa pc pk t)))) m m1" unfolding Nd sr by blast
    have A: "set (addrs (plug ([LFr d Black i rr] @ LFr pa pc pk t # fs) (Nd sl b Red j rl)))
        = set (addrs (plug fs (Nd s pa pc pk t)))"
      by (auto simp: set_addrs_plug Nd sr)
    have "rep m1 ([LFr d Black i rr] @ LFr pa pc pk t # fs) (Nd sl b Red j rl)" using m1(2) by (simp add: rep_up)
    from finish_right [OF this t, of "Nd (paint Black sl) b pc j rl" d Black i rr] obtain m2 where m2:
      "bnd (PARENT m1 (ptr_of t)) (\<lambda>p.
       bnd (ld m1 p color) (\<lambda>pc.
       bnd (set_color m1 (Ref b) pc) (\<lambda>m.
       bnd (set_color m p BLACK) (\<lambda>m.
       bnd (ld m (Ref b) leftChild) (\<lambda>tl.
       bnd (set_color m tl BLACK) (\<lambda>m.
       bnd (rotateToRight m p) (\<lambda>m.
       ret (m, root m)))))))) = ret (m2, root m2)"
      "rep m2 fs (Nd (Nd (paint Black sl) b pc j rl) d Black i (Nd rr pa Black pk t))"
      "same_outside (set (addrs (plug fs (Nd s pa pc pk t)))) m1 m2" unfolding A by auto
    have "sib_right m (ptr_of t) (Ref b) = ret (m2, root m2)"
      using l cl 2 m1(1) m2(1) by (simp add: sib_right_def)
    with m2 same_outside_trans [OF m1(3) m2(3)] 2 sr Nd show ?thesis by (simp add: black_paint)
  next
    case 3
    have A: "set (addrs (plug ([] @ LFr pa pc pk t # fs) (Nd sl b c j sr))) = set (addrs (plug fs (Nd s pa pc pk t)))"
      by (simp add: Nd)
    have "rep m ([] @ LFr pa pc pk t # fs) (Nd sl b c j sr)" using rs by simp
    from finish_right [OF this t, of "paint Black sl" b pc j sr] obtain m2 where m2:
      "bnd (PARENT m (ptr_of t)) (\<lambda>p.
       bnd (ld m p color) (\<lambda>pc.
       bnd (set_color m (Ref b) pc) (\<lambda>m.
       bnd (set_color m p BLACK) (\<lambda>m.
       bnd (ld m (Ref b) leftChild) (\<lambda>tl.
       bnd (set_color m tl BLACK) (\<lambda>m.
       bnd (rotateToRight m p) (\<lambda>m.
       ret (m, root m)))))))) = ret (m2, root m2)"
      "rep m2 fs (Nd (paint Black sl) b pc j (Nd sr pa Black pk t))"
      "same_outside (set (addrs (plug fs (Nd s pa pc pk t)))) m m2" unfolding A by auto
    have "sib_right m (ptr_of t) (Ref b) = ret (m2, root m2)"
      using l cl 3 m2(1) by (simp add: sib_right_def)
    with m2 3 Nd show ?thesis by simp
  qed
qed

lemma fixDelete_right_black:
  assumes r: "rep m (RFr s pa pc pk # fs) t" and t: "t \<noteq> Lf" and s: "tcol s = Black"
  shows "fixDelete_right m (ptr_of t) = sib_right m (ptr_of t) (ptr_of s)"
proof -
  have "ld m (Ref pa) leftChild = ret (ptr_of s)" using rep_RFr_node [OF r] by simp
  moreover have "ld m (ptr_of s) color = ret BLACK"
    using rep_color [of m "LFr pa pc pk t # fs" s] r s by (simp add: rep_up)
  ultimately show ?thesis
    using rep_node_parent(1) [OF r t] by (simp add: fixDelete_right_sib)
qed

lemma fixDelete_right_red:
  assumes r: "rep m (RFr (Nd sl b Red j sr) pa pc pk # fs) t" and t: "t \<noteq> Lf"
  shows "\<exists>m'. fixDelete_right m (ptr_of t) = sib_right m' (ptr_of t) (ptr_of sr)
    \<and> rep m' (RFr sr pa Red pk # RFr sl b Black j # fs) t
    \<and> same_outside (set (addrs (plug fs (Nd (Nd sl b Red j sr) pa pc pk t)))) m m'"
proof -
  let ?A = "set (addrs (plug fs (Nd (Nd sl b Red j sr) pa pc pk t)))"
  have p: "PARENT m (ptr_of t) = ret (Ref pa)" using rep_node_parent(1) [OF r t] by simp
  have rc: "ld m (Ref pa) leftChild = ret (Ref b)" using rep_RFr_node [OF r] by simp
  have rs: "rep m (LFr pa pc pk t # fs) (Nd sl b Red j sr)" using r by (simp add: rep_up)
  have c: "ld m (Ref b) color = ret RED" using rep_focus [OF rs] by simp
  from set_color_rep [OF rs, of Black] obtain m1 where m1: "set_color m (Ref b) BLACK = ret m1"
    "rep m1 fs (Nd (Nd sl b Black j sr) pa pc pk t)" "same_outside {b} m m1"
    unfolding rep_LFr cw.simps by blast
  from set_color_rep [OF m1(2), of Red] obtain m2 where m2: "set_color m1 (Ref pa) RED = ret m2"
    "rep m2 fs (Nd (Nd sl b Black j sr) pa Red pk t)" "same_outside {pa} m1 m2" unfolding cw.simps by blast
  have A: "set (addrs (plug fs (Nd (Nd sl b Black j sr) pa Red pk t))) = ?A" by (simp add: set_addrs_plug)
  from rotateToRight_rep [OF m2(2)] obtain m3 where m3: "rotateToRight m2 (Ref pa) = ret m3"
    "rep m3 fs (Nd sl b Black j (Nd sr pa Red pk t))" "same_outside ?A m2 m3" unfolding A by blast
  then have r3: "rep m3 (RFr sr pa Red pk # RFr sl b Black j # fs) t" by (simp add: rep_up)
  have "PARENT m3 (ptr_of t) = ret (Ref pa)" using rep_node_parent(1) [OF r3 t] by simp
  moreover have "ld m3 (Ref pa) leftChild = ret (ptr_of sr)" using rep_RFr_node [OF r3] by simp
  moreover have "{b} \<subseteq> ?A" "{pa} \<subseteq> ?A" by (simp_all add: set_addrs_plug)
  note same_outside_step [OF m1(3) this(1) same_outside_step [OF m2(3) this(2) m3(3)]]
  ultimately show ?thesis
    using p rc c m1(1) m2(1) m3(1) r3 by (intro exI [of _ m3]) (simp add: fixDelete_right_sib)
qed


section \<open>The loop\<close>

lemma fixDelete_loop_root: "rep m [] t \<Longrightarrow> fixDelete_loop m (ptr_of t) = ret (m, ptr_of t)"
  by (subst fixDelete_loop.simps) (simp add: fixDelete_guard_def rep_def)

lemma fixDelete_loop_stop:
  assumes "rep m fs t" and "t = Lf \<or> tcol t = Red"
  shows "fixDelete_loop m (ptr_of t) = ret (m, ptr_of t)"
  using assms rep_color [OF assms(1)]
  by (subst fixDelete_loop.simps) (auto simp: fixDelete_guard_def)

lemma fixDelete_loop_step:
  assumes r: "rep m (f # fs) t" and t: "t \<noteq> Lf" "tcol t = Black"
  shows "fixDelete_loop m (ptr_of t) =
    bnd (case f of LFr a c k s \<Rightarrow> fixDelete_left m (ptr_of t) | RFr s a c k \<Rightarrow> fixDelete_right m (ptr_of t))
      (\<lambda>r. fixDelete_loop (fst r) (snd r))"
  using t rep_not_root [OF r t(1)] rep_color [OF r] rep_AM_I_LEFT [OF r t(1)]
  by (subst fixDelete_loop.simps) (cases f; simp add: fixDelete_guard_def fixDelete_body_def)


text \<open>One iteration: whether the loop goes on, and the zipper it leaves.\<close>

fun step_left :: "'k frames \<Rightarrow> 'k rbt \<Rightarrow> nat \<Rightarrow> colour \<Rightarrow> 'k \<Rightarrow> 'k rbt \<Rightarrow> (bool \<times> 'k frames \<times> 'k rbt) option" where
  "step_left fs t pa pc pk (Nd sl b Red j sr) =
     map_option (\<lambda>(go, u). (go, LFr b Black j sr # fs, u)) (sib_step_left t pa Red pk sl)"
| "step_left fs t pa pc pk s = map_option (\<lambda>(go, u). (go, fs, u)) (sib_step_left t pa pc pk s)"

fun step_right :: "'k frames \<Rightarrow> 'k rbt \<Rightarrow> nat \<Rightarrow> colour \<Rightarrow> 'k \<Rightarrow> 'k rbt \<Rightarrow> (bool \<times> 'k frames \<times> 'k rbt) option" where
  "step_right fs t pa pc pk (Nd sl b Red j sr) =
     map_option (\<lambda>(go, u). (go, RFr sl b Black j # fs, u)) (sib_step_right sr pa Red pk t)"
| "step_right fs t pa pc pk s = map_option (\<lambda>(go, u). (go, fs, u)) (sib_step_right s pa pc pk t)"

lemma step_not_red:
  "tcol s = Black \<Longrightarrow> step_left fs t pa pc pk s = map_option (\<lambda>(go, u). (go, fs, u)) (sib_step_left t pa pc pk s)"
  "tcol s = Black \<Longrightarrow> step_right fs t pa pc pk s = map_option (\<lambda>(go, u). (go, fs, u)) (sib_step_right s pa pc pk t)"
  by (cases "(fs, t, pa, pc, pk, s)" rule: step_left.cases; simp)
    (cases "(fs, t, pa, pc, pk, s)" rule: step_right.cases; simp)

definition step_rep :: "'k RBtree \<Rightarrow> nat set \<Rightarrow> ('k RBtree \<times> nptr) go \<Rightarrow> (bool \<times> 'k frames \<times> 'k rbt) option \<Rightarrow> bool" where
  "step_rep m A r x \<longleftrightarrow> (case x of None \<Rightarrow> r = panic NilDeref
     | Some (go, gs, u) \<Rightarrow> \<exists>m'. r = ret (m', if go then ptr_of u else root m') \<and> rep m' gs u \<and> same_outside A m m')"

lemma step_rep_trans:
  "same_outside A m m' \<Longrightarrow> step_rep m' A r x \<Longrightarrow> step_rep m A r x"
  by (auto simp: step_rep_def intro: same_outside_trans split: option.splits)

lemma fixDelete_left_step:
  assumes r: "rep m (LFr pa pc pk s # fs) t" and t: "t \<noteq> Lf"
  shows "step_rep m (set (addrs (plug (LFr pa pc pk s # fs) t))) (fixDelete_left m (ptr_of t)) (step_left fs t pa pc pk s)"
proof (cases "tcol s = Black")
  case True
  from sib_left_rep [OF r t] fixDelete_left_black [OF r t True] True show ?thesis
    by (auto simp: step_rep_def step_not_red split: option.splits)
next
  case False
  then obtain sl b j sr where s: "s = Nd sl b Red j sr" by (cases s) auto
  from fixDelete_left_red [OF r [unfolded s] t] obtain m' where m':
    "fixDelete_left m (ptr_of t) = sib_left m' (ptr_of t) (ptr_of sl)"
    "rep m' (LFr pa Red pk sl # LFr b Black j sr # fs) t"
    "same_outside (set (addrs (plug (LFr pa pc pk s # fs) t))) m m'" unfolding s by auto
  have A: "set (addrs (plug (LFr b Black j sr # fs) (Nd t pa Red pk sl))) = set (addrs (plug (LFr pa pc pk s # fs) t))"
    by (auto simp: set_addrs_plug s)
  from sib_left_rep [OF m'(2) t] show ?thesis
    unfolding A m'(1) by (intro step_rep_trans [OF m'(3)]) (auto simp: step_rep_def s split: option.splits)
qed

lemma fixDelete_right_step:
  assumes r: "rep m (RFr s pa pc pk # fs) t" and t: "t \<noteq> Lf"
  shows "step_rep m (set (addrs (plug (RFr s pa pc pk # fs) t))) (fixDelete_right m (ptr_of t)) (step_right fs t pa pc pk s)"
proof (cases "tcol s = Black")
  case True
  from sib_right_rep [OF r t] fixDelete_right_black [OF r t True] True show ?thesis
    by (auto simp: step_rep_def step_not_red split: option.splits)
next
  case False
  then obtain sl b j sr where s: "s = Nd sl b Red j sr" by (cases s) auto
  from fixDelete_right_red [OF r [unfolded s] t] obtain m' where m':
    "fixDelete_right m (ptr_of t) = sib_right m' (ptr_of t) (ptr_of sr)"
    "rep m' (RFr sr pa Red pk # RFr sl b Black j # fs) t"
    "same_outside (set (addrs (plug (RFr s pa pc pk # fs) t))) m m'" unfolding s by auto
  have A: "set (addrs (plug (RFr sl b Black j # fs) (Nd sr pa Red pk t))) = set (addrs (plug (RFr s pa pc pk # fs) t))"
    by (auto simp: set_addrs_plug s)
  from sib_right_rep [OF m'(2) t] show ?thesis
    unfolding A m'(1) by (intro step_rep_trans [OF m'(3)]) (auto simp: step_rep_def s split: option.splits)
qed

lemma fix_del_step:
  assumes "t \<noteq> Lf" "tcol t = Black"
  shows "fix_del (LFr pa pc pk s # fs) t =
      (case step_left fs t pa pc pk s of None \<Rightarrow> None
       | Some (go, gs, u) \<Rightarrow> if \<not> go then Some (paint Black (plug gs u))
           else if tcol s = Red then Some (plug gs (paint Black u)) else fix_del gs u)"
    and "fix_del (RFr s pa pc pk # fs) t =
      (case step_right fs t pa pc pk s of None \<Rightarrow> None
       | Some (go, gs, u) \<Rightarrow> if \<not> go then Some (paint Black (plug gs u))
           else if tcol s = Red then Some (plug gs (paint Black u)) else fix_del gs u)"
proof -
  show "fix_del (LFr pa pc pk s # fs) t =
      (case step_left fs t pa pc pk s of None \<Rightarrow> None
       | Some (go, gs, u) \<Rightarrow> if \<not> go then Some (paint Black (plug gs u))
           else if tcol s = Red then Some (plug gs (paint Black u)) else fix_del gs u)"
    using assms by (cases "(fs, t, pa, pc, pk, s)" rule: step_left.cases)
      (auto split: option.splits bool.splits)
  show "fix_del (RFr s pa pc pk # fs) t =
      (case step_right fs t pa pc pk s of None \<Rightarrow> None
       | Some (go, gs, u) \<Rightarrow> if \<not> go then Some (paint Black (plug gs u))
           else if tcol s = Red then Some (plug gs (paint Black u)) else fix_del gs u)"
    using assms by (cases "(fs, t, pa, pc, pk, s)" rule: step_right.cases)
      (auto split: option.splits bool.splits)
qed

text \<open>Where the loop goes on after a red sibling, the parent is red.\<close>

lemma step_go_red:
  "step_left fs t pa pc pk s = Some (True, gs, u) \<Longrightarrow> tcol s = Red \<Longrightarrow> tcol u = Red"
  "step_right fs t pa pc pk s = Some (True, gs, u) \<Longrightarrow> tcol s = Red \<Longrightarrow> tcol u = Red"
proof -
  have go: "sib_step_left t a c k s = Some (True, u) \<Longrightarrow> tcol u = c"
    "sib_step_right s a c k t = Some (True, u) \<Longrightarrow> tcol u = c" for t s u :: "'a rbt" and a c k
    by (cases s; auto split: if_split_asm rbt.splits)+
  show "step_left fs t pa pc pk s = Some (True, gs, u) \<Longrightarrow> tcol s = Red \<Longrightarrow> tcol u = Red"
    by (cases "(fs, t, pa, pc, pk, s)" rule: step_left.cases) (auto dest: go)
  show "step_right fs t pa pc pk s = Some (True, gs, u) \<Longrightarrow> tcol s = Red \<Longrightarrow> tcol u = Red"
    by (cases "(fs, t, pa, pc, pk, s)" rule: step_right.cases) (auto dest: go)
qed

lemma step_go_frames:
  "step_left fs t pa pc pk s = Some (True, gs, u) \<Longrightarrow> tcol s = Black \<Longrightarrow> gs = fs"
  "step_right fs t pa pc pk s = Some (True, gs, u) \<Longrightarrow> tcol s = Black \<Longrightarrow> gs = fs"
  by (auto simp: step_not_red)

lemma step_addrs:
  "step_left fs t pa pc pk s = Some (go, gs, u) \<Longrightarrow> set (addrs (plug gs u)) = set (addrs (plug fs (Nd t pa pc pk s)))"
  "step_right fs t pa pc pk s = Some (go, gs, u) \<Longrightarrow> set (addrs (plug gs u)) = set (addrs (plug fs (Nd s pa pc pk t)))"
proof -
  assume "step_left fs t pa pc pk s = Some (go, gs, u)"
  then have "nodes (plug gs u) = nodes (plug fs (Nd t pa pc pk s))"
    by (cases "(fs, t, pa, pc, pk, s)" rule: step_left.cases) (auto simp: nodes_plug_eq simp del: sib_step_left.simps dest: sib_step_nodes(1))
  then show "set (addrs (plug gs u)) = set (addrs (plug fs (Nd t pa pc pk s)))"
    by (metis set_map_fst_nodes)
next
  assume "step_right fs t pa pc pk s = Some (go, gs, u)"
  then have "nodes (plug gs u) = nodes (plug fs (Nd s pa pc pk t))"
    by (cases "(fs, t, pa, pc, pk, s)" rule: step_right.cases) (auto simp: nodes_plug_eq simp del: sib_step_right.simps dest: sib_step_nodes(2))
  then show "set (addrs (plug gs u)) = set (addrs (plug fs (Nd s pa pc pk t)))"
    by (metis set_map_fst_nodes)
qed

definition loop_rep :: "'k RBtree \<Rightarrow> nat set \<Rightarrow> ('k RBtree \<times> nptr) go \<Rightarrow> 'k rbt option \<Rightarrow> bool" where
  "loop_rep m A r x \<longleftrightarrow> (case x of None \<Rightarrow> r = panic NilDeref
     | Some u \<Rightarrow> \<exists>m' gs v. r = ret (m', ptr_of v) \<and> rep m' gs v \<and> plug gs (paint Black v) = u \<and> same_outside A m m')"

lemma loop_rep_step:
  assumes s: "step_rep m A r x"
    and go: "\<And>m' gs u. x = Some (True, gs, u) \<Longrightarrow> rep m' gs u \<Longrightarrow> same_outside A m m' \<Longrightarrow>
      loop_rep m' A (fixDelete_loop m' (ptr_of u)) (y gs u)"
  shows "loop_rep m A (bnd r (\<lambda>r. fixDelete_loop (fst r) (snd r)))
    (case x of None \<Rightarrow> None | Some (go, gs, u) \<Rightarrow> if \<not> go then Some (paint Black (plug gs u)) else y gs u)"
proof (cases x)
  case None
  with s show ?thesis by (simp add: step_rep_def loop_rep_def)
next
  case (Some z)
  obtain b gs u where z: "z = (b, gs, u)" by (cases z)
  with s Some obtain m' where m': "r = ret (m', if b then ptr_of u else root m')" "rep m' gs u" "same_outside A m m'"
    by (auto simp: step_rep_def)
  show ?thesis
  proof (cases b)
    case True
    with go m' Some z have "loop_rep m' A (fixDelete_loop m' (ptr_of u)) (y gs u)" by simp
    with m' Some z True show ?thesis
      by (auto simp: loop_rep_def intro: same_outside_trans split: option.splits)
  next
    case False
    have "rep m' [] (plug gs u)" using m'(2) by (simp add: rep_plug)
    with fixDelete_loop_root [OF this] rep_root [OF m'(2)] m' False Some z show ?thesis
      by (fastforce simp: loop_rep_def)
  qed
qed

lemma loop_rep_stop:
  "rep m gs u \<Longrightarrow> u = Lf \<or> tcol u = Red \<Longrightarrow>
   loop_rep m A (fixDelete_loop m (ptr_of u)) (Some (plug gs (paint Black u)))"
  using fixDelete_loop_stop [of m gs u] by (auto simp: loop_rep_def)

theorem fixDelete_loop_rep:
  "rep m fs t \<Longrightarrow> set (addrs (plug fs t)) \<subseteq> A \<Longrightarrow> loop_rep m A (fixDelete_loop m (ptr_of t)) (fix_del fs t)"
proof (induction "length fs" arbitrary: fs t m rule: less_induct)
  case less
  note r = less.prems(1)
  consider "fs = []" | f gs where "fs = f # gs" "t = Lf \<or> tcol t = Red"
    | f gs where "fs = f # gs" "t \<noteq> Lf" "tcol t = Black"
    by (cases fs; cases "tcol t") auto
  then show ?case
  proof cases
    case 1
    with fixDelete_loop_root [of m t] r show ?thesis
      by (auto simp: loop_rep_def intro!: exI [of _ "[]"] exI [of _ t])
  next
    case 2
    have "fix_del fs t = Some (plug fs (paint Black t))" using 2 by (cases f) auto
    with loop_rep_stop [OF r 2(2)] show ?thesis by simp
  next
    case 3
    let ?y = "\<lambda>s hs u. if tcol s = Red then Some (plug hs (paint Black u)) else fix_del hs u"
    have sub: "set (addrs (plug gs (fill f t))) \<subseteq> A" using less.prems(2) 3(1) by simp
    show ?thesis
    proof (cases f)
      case (LFr pa pc pk s)
      have st: "step_rep m A (fixDelete_left m (ptr_of t)) (step_left gs t pa pc pk s)"
        using fixDelete_left_step [of m pa pc pk s gs t] r 3 LFr sub
        by (auto simp: step_rep_def intro: same_outside_mono split: option.splits)
      show ?thesis
        unfolding 3(1) LFr fixDelete_loop_step [OF r [unfolded 3(1) LFr] 3(2,3)] fix_del_step(1) [OF 3(2,3)]
          frame.case
      proof (rule loop_rep_step [OF st, of "?y s"])
        fix m' hs u
        assume h: "step_left gs t pa pc pk s = Some (True, hs, u)" "rep m' hs u" "same_outside A m m'"
        show "loop_rep m' A (fixDelete_loop m' (ptr_of u)) (?y s hs u)"
        proof (cases "tcol s = Red")
          case True
          with loop_rep_stop [OF h(2)] step_go_red(1) [OF h(1) True] show ?thesis by simp
        next
          case False
          then have "hs = gs" using step_go_frames(1) [OF h(1)] by simp
          moreover have "set (addrs (plug hs u)) \<subseteq> A" using step_addrs(1) [OF h(1)] sub LFr by simp
          ultimately show ?thesis using less.hyps [OF _ h(2)] 3(1) False by simp
        qed
      qed
    next
      case (RFr s pa pc pk)
      have st: "step_rep m A (fixDelete_right m (ptr_of t)) (step_right gs t pa pc pk s)"
        using fixDelete_right_step [of m s pa pc pk gs t] r 3 RFr sub
        by (auto simp: step_rep_def intro: same_outside_mono split: option.splits)
      show ?thesis
        unfolding 3(1) RFr fixDelete_loop_step [OF r [unfolded 3(1) RFr] 3(2,3)] fix_del_step(2) [OF 3(2,3)]
          frame.case
      proof (rule loop_rep_step [OF st, of "?y s"])
        fix m' hs u
        assume h: "step_right gs t pa pc pk s = Some (True, hs, u)" "rep m' hs u" "same_outside A m m'"
        show "loop_rep m' A (fixDelete_loop m' (ptr_of u)) (?y s hs u)"
        proof (cases "tcol s = Red")
          case True
          with loop_rep_stop [OF h(2)] step_go_red(2) [OF h(1) True] show ?thesis by simp
        next
          case False
          then have "hs = gs" using step_go_frames(2) [OF h(1)] by simp
          moreover have "set (addrs (plug hs u)) \<subseteq> A" using step_addrs(2) [OF h(1)] sub RFr by simp
          ultimately show ?thesis using less.hyps [OF _ h(2)] 3(1) False by simp
        qed
      qed
    qed
  qed
qed


theorem fixDeleteCollisions_rep:
  assumes r: "rep m fs t"
  shows "case fix_del fs t of
      None \<Rightarrow> fixDeleteCollisions m (ptr_of t) = panic NilDeref
    | Some u \<Rightarrow> \<exists>m'. fixDeleteCollisions m (ptr_of t) = ret m' \<and> is_tree m' u
        \<and> same_outside (set (addrs (plug fs t))) m m'"
proof (cases "fix_del fs t")
  case None
  with fixDelete_loop_rep [OF r order_refl] show ?thesis
    by (simp add: loop_rep_def fixDeleteCollisions_def)
next
  case (Some u)
  let ?A = "set (addrs (plug fs t))"
  from fixDelete_loop_rep [OF r order_refl] Some obtain m1 gs v where
    m1: "fixDelete_loop m (ptr_of t) = ret (m1, ptr_of v)" "rep m1 gs v" "plug gs (paint Black v) = u"
      "same_outside ?A m m1" by (auto simp: loop_rep_def)
  have "nodes u = nodes (plug gs v)" using m1(3) by (auto simp: nodes_plug_eq)
  then have sub: "set (addrs v) \<subseteq> ?A"
    using fix_del_nodes [OF Some] set_map_fst_nodes [of u] set_map_fst_nodes [of "plug fs t"]
      set_map_fst_nodes [of "plug gs v"] by (auto simp: set_addrs_plug)
  show ?thesis
  proof (cases "v = Lf")
    case True
    with m1 Some set_color_LEAF [OF rep_leaf [OF m1(2)]] show ?thesis
      by (auto simp: fixDeleteCollisions_def rep_plug)
  next
    case False
    from set_color_paint [OF m1(2) False, of Black] obtain m2 where
      m2: "set_color m1 (ptr_of v) BLACK = ret m2" "rep m2 gs (paint Black v)" "same_outside (set (addrs v)) m1 m2"
      by auto
    have "same_outside ?A m m2" by (rule same_outside_trans [OF m1(4) same_outside_mono [OF m2(3) sub]])
    with m1 m2 Some show ?thesis by (simp add: fixDeleteCollisions_def rep_plug)
  qed
qed

end
