(* ===== verification/RB_Delete_Any.thy ===== *)
theory RB_Delete_Any
  imports RB_Repair
begin

text \<open>
  \<open>Delete\<close> on every ordered tree, balanced or not, as a function on trees: \<open>del_any ord k t\<close> is the tree it
  leaves, or \<open>None\<close> where its repair loop dereferences a nil child of the sentinel.
\<close>

section \<open>The nodes that stay\<close>

lemma nleft_min_zip: "t \<noteq> Lf \<Longrightarrow> nleft (fst (min_zip fs t)) = nleft fs"
  by (induction fs t rule: min_zip.induct) auto

lemma distinct_fst_nodes: "distinct (map fst (nodes t)) \<longleftrightarrow> distinct (addrs t)"
proof (induction t)
  case Lf
  show ?case by simp
next
  case (Nd l a c k r)
  then show ?case using set_map_fst_nodes [of l] set_map_fst_nodes [of r] by auto
qed

lemma gap_nodes:
  assumes "gap fs (Nd l a c k r) = (gs, d, u)"
  shows "nodes (plug gs u) = nleft fs @ nodes l @ nodes r @ nright fs"
proof (cases "l = Lf \<or> r = Lf")
  case True
  with assms show ?thesis by (auto simp: nodes_plug_eq split: if_split_asm)
next
  case False
  then obtain ms b e j br where mz: "min_zip [] r = (ms, Nd Lf b e j br)" "r = plug ms (Nd Lf b e j br)"
    using min_zip_Nd by metis
  have False': "r \<noteq> Lf" using False by simp
  have "nleft ms = []"
    using mz(1) nleft_min_zip [OF False', of "[]"] by simp
  with assms False mz show ?thesis by (auto simp: nodes_plug_eq nleft_append)
qed

section \<open>Deletion as a function on trees\<close>

definition del_gap :: "'k frames \<times> colour \<times> 'k rbt \<Rightarrow> 'k rbt option" where
  "del_gap g = (case g of (gs, d, u) \<Rightarrow> if d = Black then fix_del gs u else Some (plug gs u))"

definition del_any :: "('k \<Rightarrow> 'k \<Rightarrow> int) \<Rightarrow> 'k \<Rightarrow> 'k rbt \<Rightarrow> 'k rbt option" where
  "del_any ord k t = (case find_zip ord k [] t of None \<Rightarrow> Some t | Some (fs, u) \<Rightarrow> del_gap (gap fs u))"

lemma del_gap_nodes: "del_gap (gs, d, u) = Some t \<Longrightarrow> nodes t = nodes (plug gs u)"
  by (auto simp: del_gap_def fix_del_nodes split: if_split_asm)

lemma delete_focus_exact:
  assumes r: "rep m fs (Nd l a c k r)" and g: "gap fs (Nd l a c k r) = (gs, d, u)"
  shows "bnd (deleteCheckSwitch m (Ref a)) (\<lambda>(nodeColor, temp, m).
         bnd (if nodeColor = BLACK then fixDeleteCollisions m temp else ret m) (\<lambda>m.
         bnd (RBNodeFree m (Ref a)) (\<lambda>m. ret (Some k, m)))) = run \<Longrightarrow>
    (case del_gap (gs, d, u) of None \<Rightarrow> run = panic NilDeref
     | Some t \<Rightarrow> \<exists>m'. run = ret (Some k, m') \<and> is_tree m' t \<and> freed m' = freed m @ [Some a])"
    (is "?run = run \<Longrightarrow> _")
proof -
  assume run: "?run = run"
  from deleteCheckSwitch_rep [OF r g] obtain m1 n where
    m1: "deleteCheckSwitch m (Ref a) = ret (cw d, ptr_of u, m1)" "rep m1 gs u"
      "heap m1 a = Some n" "addr n = Some a" "freed m1 = freed m"
    by (auto simp: same_outside_def)
  have "a \<notin> set (addrs (plug gs u))"
  proof -
    have "distinct (addrs (plug fs (Nd l a c k r)))" by (rule distinct_addrs_plug [OF r])
    then have "distinct (map fst (nodes (plug fs (Nd l a c k r))))" by (simp add: distinct_fst_nodes)
    then have "a \<notin> fst ` set (nleft fs @ nodes l @ nodes r @ nright fs)" by (auto simp: nodes_plug_eq)
    then have "a \<notin> fst ` set (nodes (plug gs u))" by (simp only: gap_nodes [OF g] not_False_eq_True)
    then show ?thesis by (simp only: set_map_fst_nodes not_False_eq_True)
  qed
  note a = this
  have free: "bnd (RBNodeFree m2 (Ref a)) (\<lambda>m. ret (Some k, m)) = ret (Some k, m2\<lparr>freed := freed m2 @ [Some a]\<rparr>)"
    if "heap m2 a = heap m1 a" for m2
    using that m1(3,4) by (simp add: RBNodeFree_def)
  have tree: "is_tree (m2\<lparr>freed := f\<rparr>) t" if "is_tree m2 t" for m2 :: "'a RBtree" and t f
    using that by (simp add: is_tree_iff)
  show ?thesis
  proof (cases d)
    case Red
    then have "?run = ret (Some k, m1\<lparr>freed := freed m1 @ [Some a]\<rparr>)" using m1(1) free by simp
    moreover have "is_tree m1 (plug gs u)" using m1(2) by (simp add: rep_plug)
    ultimately show ?thesis using tree m1(5) Red run by (fastforce simp: del_gap_def)
  next
    case Black
    show ?thesis
    proof (cases "fix_del gs u")
      case None
      with fixDeleteCollisions_rep [OF m1(2)] Black m1(1) run show ?thesis by (simp add: del_gap_def)
    next
      case (Some t)
      with fixDeleteCollisions_rep [OF m1(2)] obtain m2 where m2:
        "fixDeleteCollisions m1 (ptr_of u) = ret m2" "is_tree m2 t"
        "same_outside (set (addrs (plug gs u))) m1 m2" by auto
      then have "?run = ret (Some k, m2\<lparr>freed := freed m2 @ [Some a]\<rparr>)"
        using m1(1) Black free [of m2] a by (simp add: same_outside_def)
      moreover have "freed m2 = freed m" using m2(3) m1(5) by (simp add: same_outside_def)
      ultimately show ?thesis using tree [OF m2(2)] Some Black run by (fastforce simp: del_gap_def)
    qed
  qed
qed

context comparator
begin

text \<open>Whatever the colours are, \<open>Delete\<close> of a stored key does what \<open>del_any\<close> says.\<close>

theorem Delete_exact:
  assumes t: "is_tree m t" and srt: "sorted_by ord (inorder t)" and k: "key_in ord k (inorder t) = Some x"
  shows "case del_any ord k t of None \<Rightarrow> Delete Compare (Some k) m = panic NilDeref
    | Some t' \<Rightarrow> \<exists>m' a. Delete Compare (Some k) m = ret (Some x, m') \<and> is_tree m' t'
      \<and> inorder t' = del_list ord k (inorder t) \<and> (a, x) \<in> set (nodes t)
      \<and> set (addrs t') = set (addrs t) - {a} \<and> freed m' = freed m @ [Some a]"
proof -
  have "find_ptr ord k t \<noteq> NilP" using find_ptr_NilP [OF srt, of k] k by simp
  then obtain fs u where z: "find_zip ord k [] t = Some (fs, u)"
    using find_zip_None [of ord k "[]" t] by (cases "find_zip ord k [] t") auto
  then obtain l a c y r where u: "u = Nd l a c y r" "ord y k = 0" "find_ptr ord k t = Ref a"
      "plug fs u = t" using find_zip_Some [OF z] by auto
  have "key_in ord k (inorder t) = Some y"
    using u srt key_in_unique [of "fleft fs @ inorder l" y "inorder r @ fright fs" k]
    by (auto simp: inorder_plug)
  with k have y: "y = x" by simp
  have r: "rep m fs (Nd l a c x r)" using t u y by (simp add: rep_plug)
  obtain gs d v where g: "gap fs (Nd l a c x r) = (gs, d, v)" by (cases "gap fs (Nd l a c x r)") auto
  have e: "del_any ord k t = del_gap (gs, d, v)" using z u(1) y g by (simp add: del_any_def)
  have run: "bnd (deleteCheckSwitch m (Ref a)) (\<lambda>(nodeColor, temp, m).
         bnd (if nodeColor = BLACK then fixDeleteCollisions m temp else ret m) (\<lambda>m.
         bnd (RBNodeFree m (Ref a)) (\<lambda>m. ret (Some x, m)))) = Delete Compare (Some k) m"
    using FindNode_tree [OF t, of k] u(3) rep_focus [OF r] by (simp add: Delete_def)
  show ?thesis
  proof (cases "del_gap (gs, d, v)")
    case None
    with delete_focus_exact [OF r g run] e show ?thesis by simp
  next
    case (Some t')
    with delete_focus_exact [OF r g run] obtain m' where m': "Delete Compare (Some k) m = ret (Some x, m')"
      "is_tree m' t'" "freed m' = freed m @ [Some a]" by auto
    have n: "nodes t = nleft fs @ nodes l @ (a, x) # nodes r @ nright fs"
      using u y by (auto simp: nodes_plug_eq)
    have n': "nodes t' = nleft fs @ nodes l @ nodes r @ nright fs"
      using del_gap_nodes [OF Some] gap_nodes [OF g] by simp
    have "inorder t' = inorder (del_tree ord k t)"
    proof -
      have "inorder t' = inorder (plug gs v)" using del_gap_nodes [OF Some] by (metis map_snd_nodes)
      also have "\<dots> = inorder (del_at fs (Nd l a c x r))" by (simp only: inorder_gap [OF g] inorder_del_at)
      finally show ?thesis using z u(1) y by (simp add: del_tree_def)
    qed
    moreover have "set (addrs t') = set (addrs t) - {a}"
    proof -
      have "distinct (map fst (nodes t))" using t by (simp add: is_tree_iff distinct_fst_nodes)
      then show ?thesis using n n' set_map_fst_nodes [of t] set_map_fst_nodes [of t'] by auto
    qed
    ultimately show ?thesis
      using m' n inorder_del_tree [OF srt, of k] e Some by auto
  qed
qed

text \<open>A key that is not stored changes nothing, in the store and on trees.\<close>

lemma del_any_absent: "sorted_by ord (inorder t) \<Longrightarrow> key_in ord k (inorder t) = None \<Longrightarrow> del_any ord k t = Some t"
  using find_ptr_NilP [of t k] find_zip_Some [of ord k "[]" t]
  by (cases "find_zip ord k [] t") (auto simp: del_any_def)

end

end
