(* ===== verification/RB_Dict.thy ===== *)
theory RB_Dict
  imports RB_Walk
begin

text \<open>
  The interface a client of the tree relies on, as a locale: what lookup and insertion answer and
  what they keep, over an ascending list of keys and the set of pool chunks in use. Sequences of
  operations are handled once, in the locale; the red-black tree provides it for every comparison
  function that keeps the contract of \<open>CompareFunc\<close>.
\<close>

section \<open>Sequences of operations\<close>

datatype 'k op = OpInsert nat 'k | OpFind 'k | OpDelete 'k

datatype 'k answer = Inserted "'k reply" | Found "'k option" | Deleted "'k option"

fun run_op ::
  "(nat \<Rightarrow> 'k item \<Rightarrow> 's \<Rightarrow> ('k reply \<times> 's) go) \<Rightarrow> ('s \<Rightarrow> 'k item \<Rightarrow> 'k item go)
   \<Rightarrow> ('k item \<Rightarrow> 's \<Rightarrow> ('k item \<times> 's) go) \<Rightarrow> 'k op \<Rightarrow> 's \<Rightarrow> ('k answer \<times> 's) go" where
  "run_op ins fnd del (OpInsert a k) s = bnd (ins a (Some k) s) (\<lambda>(r, s). ret (Inserted r, s))"
| "run_op ins fnd del (OpFind k) s = bnd (fnd s (Some k)) (\<lambda>r. ret (Found r, s))"
| "run_op ins fnd del (OpDelete k) s = bnd (del (Some k) s) (\<lambda>(r, s). ret (Deleted r, s))"

fun run_ops ::
  "(nat \<Rightarrow> 'k item \<Rightarrow> 's \<Rightarrow> ('k reply \<times> 's) go) \<Rightarrow> ('s \<Rightarrow> 'k item \<Rightarrow> 'k item go)
   \<Rightarrow> ('k item \<Rightarrow> 's \<Rightarrow> ('k item \<times> 's) go) \<Rightarrow> 'k op list \<Rightarrow> 's \<Rightarrow> ('k answer list \<times> 's) go" where
  "run_ops ins fnd del [] s = ret ([], s)"
| "run_ops ins fnd del (x # xs) s =
     bnd (run_op ins fnd del x s) (\<lambda>(r, s).
     bnd (run_ops ins fnd del xs s) (\<lambda>(rs, s). ret (r # rs, s)))"

lemma run_ops_append:
  "run_ops ins fnd del (xs @ ys) s =
     bnd (run_ops ins fnd del xs s) (\<lambda>(r, s).
     bnd (run_ops ins fnd del ys s) (\<lambda>(r', s). ret (r @ r', s)))"
  by (induction xs arbitrary: s) (simp_all add: bnd_assoc case_prod_unfold)

text \<open>The same operations on an ascending list of keys.\<close>

fun spec_op :: "('k \<Rightarrow> 'k \<Rightarrow> int) \<Rightarrow> 'k op \<Rightarrow> 'k list \<Rightarrow> 'k answer \<times> 'k list" where
  "spec_op ord (OpInsert a k) xs =
     (case key_in ord k xs of
        Some x \<Rightarrow> (Inserted (ReplyKey x), xs)
      | None \<Rightarrow> (Inserted ReplyNil, ins_list ord k xs))"
| "spec_op ord (OpFind k) xs = (Found (key_in ord k xs), xs)"
| "spec_op ord (OpDelete k) xs = (Deleted (key_in ord k xs), del_list ord k xs)"

fun spec_ops :: "('k \<Rightarrow> 'k \<Rightarrow> int) \<Rightarrow> 'k op list \<Rightarrow> 'k list \<Rightarrow> 'k answer list \<times> 'k list" where
  "spec_ops ord [] xs = ([], xs)"
| "spec_ops ord (x # os) xs =
     (let (r, xs) = spec_op ord x xs; (rs, xs) = spec_ops ord os xs in (r # rs, xs))"

text \<open>Pool discipline: every insertion gets a chunk that is not in use.\<close>

fun chunks :: "'k op list \<Rightarrow> nat list" where
  "chunks [] = []"
| "chunks (OpInsert a k # os) = a # chunks os"
| "chunks (OpFind k # os) = chunks os"
| "chunks (OpDelete k # os) = chunks os"

fun no_delete :: "'k op list \<Rightarrow> bool" where
  "no_delete [] = True"
| "no_delete (OpDelete k # os) = False"
| "no_delete (_ # os) = no_delete os"

section \<open>The contract\<close>

locale ordered_dict =
  fixes inv :: "'s \<Rightarrow> 'k list \<Rightarrow> nat set \<Rightarrow> bool"
    and ord :: "'k \<Rightarrow> 'k \<Rightarrow> int"
    and ins :: "nat \<Rightarrow> 'k item \<Rightarrow> 's \<Rightarrow> ('k reply \<times> 's) go"
    and fnd :: "'s \<Rightarrow> 'k item \<Rightarrow> 'k item go"
  assumes lookup: "inv s xs A \<Longrightarrow> fnd s (Some k) = ret (key_in ord k xs)"
    and insert_old: "inv s xs A \<Longrightarrow> key_in ord k xs = Some x \<Longrightarrow>
      ins a (Some k) s = ret (ReplyKey x, s)"
    and insert_new: "inv s xs A \<Longrightarrow> key_in ord k xs = None \<Longrightarrow> a \<notin> A \<Longrightarrow>
      \<exists>s'. ins a (Some k) s = ret (ReplyNil, s') \<and> inv s' (ins_list ord k xs) (insert a A)"
begin

lemma run_refines:
  "inv s xs A \<Longrightarrow> no_delete os \<Longrightarrow> distinct (chunks os) \<Longrightarrow> set (chunks os) \<inter> A = {} \<Longrightarrow>
   \<exists>s' A'. run_ops ins fnd del os s = ret (fst (spec_ops ord os xs), s')
     \<and> inv s' (snd (spec_ops ord os xs)) A' \<and> A' \<subseteq> A \<union> set (chunks os)"
proof (induction os arbitrary: s xs A rule: no_delete.induct [case_names 1 2 3 4])
  case 1
  then show ?case by auto
next
  case (2 k os)
  then show ?case by simp
next
  case (3 a k os)
  show ?case
  proof (cases "key_in ord k xs")
    case (Some x)
    with insert_old [OF "3.prems"(1) Some] "3.IH" [OF "3.prems"(1)] "3.prems"(2-4) show ?thesis
      by (fastforce simp: case_prod_beta)
  next
    case None
    from "3.prems"(4) have "a \<notin> A" by simp
    from insert_new [OF "3.prems"(1) None this] obtain s1 where
      s1: "ins a (Some k) s = ret (ReplyNil, s1)" "inv s1 (ins_list ord k xs) (insert a A)" by blast
    with "3.IH" [OF s1(2)] "3.prems"(2-4) None show ?thesis
      by (fastforce simp: case_prod_beta)
  qed
next
  case (4 k os)
  with lookup [OF "4.prems"(1)] "4.IH" [OF "4.prems"(1)] show ?case
    by (fastforce simp: case_prod_beta)
qed

end

section \<open>The red-black tree provides it\<close>

definition rb_inv :: "('k \<Rightarrow> 'k \<Rightarrow> int) \<Rightarrow> 'k RBtree \<Rightarrow> 'k list \<Rightarrow> nat set \<Rightarrow> bool" where
  "rb_inv ord m xs A \<longleftrightarrow>
     (\<exists>t. is_tree m t \<and> rb t \<and> inorder t = xs \<and> sorted_by ord xs \<and> set (addrs t) = A)"

lemma addrs_ins_tree: "set (addrs (ins_tree ord a k t)) = insert a (set (addrs t))"
  by (simp add: ins_tree_def addrs_fixI set_addrs_plug set_addrs_ins_frames)

lemma rb_inv_InitTree: "leaf m = LEAF_node \<Longrightarrow> rb_inv ord (InitTree m) [] {}"
  by (auto simp: rb_inv_def InitTree_def is_tree_iff rb_def intro!: exI [of _ Lf])

sublocale comparator \<subseteq> dict: ordered_dict "rb_inv ord" ord "Insert Compare" "FindKey Compare"
proof unfold_locales
  fix s xs A k
  assume "rb_inv ord s xs A"
  then show "FindKey Compare s (Some k) = ret (key_in ord k xs)"
    by (auto simp: rb_inv_def FindKey_tree)
next
  fix s xs A k x a
  assume "rb_inv ord s xs A" "key_in ord k xs = Some x"
  then show "Insert Compare a (Some k) s = ret (ReplyKey x, s)"
    by (auto simp: rb_inv_def Insert_present)
next
  fix s xs A k a
  assume "rb_inv ord s xs A" and k: "key_in ord k xs = None" and "a \<notin> A"
  then obtain t where t: "is_tree s t" "rb t" "inorder t = xs" "sorted_by ord xs" "set (addrs t) = A"
    by (auto simp: rb_inv_def)
  with k \<open>a \<notin> A\<close> obtain s' where
    s': "Insert Compare a (Some k) s = ret (ReplyNil, s')" "is_tree s' (ins_tree ord a k t)"
    using Insert_absent [of s t k a] by auto
  have "rb_inv ord s' (ins_list ord k xs) (insert a A)"
    using s'(2) t k by (auto simp: rb_inv_def rb_ins_tree inorder_ins_tree sorted_ins_list addrs_ins_tree
        intro!: exI [of _ "ins_tree ord a k t"])
  with s'(1) show "\<exists>s'. Insert Compare a (Some k) s = ret (ReplyNil, s')
      \<and> rb_inv ord s' (ins_list ord k xs) (insert a A)" by blast
qed

context comparator
begin

text \<open>What the interface gives the tree: a run of insertions and lookups from the empty tree.\<close>

lemma run_from_InitTree:
  assumes "leaf m = LEAF_node" and "no_delete os" and "distinct (chunks os)"
  shows "\<exists>m' t. run_ops (Insert Compare) (FindKey Compare) del os (InitTree m)
      = ret (fst (spec_ops ord os []), m')
    \<and> is_tree m' t \<and> rb t \<and> inorder t = snd (spec_ops ord os []) \<and> sorted_by ord (inorder t)"
proof -
  have "set (chunks os) \<inter> {} = {}" by simp
  from dict.run_refines [OF rb_inv_InitTree [OF assms(1)] assms(2,3) this]
  show ?thesis by (fastforce simp: rb_inv_def)
qed

end

end
