(* ===== verification/RB_Runs.thy ===== *)
theory RB_Runs
  imports RB_Delete_Any RB_Dict
begin

text \<open>
  Runs of all operations, deletions included. The locale \<open>op_refinement\<close> relates a store to an abstract state whose
  operations may be undefined, where the store's panic: operations related one by one give related runs, with
  the answers of an ascending list. The tree provides it: a store refines the functional tree it holds.
\<close>

section \<open>Pool discipline\<close>

text \<open>The chunks in use after an operation: an insertion that returns \<open>nil\<close> takes its chunk, a deletion
  gives back the chunks the record of freed chunks grew by. The pool may hand out a chunk again once
  it was given back.\<close>

fun fresh_for :: "'k op \<Rightarrow> nat set \<Rightarrow> bool" where
  "fresh_for (OpInsert a k) A \<longleftrightarrow> a \<notin> A"
| "fresh_for x A \<longleftrightarrow> True"

fun in_use :: "('s \<Rightarrow> nat option list) \<Rightarrow> 'k op \<Rightarrow> 'k answer \<Rightarrow> 's \<Rightarrow> 's \<Rightarrow> nat set \<Rightarrow> nat set" where
  "in_use gb (OpInsert a k) r s s' A = (case r of Inserted ReplyNil \<Rightarrow> insert a A | _ \<Rightarrow> A)"
| "in_use gb (OpFind k) r s s' A = A"
| "in_use gb (OpDelete k) r s s' A = A - set (List.map_filter id (drop (length (gb s)) (gb s')))"

fun pool_ok ::
  "(nat \<Rightarrow> 'k item \<Rightarrow> 's \<Rightarrow> ('k reply \<times> 's) go) \<Rightarrow> ('s \<Rightarrow> 'k item \<Rightarrow> 'k item go)
   \<Rightarrow> ('k item \<Rightarrow> 's \<Rightarrow> ('k item \<times> 's) go) \<Rightarrow> ('s \<Rightarrow> nat option list) \<Rightarrow> 'k op list \<Rightarrow> nat set \<Rightarrow> 's \<Rightarrow> bool" where
  "pool_ok ins fnd del gb [] A s = True"
| "pool_ok ins fnd del gb (x # os) A s =
     (fresh_for x A \<and> (case result_of (run_op ins fnd del x s) of None \<Rightarrow> True
       | Some rs \<Rightarrow> pool_ok ins fnd del gb os (in_use gb x (fst rs) s (snd rs) A) (snd rs)))"

section \<open>Refinement of runs\<close>

fun abs_run :: "('k op \<Rightarrow> 't \<Rightarrow> ('k answer \<times> 't) option) \<Rightarrow> 'k op list \<Rightarrow> 't \<Rightarrow> ('k answer list \<times> 't) option" where
  "abs_run step [] t = Some ([], t)"
| "abs_run step (x # os) t =
     (case step x t of None \<Rightarrow> None
      | Some (r, u) \<Rightarrow> map_option (\<lambda>(rs, u). (r # rs, u)) (abs_run step os u))"

text \<open>Every insertion gets a chunk the abstract state does not use.\<close>

fun abs_fresh :: "('k op \<Rightarrow> 't \<Rightarrow> ('k answer \<times> 't) option) \<Rightarrow> ('t \<Rightarrow> nat set) \<Rightarrow> 'k op list \<Rightarrow> 't \<Rightarrow> bool" where
  "abs_fresh step used [] t = True"
| "abs_fresh step used (x # os) t =
     (fresh_for x (used t) \<and> (case step x t of None \<Rightarrow> True | Some (r, u) \<Rightarrow> abs_fresh step used os u))"

locale op_refinement =
  fixes rel :: "'s \<Rightarrow> 't \<Rightarrow> bool" and keys :: "'t \<Rightarrow> 'k list" and used :: "'t \<Rightarrow> nat set"
    and step :: "'k op \<Rightarrow> 't \<Rightarrow> ('k answer \<times> 't) option"
    and ord :: "'k \<Rightarrow> 'k \<Rightarrow> int"
    and ins :: "nat \<Rightarrow> 'k item \<Rightarrow> 's \<Rightarrow> ('k reply \<times> 's) go"
    and fnd :: "'s \<Rightarrow> 'k item \<Rightarrow> 'k item go"
    and del :: "'k item \<Rightarrow> 's \<Rightarrow> ('k item \<times> 's) go" and given_back :: "'s \<Rightarrow> nat option list"
  assumes undefined_panics: "rel s t \<Longrightarrow> fresh_for x (used t) \<Longrightarrow> step x t = None \<Longrightarrow>
      run_op ins fnd del x s = panic NilDeref"
    and defined_returns: "rel s t \<Longrightarrow> fresh_for x (used t) \<Longrightarrow> step x t = Some (r, u) \<Longrightarrow>
      \<exists>s'. run_op ins fnd del x s = ret (r, s') \<and> rel s' u \<and> used u = in_use given_back x r s s' (used t)"
    and on_keys: "rel s t \<Longrightarrow> fresh_for x (used t) \<Longrightarrow> step x t = Some (r, u) \<Longrightarrow>
      (r, keys u) = spec_op ord x (keys t)"
begin

theorem run_refines:
  "rel s t \<Longrightarrow> abs_fresh step used os t \<Longrightarrow>
   case abs_run step os t of
     None \<Rightarrow> run_ops ins fnd del os s = panic NilDeref
   | Some (rs, u) \<Rightarrow> (\<exists>s'. run_ops ins fnd del os s = ret (rs, s') \<and> rel s' u)
       \<and> rs = fst (spec_ops ord os (keys t)) \<and> keys u = snd (spec_ops ord os (keys t))"
proof (induction os arbitrary: s t)
  case Nil
  then show ?case by auto
next
  case (Cons x os)
  from Cons.prems(2) have f: "fresh_for x (used t)" by simp
  show ?case
  proof (cases "step x t")
    case None
    with undefined_panics [OF Cons.prems(1) f] show ?thesis by simp
  next
    case (Some y)
    obtain r u where y: "y = (r, u)" by (cases y)
    with defined_returns [OF Cons.prems(1) f] Some obtain s1 where
      s1: "run_op ins fnd del x s = ret (r, s1)" "rel s1 u" by blast
    have "(r, keys u) = spec_op ord x (keys t)" using on_keys [OF Cons.prems(1) f] Some y by simp
    moreover have "abs_fresh step used os u" using Cons.prems(2) Some y by simp
    from Cons.IH [OF s1(2) this] s1(1) calculation [symmetric] Some y show ?thesis
      by (auto simp: case_prod_beta split: option.splits)
  qed
qed

text \<open>The chunks the store frees are those the abstract state stops using.\<close>

lemma pool_ok_fresh: "rel s t \<Longrightarrow> pool_ok ins fnd del given_back os (used t) s \<Longrightarrow> abs_fresh step used os t"
proof (induction os arbitrary: s t)
  case (Cons x os)
  from Cons.prems(2) have f: "fresh_for x (used t)" by simp
  show ?case
  proof (cases "step x t")
    case None
    with f show ?thesis by simp
  next
    case (Some y)
    obtain r u where y: "y = (r, u)" by (cases y)
    with defined_returns [OF Cons.prems(1) f] Some obtain s1 where
      s1: "run_op ins fnd del x s = ret (r, s1)" "rel s1 u" "used u = in_use given_back x r s s1 (used t)" by blast
    then have "pool_ok ins fnd del given_back os (used u) s1" using Cons.prems(2) by simp
    with Cons.IH [OF s1(2)] f Some y show ?thesis by simp
  qed
qed simp

end

section \<open>The tree provides it\<close>

text \<open>The operations as functions on trees.\<close>

fun tree_op :: "('k \<Rightarrow> 'k \<Rightarrow> int) \<Rightarrow> 'k op \<Rightarrow> 'k rbt \<Rightarrow> ('k answer \<times> 'k rbt) option" where
  "tree_op ord (OpInsert a k) t =
     (case key_in ord k (inorder t) of
        Some x \<Rightarrow> Some (Inserted (ReplyKey x), t)
      | None \<Rightarrow> Some (Inserted ReplyNil, ins_tree ord a k t))"
| "tree_op ord (OpFind k) t = Some (Found (key_in ord k (inorder t)), t)"
| "tree_op ord (OpDelete k) t = map_option (\<lambda>u. (Deleted (key_in ord k (inorder t)), u)) (del_any ord k t)"

definition holds :: "('k \<Rightarrow> 'k \<Rightarrow> int) \<Rightarrow> 'k RBtree \<Rightarrow> 'k rbt \<Rightarrow> bool" where
  "holds ord m t \<longleftrightarrow> is_tree m t \<and> sorted_by ord (inorder t)"

lemma map_filter_Some [simp]: "List.map_filter id [] = []" "List.map_filter id [Some a] = [a]"
  by (simp_all add: List.map_filter_def)

context comparator
begin

text \<open>One operation: the store follows the tree, and the chunks in use are the tree's.\<close>

lemma op_exact:
  assumes t: "is_tree m t" "sorted_by ord (inorder t)" and x: "fresh_for x (set (addrs t))"
  shows "case tree_op ord x t of
      None \<Rightarrow> run_op (Insert Compare) (FindKey Compare) (Delete Compare) x m = panic NilDeref
    | Some (r, u) \<Rightarrow> \<exists>m'. run_op (Insert Compare) (FindKey Compare) (Delete Compare) x m = ret (r, m')
        \<and> is_tree m' u \<and> sorted_by ord (inorder u) \<and> (r, inorder u) = spec_op ord x (inorder t)
        \<and> set (addrs u) = in_use freed x r m m' (set (addrs t))"
proof (cases x)
  case (OpInsert a k)
  show ?thesis
  proof (cases "key_in ord k (inorder t)")
    case None
    from Insert_absent [OF t None] x OpInsert obtain m' where
      "Insert Compare a (Some k) m = ret (ReplyNil, m')" "is_tree m' (ins_tree ord a k t)" by auto
    with OpInsert None t show ?thesis by (auto simp: inorder_ins_tree sorted_ins_list addrs_ins_tree)
  next
    case (Some y)
    with Insert_present [OF t Some] OpInsert t show ?thesis by simp
  qed
next
  case (OpFind k)
  with FindKey_tree [OF t] t show ?thesis by simp
next
  case (OpDelete k)
  show ?thesis
  proof (cases "key_in ord k (inorder t)")
    case None
    then have "del_list ord k (inorder t) = inorder t"
      using key_in_None [of ord k "inorder t"] by (simp add: del_list_def filter_id_conv)
    with None Delete_absent [OF t None] del_any_absent [OF t(2) None] OpDelete t show ?thesis by simp
  next
    case (Some y)
    show ?thesis
    proof (cases "del_any ord k t")
      case None
      with Delete_exact [OF t Some] OpDelete show ?thesis by simp
    next
      case (Some u)
      with Delete_exact [OF t \<open>key_in ord k (inorder t) = _\<close>] obtain m' a where "Delete Compare (Some k) m = ret (Some y, m')"
        "is_tree m' u" "inorder u = del_list ord k (inorder t)" "set (addrs u) = set (addrs t) - {a}"
        "freed m' = freed m @ [Some a]" by auto
      with OpDelete Some sorted_del_list [OF t(2), of k] \<open>key_in ord k (inorder t) = _\<close> show ?thesis by simp
    qed
  qed
qed

end

sublocale comparator \<subseteq> any: op_refinement "holds ord" inorder "\<lambda>t. set (addrs t)" "tree_op ord" ord
  "Insert Compare" "FindKey Compare" "Delete Compare" freed
proof unfold_locales
  fix s t x
  assume "holds ord s t" "fresh_for x (set (addrs t))" "tree_op ord x t = None"
  with op_exact [of s t x] show "run_op (Insert Compare) (FindKey Compare) (Delete Compare) x s = panic NilDeref"
    by (simp add: holds_def)
next
  fix s t x r u
  assume "holds ord s t" "fresh_for x (set (addrs t))" "tree_op ord x t = Some (r, u)"
  with op_exact [of s t x] show "\<exists>s'. run_op (Insert Compare) (FindKey Compare) (Delete Compare) x s = ret (r, s')
      \<and> holds ord s' u \<and> set (addrs u) = in_use freed x r s s' (set (addrs t))"
    by (auto simp: holds_def)
next
  fix s t x r u
  assume "holds ord s t" "fresh_for x (set (addrs t))" "tree_op ord x t = Some (r, u)"
  with op_exact [of s t x] show "(r, inorder u) = spec_op ord x (inorder t)"
    by (auto simp: holds_def)
qed

context comparator
begin

lemma holds_InitTree: "leaf m = LEAF_node \<Longrightarrow> holds ord (InitTree m) Lf"
  by (simp add: holds_def InitTree_def is_tree_iff)

lemma fresh_run_from_InitTree:
  assumes "leaf m = LEAF_node" and "abs_fresh (tree_op ord) (\<lambda>t. set (addrs t)) os Lf"
  shows "case abs_run (tree_op ord) os Lf of
     None \<Rightarrow> run_ops (Insert Compare) (FindKey Compare) (Delete Compare) os (InitTree m) = panic NilDeref
   | Some (rs, u) \<Rightarrow>
       (\<exists>m'. run_ops (Insert Compare) (FindKey Compare) (Delete Compare) os (InitTree m) = ret (rs, m')
         \<and> is_tree m' u \<and> sorted_by ord (inorder u))
       \<and> rs = fst (spec_ops ord os []) \<and> inorder u = snd (spec_ops ord os [])"
  using any.run_refines [OF holds_InitTree, of m os] assms by (auto simp: holds_def split: option.splits)

lemma any_run_from_InitTree:
  assumes "leaf m = LEAF_node"
    and "pool_ok (Insert Compare) (FindKey Compare) (Delete Compare) freed os {} (InitTree m)"
  shows "case abs_run (tree_op ord) os Lf of
     None \<Rightarrow> run_ops (Insert Compare) (FindKey Compare) (Delete Compare) os (InitTree m) = panic NilDeref
   | Some (rs, u) \<Rightarrow>
       (\<exists>m'. run_ops (Insert Compare) (FindKey Compare) (Delete Compare) os (InitTree m) = ret (rs, m')
         \<and> is_tree m' u \<and> sorted_by ord (inorder u))
       \<and> rs = fst (spec_ops ord os []) \<and> inorder u = snd (spec_ops ord os [])"
  using fresh_run_from_InitTree [OF assms(1)] any.pool_ok_fresh [OF holds_InitTree, of m os] assms by simp

end

end
