(* ===== verification/RB_Query.thy ===== *)
theory RB_Query
  imports RB_Runs
begin

text \<open>
  The comparison function the repository's own tests use the tree with (\<open>rbtree_test.go\<close>): it keeps
  the contract of \<open>CompareFunc\<close>, so every theorem of the tree holds for it. The test itself is a
  function from the chunks its three insertions get to the errors it reports.
\<close>

record dns_query =
  qlen :: u16
  qid :: u16

text \<open>A key that is not a \<open>*dns_query\<close> leaves the local pointer \<open>nil\<close>, and reading \<open>id\<close> through it
  panics; here the only such key is the \<open>nil\<close> interface.\<close>

definition queryCmp :: "dns_query compare_func" where
  "queryCmp ka kb =
     (case ka of None \<Rightarrow> panic NilDeref | Some a \<Rightarrow>
     (case kb of None \<Rightarrow> panic NilDeref | Some b \<Rightarrow>
      if qid a = qid b then ret 0
      else if qid a < qid b then ret (-1) else ret 1))"

definition query_ord :: "dns_query \<Rightarrow> dns_query \<Rightarrow> int" where
  "query_ord a b = (if qid a = qid b then 0 else if qid a < qid b then -1 else 1)"

interpretation query: comparator queryCmp query_ord
  by unfold_locales (auto simp: queryCmp_def query_ord_def split: if_split_asm)

definition q :: "u16 \<Rightarrow> dns_query" where
  "q i = \<lparr>qlen = 0, qid = i\<rparr>"

abbreviation run_query :: "dns_query op list \<Rightarrow> dns_query RBtree \<Rightarrow> (dns_query answer list \<times> dns_query RBtree) go" where
  "run_query \<equiv> run_ops (Insert queryCmp) (FindKey queryCmp) (Delete queryCmp)"

section \<open>The test\<close>

definition error_if :: "bool \<Rightarrow> string \<Rightarrow> string list" where
  "error_if b e = (if b then [e] else [])"

definition TestRBtree :: "nat \<Rightarrow> nat \<Rightarrow> nat \<Rightarrow> dns_query RBtree \<Rightarrow> string list go" where
  "TestRBtree a b c m =
     (let m = InitTree m;
          test = \<lparr>qlen = 0, qid = 300\<rparr> in
      bnd (Insert queryCmp a (Some \<lparr>qlen = 100, qid = 200\<rparr>) m) (\<lambda>(found, m).
      let e1 = error_if (found \<noteq> ReplyNil) ''0 Insert fail'' in
      bnd (Insert queryCmp b (Some \<lparr>qlen = 200, qid = 300\<rparr>) m) (\<lambda>(found, m).
      let e2 = error_if (found \<noteq> ReplyNil) ''1 Insert fail'' in
      bnd (FindKey queryCmp m (Some test)) (\<lambda>found.
      let e3 = error_if (found = None) ''FindKey fail'' in
      bnd (Delete queryCmp (Some test) m) (\<lambda>(found, m).
      let e4 = error_if (found = None) ''Delete fail'' in
      bnd (Insert queryCmp c (Some \<lparr>qlen = 200, qid = 300\<rparr>) m) (\<lambda>(found, m).
      let e5 = error_if (found \<noteq> ReplyNil) ''1 Insert fail'' in
      bnd (FindKey queryCmp m (Some test)) (\<lambda>found.
      let e6 = error_if (found = None) ''2-----FindKey fail'' in
      bnd (FindNode queryCmp m (Some test)) (\<lambda>node.
      let e7 = error_if (node = NilP) ''2-----FindKey fail'' in
      ret (e1 @ e2 @ e3 @ e4 @ e5 @ e6 @ e7)))))))))"

end
