(* ===== verification/RB_Props.thy ===== *)
theory RB_Props
  imports RB_Query
begin

text \<open>
  The properties of the red-black tree, for every comparison function that keeps the contract of
  \<open>CompareFunc\<close> (locale \<open>comparator\<close>), each followed by its application to the comparison function
  of the repository's own tests on concrete stores.
\<close>

section \<open>Concrete stores\<close>

text \<open>The store after inserting the ids \<open>2, 1, 3\<close>, and the tree it holds.\<close>

definition tree213 :: "dns_query rbt" where
  "tree213 = Nd (Nd Lf 1 Red (q 1) Lf) 0 Black (q 2) (Nd Lf 2 Red (q 3) Lf)"

definition store213 :: "dns_query RBtree" where
  "store213 = \<lparr>heap = (\<lambda>a.
       if a = 0 then Some (mk_node 0 LEAF (Ref 1) (Ref 2) Black (q 2))
       else if a = 1 then Some (mk_node 1 (Ref 0) LEAF LEAF Red (q 1))
       else if a = 2 then Some (mk_node 2 (Ref 0) LEAF LEAF Red (q 3)) else None),
     leaf = LEAF_node, root = Ref 0, freed = []\<rparr>"

lemma q_ord [simp]: "query_ord (q i) (q j) = (if i = j then 0 else if i < j then -1 else 1)"
  by (simp add: query_ord_def q_def)

lemma q_inject [simp]: "q i = q j \<longleftrightarrow> i = j"
  by (simp add: q_def)

lemma tree213_facts:
  "is_tree store213 tree213" "rb tree213" "inorder tree213 = [q 1, q 2, q 3]"
  "sorted_by query_ord (inorder tree213)" "set (addrs tree213) = {0, 1, 2}"
  "nodes tree213 = [(1, q 1), (0, q 2), (2, q 3)]"
  by (auto simp: is_tree_iff store213_def tree213_def rb_def)

lemma init_facts:
  "is_tree (InitTree init_store) Lf" "rb Lf" "sorted_by ord (inorder Lf)"
  by (simp_all add: is_tree_iff InitTree_def init_store_def rb_def)

section \<open>Insertion and lookup\<close>

text \<open>C1. Inserting a key that compares equal to no stored key, with a chunk not in use, returns
  \<open>nil\<close>; the store then holds a red-black tree again (colours, black heights and a black root),
  whose ascending keys are the old ones with the new key in its place; no other chunk is written
  and none is freed.\<close>

theorem Insert_new_key:
  assumes "comparator cmp ord" and "is_tree m t" and "rb t" and "sorted_by ord (inorder t)"
    and "key_in ord k (inorder t) = None" and "a \<notin> set (addrs t)"
  shows "\<exists>m' t'. Insert cmp a (Some k) m = ret (ReplyNil, m') \<and> is_tree m' t' \<and> rb t'
    \<and> inorder t' = ins_list ord k (inorder t) \<and> sorted_by ord (inorder t')
    \<and> set (addrs t') = insert a (set (addrs t)) \<and> same_outside (insert a (set (addrs t))) m m'"
  using comparator.Insert_absent [OF assms(1,2,4,5,6)] assms(3-5)
    comparator.sorted_ins_list [OF assms(1)] comparator.inorder_ins_tree [OF assms(1)]
  by (fastforce simp: rb_ins_tree addrs_ins_tree)

theorem Insert_new_key_witness:
  "\<exists>m' t'. Insert queryCmp 9 (Some (q 7)) store213 = ret (ReplyNil, m') \<and> is_tree m' t' \<and> rb t'
    \<and> inorder t' = [q 1, q 2, q 3, q 7]"
  using Insert_new_key [OF query.comparator_axioms tree213_facts(1,2,4), of "q 7" 9]
  by (simp add: tree213_facts key_in_def ins_list_def) blast

text \<open>Inserting a key when an equal one is stored returns the stored key and writes nothing:
  no node is allocated.\<close>

theorem Insert_duplicate:
  assumes "comparator cmp ord" and "is_tree m t" and "sorted_by ord (inorder t)"
    and "key_in ord k (inorder t) = Some x"
  shows "Insert cmp a (Some k) m = ret (ReplyKey x, m)"
  using comparator.Insert_present [OF assms] .

theorem Insert_duplicate_witness:
  "Insert queryCmp 1 (Some \<lparr>qlen = 5, qid = 3\<rparr>) store213 = ret (ReplyKey (q 3), store213)"
  using Insert_duplicate [OF query.comparator_axioms tree213_facts(1,4), of "\<lparr>qlen = 5, qid = 3\<rparr>" "q 3" 1]
  by (simp add: tree213_facts key_in_def query_ord_def q_def)

text \<open>C14. On an ordered tree \<open>FindKey\<close> returns the stored key equal to the one asked for, or
  \<open>nil\<close>, and \<open>FindNode\<close> the node that holds it, or \<open>nil\<close>: both always return.\<close>

theorem Find_correct:
  assumes "comparator cmp ord" and "is_tree m t" and "sorted_by ord (inorder t)"
  shows "FindKey cmp m (Some k) = ret (key_in ord k (inorder t))
    \<and> (\<exists>p. FindNode cmp m (Some k) = ret p
        \<and> (case key_in ord k (inorder t) of None \<Rightarrow> p = NilP
           | Some x \<Rightarrow> \<exists>a. p = Ref a \<and> (a, x) \<in> set (nodes t)))"
proof -
  have f: "FindNode cmp m (Some k) = ret (find_ptr ord k t)"
    using comparator.FindNode_tree [OF assms(1,2)] .
  have "case key_in ord k (inorder t) of None \<Rightarrow> find_ptr ord k t = NilP
      | Some x \<Rightarrow> \<exists>a. find_ptr ord k t = Ref a \<and> (a, x) \<in> set (nodes t)"
  proof (cases "find_ptr ord k t = NilP")
    case True
    then show ?thesis
      using comparator.find_ptr_NilP [OF assms(1,3), of k] by simp
  next
    case False
    then obtain fs l a c x r where t: "t = plug fs (Nd l a c x r)" "ord x k = 0" "find_ptr ord k t = Ref a"
      using comparator.find_ptr_zipper [OF assms(1)] by blast
    then have "key_in ord k (inorder t) = Some x"
      using comparator.key_in_unique [OF assms(1), of "fleft fs @ inorder l" x "inorder r @ fright fs" k]
        assms(3) by (simp add: inorder_plug)
    with t show ?thesis by (simp add: nodes_plug_eq)
  qed
  with f comparator.FindKey_tree [OF assms] show ?thesis by blast
qed

theorem Find_correct_witness:
  "FindKey queryCmp store213 (Some (q 3)) = ret (Some (q 3))
   \<and> FindKey queryCmp store213 (Some (q 4)) = ret None"
  using Find_correct [OF query.comparator_axioms tree213_facts(1,4), of "q 3"]
    Find_correct [OF query.comparator_axioms tree213_facts(1,4), of "q 4"]
  by (simp add: tree213_facts key_in_def)

section \<open>Deletion\<close>

text \<open>C10. Deleting from a red-black tree returns the stored key, frees the chunk of the node found,
  and leaves a tree without that key: the order of the others, the colour invariant and the black
  root are kept. The black heights stay equal exactly when the node unlinked was not a childless
  black one below the root, because the repair loop never runs on \<open>LEAF\<close>.\<close>

theorem Delete_key:
  assumes "comparator cmp ord" and "is_tree m t" and "rb t" and "sorted_by ord (inorder t)"
    and "key_in ord k (inorder t) = Some x"
  shows "\<exists>m' t' a. Delete cmp (Some k) m = ret (Some x, m') \<and> is_tree m' t'
    \<and> (a, x) \<in> set (nodes t) \<and> freed m' = freed m @ [Some a]
    \<and> inorder t' = del_list ord k (inorder t) \<and> invc t' \<and> tcol t' = Black
    \<and> (invh t' \<longleftrightarrow> \<not> loses_black ord k t)"
proof -
  note del_tree_inv [OF assms(3), of ord k] comparator.inorder_del_tree [OF assms(1,4), of k]
  with comparator.Delete_present [OF assms(1,2,4,5) rb_quiet [OF assms(3)]]
  show ?thesis by blast
qed

theorem Delete_key_witness:
  "\<exists>m' t'. Delete queryCmp (Some (q 2)) store213 = ret (Some (q 2), m') \<and> is_tree m' t'
    \<and> inorder t' = [q 1, q 3] \<and> rb t' \<and> freed m' = [Some 0]"
  using Delete_key [OF query.comparator_axioms tree213_facts(1-2,4), of "q 2" "q 2"]
  by (auto simp: tree213_facts key_in_def del_list_def rb_def loses_black_def tree213_def store213_def)

text \<open>Deleting a key that is not stored, or the nil key, returns \<open>nil\<close> and writes nothing.\<close>

theorem Delete_missing:
  assumes "comparator cmp ord" and "is_tree m t" and "sorted_by ord (inorder t)"
    and "\<forall>j. key = Some j \<longrightarrow> key_in ord j (inorder t) = None"
  shows "Delete cmp key m = ret (None, m)"
  using assms(4) comparator.Delete_absent [OF assms(1-3)] by (cases key) (simp_all add: Delete_def)

theorem Delete_missing_witness:
  "Delete queryCmp (Some (q 9)) store213 = ret (None, store213)"
  using Delete_missing [OF query.comparator_axioms tree213_facts(1,4), of "Some (q 9)"]
  by (simp add: tree213_facts key_in_def)

text \<open>Three insertions, a fourth that recolours, and the deletion of a black leaf: the store
  that results holds a tree whose black heights differ.\<close>

theorem Delete_unbalances:
  "\<exists>m t. run_query [OpInsert 0 (q 2), OpInsert 1 (q 1), OpInsert 2 (q 3), OpInsert 3 (q 4),
     OpDelete (q 1)] (InitTree init_store)
     = ret ([Inserted ReplyNil, Inserted ReplyNil, Inserted ReplyNil, Inserted ReplyNil,
             Deleted (Some (q 1))], m)
     \<and> is_tree m t \<and> inorder t = [q 2, q 3, q 4] \<and> invc t \<and> \<not> invh t"
proof -
  let ?ops = "[OpInsert 0 (q 2), OpInsert 1 (q 1), OpInsert 2 (q 3), OpInsert 3 (q 4)]"
  let ?l = "Nd Lf 1 Black (q 1) Lf" and ?r = "Nd Lf 2 Black (q 3) (Nd Lf 3 Red (q 4) Lf)"
  let ?t = "Nd ?l 0 Black (q 2) ?r"
  have eval: "map_option (\<lambda>(rs, m). (rs, root m, map (heap m) [0, 1, 2, 3], leaf m))
      (result_of (run_query ?ops (InitTree init_store)))
    = Some ([Inserted ReplyNil, Inserted ReplyNil, Inserted ReplyNil, Inserted ReplyNil], Ref 0,
        [Some (mk_node 0 LEAF (Ref 1) (Ref 2) Black (q 2)), Some (mk_node 1 (Ref 0) LEAF LEAF Black (q 1)),
         Some (mk_node 2 (Ref 0) LEAF (Ref 3) Black (q 3)), Some (mk_node 3 (Ref 2) LEAF LEAF Red (q 4))], LEAF_node)"
    by code_simp
  then obtain m where m: "run_query ?ops (InitTree init_store)
      = ret ([Inserted ReplyNil, Inserted ReplyNil, Inserted ReplyNil, Inserted ReplyNil], m)"
    and t: "is_tree m ?t"
    by (auto simp: result_of_iff is_tree_iff)
  have rb: "rb ?t" "sorted_by query_ord (inorder ?t)" "key_in query_ord (q 1) (inorder ?t) = Some (q 1)"
    by (simp_all add: rb_def key_in_def)
  have "loses_black query_ord (q 1) ?t" by (simp add: loses_black_def)
  with query.Delete_present [OF t rb(2,3) rb_quiet [OF rb(1)]] del_tree_inv [OF rb(1), of query_ord "q 1"]
    query.inorder_del_tree [OF rb(2), of "q 1"]
  obtain m' where m': "Delete queryCmp (Some (q 1)) m = ret (Some (q 1), m')"
    "is_tree m' (del_tree query_ord (q 1) ?t)" "invc (del_tree query_ord (q 1) ?t)"
    "\<not> invh (del_tree query_ord (q 1) ?t)" "inorder (del_tree query_ord (q 1) ?t) = [q 2, q 3, q 4]"
    by (auto simp: del_list_def)
  have "run_query (?ops @ [OpDelete (q 1)]) (InitTree init_store)
      = ret ([Inserted ReplyNil, Inserted ReplyNil, Inserted ReplyNil, Inserted ReplyNil,
              Deleted (Some (q 1))], m')"
    by (simp only: run_ops_append m) (simp add: m'(1))
  with m' show ?thesis by (metis append_Cons append_Nil)
qed

section \<open>Traversal\<close>

text \<open>C16. On a node of a tree, \<open>TreeNext\<close> returns the node that holds the next key and \<open>TreePrev\<close> the
  node that holds the previous one, although its climbing loop tests the node and not its parent; from the
  last and from the first node they return \<open>LEAF\<close>.\<close>

theorem Tree_neighbours:
  assumes "is_tree m t" and "nodes t = xs @ (a, k) # ys"
  shows "TreeNext m (Ref a) = ret (first_ptr ys) \<and> TreePrev m (Ref a) = ret (last_ptr xs)"
proof -
  have "distinct (addrs t)" using assms(1) by (simp add: is_tree_iff)
  from focus_exists [OF assms(2) this] obtain fs l c r where
    t: "t = plug fs (Nd l a c k r)" "nodes r @ nright fs = ys" "nleft fs @ nodes l = xs" by blast
  with assms(1) have "rep m fs (Nd l a c k r)" by (simp add: rep_plug)
  from TreeNext_rep [OF this] TreePrev_rep [OF this] t(2,3) show ?thesis by simp
qed

theorem Tree_neighbours_witness:
  "TreeNext store213 (Ref 1) = ret (Ref 0) \<and> TreePrev store213 (Ref 1) = ret LEAF
    \<and> TreeNext store213 (Ref 2) = ret LEAF \<and> TreePrev store213 (Ref 2) = ret (Ref 0)"
  using Tree_neighbours [OF tree213_facts(1), of "[]" 1 "q 1" "[(0, q 2), (2, q 3)]"]
    Tree_neighbours [OF tree213_facts(1), of "[(1, q 1), (0, q 2)]" 2 "q 3" "[]"]
  by (simp add: tree213_facts last_ptr_def)

text \<open>From the root, \<open>TreeFirstNode\<close> and \<open>TreeLastNode\<close> return the nodes of the least and
  the greatest key; on the empty tree they dereference the sentinel's \<open>nil\<close> child.\<close>

theorem Tree_ends:
  assumes "is_tree m t"
  shows "TreeFirstNode m (root m) = (if Empty m then panic NilDeref else ret (first_ptr (nodes t)))
    \<and> TreeLastNode m (root m) = (if Empty m then panic NilDeref else ret (last_ptr (nodes t)))"
proof (cases "t = Lf")
  case True
  with assms show ?thesis
    by (simp add: is_tree_iff Empty_def TreeFirstNode_LEAF TreeLastNode_LEAF)
next
  case False
  with assms TreeFirstNode_nodes [of m LEAF t] TreeLastNode_nodes [of m LEAF t] show ?thesis
    by (simp add: is_tree_iff Empty_def)
qed

theorem Tree_ends_witness:
  "TreeFirstNode store213 (Ref 0) = ret (Ref 1) \<and> TreeLastNode store213 (Ref 0) = ret (Ref 2)
   \<and> TreeFirstNode (InitTree (init_store :: dns_query RBtree)) LEAF = panic NilDeref"
  using Tree_ends [OF tree213_facts(1)] Tree_ends [OF init_facts(1)[where 'a = dns_query]]
  by (simp add: tree213_facts last_ptr_def Empty_def store213_def InitTree_def)

section \<open>Rotations\<close>

text \<open>A left rotation at a node with a right child keeps the keys in order and is undone by a
  right rotation at its new parent, wherever the node stands in the tree.\<close>

theorem rotations_inverse:
  assumes "is_tree m (plug fs (Nd l a c k (Nd rl b d j rr)))"
  shows "\<exists>m1 m2. rotateToLeft m (Ref a) = ret m1 \<and> is_tree m1 (plug fs (Nd (Nd l a c k rl) b d j rr))
    \<and> inorder (plug fs (Nd (Nd l a c k rl) b d j rr)) = inorder (plug fs (Nd l a c k (Nd rl b d j rr)))
    \<and> rotateToRight m1 (Ref b) = ret m2 \<and> is_tree m2 (plug fs (Nd l a c k (Nd rl b d j rr)))"
proof -
  from assms have r: "rep m fs (Nd l a c k (Nd rl b d j rr))" by (simp add: rep_plug)
  from rotateToLeft_rep [OF r] obtain m1 where
    m1: "rotateToLeft m (Ref a) = ret m1" "rep m1 fs (Nd (Nd l a c k rl) b d j rr)" by blast
  with rotateToRight_rep [OF m1(2)] show ?thesis by (auto simp: rep_plug inorder_plug)
qed

theorem rotations_inverse_witness:
  "\<exists>m1 m2. rotateToLeft store213 (Ref 0) = ret m1 \<and> rotateToRight m1 (Ref 2) = ret m2
    \<and> is_tree m2 tree213"
  using rotations_inverse [of store213 "[]" "Nd Lf 1 Red (q 1) Lf" 0 Black "q 2" Lf 2 Red "q 3" Lf]
    tree213_facts(1)
  by (auto simp: tree213_def)

section \<open>Sequences of operations\<close>

text \<open>C4. From the empty tree, every sequence of insertions and lookups returns, answers as the
  ascending list does, and ends in an ordered red-black tree of logarithmic height:
  \<open>2\<close> to the height is at most the square of one more than the number of keys.\<close>

theorem run_from_empty:
  assumes "comparator cmp ord" and "leaf m = LEAF_node" and "no_delete os" and "distinct (chunks os)"
  shows "\<exists>m' t. run_ops (Insert cmp) (FindKey cmp) (Delete cmp) os (InitTree m)
      = ret (fst (spec_ops ord os []), m')
    \<and> is_tree m' t \<and> inorder t = snd (spec_ops ord os []) \<and> sorted_by ord (inorder t)
    \<and> 2 ^ height t \<le> (Suc (length (inorder t)))\<^sup>2"
  using comparator.run_from_InitTree [OF assms, of "Delete cmp"] rb_height by blast

theorem run_from_empty_witness:
  "\<exists>m' t. run_query [OpInsert 0 (q 200), OpInsert 1 (q 300), OpFind (q 300), OpFind (q 7)]
      (InitTree init_store)
      = ret ([Inserted ReplyNil, Inserted ReplyNil, Found (Some (q 300)), Found None], m')
    \<and> is_tree m' t \<and> inorder t = [q 200, q 300]"
  using run_from_empty [OF query.comparator_axioms, of init_store
      "[OpInsert 0 (q 200), OpInsert 1 (q 300), OpFind (q 300), OpFind (q 7)]"]
  by (auto simp: init_store_def key_in_def ins_list_def)

end
