(* ===== verification/RB_Run_Props.thy ===== *)
theory RB_Run_Props
  imports RB_Props
begin

text \<open>
  The properties of the red-black tree when deletions have spoiled its balance: deletion on every
  ordered tree, runs of all operations from the empty tree, a run that panics under every comparison
  function, and the run of the repository's own test.
\<close>

section \<open>Deletion on every ordered tree\<close>

text \<open>C11. On every ordered tree, whatever its colours and black heights, \<open>Delete\<close> comes to an end and does
  what the function \<open>del_any\<close> says: for a key not stored it returns \<open>nil\<close> and writes nothing; for a stored
  key it dereferences a nil child of the sentinel in its repair loop exactly where \<open>del_any\<close> is \<open>None\<close>, and
  otherwise returns the stored key, frees that key's node and leaves the tree \<open>del_any\<close> computes, an ordered tree
  of the other keys on the other nodes.\<close>

theorem Delete_any_tree:
  assumes "comparator cmp ord" and "is_tree m t" and "sorted_by ord (inorder t)"
  shows "case key_in ord k (inorder t) of
      None \<Rightarrow> Delete cmp (Some k) m = ret (None, m) \<and> del_any ord k t = Some t
    | Some x \<Rightarrow>
        (case del_any ord k t of
           None \<Rightarrow> Delete cmp (Some k) m = panic NilDeref
         | Some t' \<Rightarrow> \<exists>m' a. Delete cmp (Some k) m = ret (Some x, m') \<and> is_tree m' t'
             \<and> inorder t' = del_list ord k (inorder t) \<and> sorted_by ord (inorder t')
             \<and> (a, x) \<in> set (nodes t) \<and> set (addrs t') = set (addrs t) - {a} \<and> freed m' = freed m @ [Some a])"
proof (cases "key_in ord k (inorder t)")
  case None
  with comparator.Delete_absent [OF assms None] comparator.del_any_absent [OF assms(1,3) None] show ?thesis by simp
next
  case (Some x)
  note d = comparator.Delete_exact [OF assms Some] comparator.sorted_del_list [OF assms(1,3), of k]
  show ?thesis
  proof (cases "del_any ord k t")
    case None
    with d Some show ?thesis by simp
  next
    case (Some t')
    with d obtain m' a where "Delete cmp (Some k) m = ret (Some x, m')" "is_tree m' t'"
      "inorder t' = del_list ord k (inorder t)" "(a, x) \<in> set (nodes t)"
      "set (addrs t') = set (addrs t) - {a}" "freed m' = freed m @ [Some a]" by auto
    with d(2) Some \<open>key_in ord k (inorder t) = _\<close> show ?thesis by auto
  qed
qed

text \<open>A tree with a black leaf on one side only.\<close>

definition lopsided :: "dns_query rbt" where
  "lopsided = Nd Lf 0 Black (q 2) (Nd Lf 1 Black (q 3) Lf)"

definition lopsided_store :: "dns_query RBtree" where
  "lopsided_store = \<lparr>heap = [0 \<mapsto> mk_node 0 LEAF LEAF (Ref 1) Black (q 2), 1 \<mapsto> mk_node 1 (Ref 0) LEAF LEAF Black (q 3)],
     leaf = LEAF_node, root = Ref 0, freed = []\<rparr>"

lemma lopsided_facts:
  "is_tree lopsided_store lopsided" "inorder lopsided = [q 2, q 3]" "\<not> rb lopsided"
  by (simp_all add: is_tree_iff lopsided_store_def lopsided_def rb_def)

theorem Delete_any_tree_witness:
  "Delete queryCmp (Some (q 7)) lopsided_store = ret (None, lopsided_store)
   \<and> (\<exists>m'. Delete queryCmp (Some (q 2)) lopsided_store = ret (Some (q 2), m')
        \<and> is_tree m' (Nd Lf 1 Black (q 3) Lf) \<and> freed m' = [Some 0])"
  using Delete_any_tree [OF query.comparator_axioms lopsided_facts(1), of "q 7"]
    Delete_any_tree [OF query.comparator_axioms lopsided_facts(1), of "q 2"]
  by (auto simp: lopsided_facts(2) key_in_def del_list_def del_any_def del_gap_def lopsided_def lopsided_store_def)

section \<open>Runs of all operations\<close>

text \<open>C12. From the empty tree, every sequence of insertions, lookups and deletions, each insertion with a chunk
  not in use at the time (new, or given back by a deletion), comes to an end and does what the same sequence does
  on trees: it panics exactly where a deletion on trees is \<open>None\<close>, and otherwise the store holds the tree computed,
  every answer is the one the ascending list gives, and the tree's keys are that list. No run diverges, loses
  a key or invents one.\<close>

theorem run_with_deletions:
  assumes "comparator cmp ord" and "leaf m = LEAF_node"
    and "pool_ok (Insert cmp) (FindKey cmp) (Delete cmp) freed os {} (InitTree m)"
  shows "case abs_run (tree_op ord) os Lf of
     None \<Rightarrow> run_ops (Insert cmp) (FindKey cmp) (Delete cmp) os (InitTree m) = panic NilDeref
   | Some (rs, t) \<Rightarrow>
       (\<exists>m'. run_ops (Insert cmp) (FindKey cmp) (Delete cmp) os (InitTree m) = ret (rs, m')
         \<and> is_tree m' t \<and> sorted_by ord (inorder t))
       \<and> rs = fst (spec_ops ord os []) \<and> inorder t = snd (spec_ops ord os [])"
  by (rule comparator.any_run_from_InitTree [OF assms])

text \<open>The chunk of the deleted key is used again.\<close>

definition reuse_ops :: "dns_query op list" where
  "reuse_ops = [OpInsert 0 (q 5), OpInsert 1 (q 3), OpDelete (q 5), OpInsert 0 (q 4), OpFind (q 5), OpFind (q 3)]"

lemma reuse_ok: "pool_ok (Insert queryCmp) (FindKey queryCmp) (Delete queryCmp) freed reuse_ops {} (InitTree init_store)"
  by code_simp

theorem run_with_deletions_witness:
  "\<exists>m'. run_query reuse_ops (InitTree init_store) = ret ([Inserted ReplyNil, Inserted ReplyNil,
       Deleted (Some (q 5)), Inserted ReplyNil, Found None, Found (Some (q 3))], m')
     \<and> is_tree m' (Nd Lf 1 Black (q 3) (Nd Lf 0 Red (q 4) Lf))"
proof -
  have "abs_run (tree_op query_ord) reuse_ops Lf = Some ([Inserted ReplyNil, Inserted ReplyNil,
       Deleted (Some (q 5)), Inserted ReplyNil, Found None, Found (Some (q 3))], Nd Lf 1 Black (q 3) (Nd Lf 0 Red (q 4) Lf))"
    by code_simp
  with run_with_deletions [OF query.comparator_axioms _ reuse_ok] show ?thesis by (auto simp: init_store_def)
qed

section \<open>A run that panics\<close>

text \<open>Seven ascending keys under any comparison function.\<close>

lemma ascending_ord:
  assumes "comparator cmp ord" and "\<forall>i j. i < j \<and> j < n \<longrightarrow> ord (k i) (k j) < 0" and "i < n" and "j < n"
  shows "ord (k i) (k j) < 0 \<longleftrightarrow> i < (j :: nat)" and "ord (k i) (k j) = 0 \<longleftrightarrow> i = j"
proof -
  have up: "ord (k i) (k j) < 0" if "i < j" "j < n" for i j using assms(2) that by blast
  have down: "0 < ord (k j) (k i)" if "i < j" "j < n" for i j
    using up [OF that] comparator.flip [OF assms(1)] by blast
  consider "i < j" | "i = j" | "j < i" by linarith
  then have "(ord (k i) (k j) < 0 \<longleftrightarrow> i < j) \<and> (ord (k i) (k j) = 0 \<longleftrightarrow> i = j)"
    using up [of i j] down [of j i] assms(3,4) comparator.ord_refl [OF assms(1), of "k i"]
    by cases auto
  then show "ord (k i) (k j) < 0 \<longleftrightarrow> i < j" "ord (k i) (k j) = 0 \<longleftrightarrow> i = j" by blast+
qed

definition panic_ops :: "(nat \<Rightarrow> 'k) \<Rightarrow> 'k op list" where
  "panic_ops k = [OpInsert 0 (k 4), OpInsert 1 (k 0), OpInsert 2 (k 2), OpInsert 3 (k 1), OpDelete (k 4),
     OpInsert 4 (k 3), OpInsert 5 (k 6), OpInsert 6 (k 5), OpDelete (k 3), OpDelete (k 6), OpDelete (k 2)]"

lemma panic_tree:
  assumes "\<And>i j. i < 7 \<Longrightarrow> j < 7 \<Longrightarrow> ord (k i) (k j) < 0 \<longleftrightarrow> i < (j :: nat)"
    and "\<And>i j. i < 7 \<Longrightarrow> j < 7 \<Longrightarrow> ord (k i) (k j) = 0 \<longleftrightarrow> i = j"
  shows "abs_run (tree_op ord) (panic_ops k) Lf = None \<and> abs_fresh (tree_op ord) (\<lambda>t. set (addrs t)) (panic_ops k) Lf"
  by (simp add: panic_ops_def key_in_def ins_tree_def del_any_def del_gap_def assms)

text \<open>C21. Under every comparison function that orders seven keys, a run of eleven operations on them, each
  insertion with a fresh chunk, ends in a nil dereference inside \<open>Delete\<close>: once the black heights differ, the
  repair loop meets a sibling that is \<open>LEAF\<close>.\<close>

theorem Delete_panics:
  assumes "comparator cmp ord" and "\<forall>i j. i < j \<and> j < 7 \<longrightarrow> ord (k i) (k j) < 0" and "leaf m = LEAF_node"
  shows "run_ops (Insert cmp) (FindKey cmp) (Delete cmp)
     [OpInsert 0 (k 4), OpInsert 1 (k 0), OpInsert 2 (k 2), OpInsert 3 (k 1), OpDelete (k 4), OpInsert 4 (k 3),
      OpInsert 5 (k 6), OpInsert 6 (k 5), OpDelete (k 3), OpDelete (k 6), OpDelete (k (2 :: nat))] (InitTree m)
     = panic NilDeref"
proof -
  from panic_tree [of ord k, OF ascending_ord [OF assms(1,2)]]
  have "abs_run (tree_op ord) (panic_ops k) Lf = None" "abs_fresh (tree_op ord) (\<lambda>t. set (addrs t)) (panic_ops k) Lf" by simp_all
  with comparator.fresh_run_from_InitTree [OF assms(1,3), of "panic_ops k"]
  show ?thesis by (simp add: panic_ops_def)
qed

theorem Delete_panics_witness:
  "run_query [OpInsert 0 (q 4), OpInsert 1 (q 0), OpInsert 2 (q 2), OpInsert 3 (q 1), OpDelete (q 4), OpInsert 4 (q 3),
      OpInsert 5 (q 6), OpInsert 6 (q 5), OpDelete (q 3), OpDelete (q 6), OpDelete (q 2)] (InitTree init_store)
     = panic NilDeref"
proof -
  have "query_ord (q (of_nat i)) (q (of_nat j)) < 0" if "i < j" "j < 7" for i j
    using that by (simp add: query_ord_def q_def word_less_nat_alt unat_of_nat word_unat_eq_iff)
  with Delete_panics [OF query.comparator_axioms, of "\<lambda>i. q (of_nat i)" init_store] show ?thesis
    by (simp add: init_store_def)
qed

section \<open>The repository's test\<close>

text \<open>The repository's own test of the tree reports no error, whether the third insertion gets
  the chunk that the deletion freed or a new one.\<close>

theorem TestRBtree_passes:
  "TestRBtree 0 1 1 init_store = ret [] \<and> TestRBtree 0 1 2 init_store = ret []"
proof
  show "TestRBtree 0 1 1 init_store = ret []"
    by (rule result_of_iff [THEN iffD1]) code_simp
  show "TestRBtree 0 1 2 init_store = ret []"
    by (rule result_of_iff [THEN iffD1]) code_simp
qed

end
