(* ===== verification/Util.thy ===== *)
theory Util
  imports Prelude
begin

unbundle bit_operations_syntax

text \<open>
  \<open>tcpip/util/util.go\<close>: byte order, little-endian reads from slices, dotted-decimal parsing and
  the Internet checksum. Slices are lists of bytes; the reads panic where Go's indexing does.
\<close>

section \<open>Byte order\<close>

definition Ntohs :: "u16 \<Rightarrow> u16" where
  "Ntohs a = push_bit 8 (a AND 0xff) OR drop_bit 8 a"

definition Ntohl :: "u32 \<Rightarrow> u32" where
  "Ntohl a = push_bit 24 (a AND 0xff) OR (push_bit 8 (a AND 0xff00) AND 0xff0000)
     OR (drop_bit 8 (a AND 0xff0000) AND 0xff00) OR drop_bit 24 a"

definition Htons :: "u16 \<Rightarrow> u16" where
  "Htons a = push_bit 8 (a AND 0xff) OR drop_bit 8 a"

definition Htonl :: "u32 \<Rightarrow> u32" where
  "Htonl a = push_bit 24 (a AND 0xff) OR (push_bit 8 (a AND 0xff00) AND 0xff0000)
     OR (drop_bit 8 (a AND 0xff0000) AND 0xff00) OR drop_bit 24 a"

text \<open>The interface the header code relies on: two conversions, inverse to each other.\<close>

locale wire_order =
  fixes to_host :: "'a::len word \<Rightarrow> 'a word" and to_wire :: "'a word \<Rightarrow> 'a word"
  assumes host_wire: "to_host (to_wire x) = x"
    and wire_host: "to_wire (to_host x) = x"
begin

lemma to_wire_inject: "to_wire x = to_wire y \<longleftrightarrow> x = y"
  by (metis host_wire)

lemma to_host_inject: "to_host x = to_host y \<longleftrightarrow> x = y"
  by (metis wire_host)

lemma to_wire_eq_iff: "to_wire x = y \<longleftrightarrow> x = to_host y"
  by (metis host_wire wire_host)

text \<open>Arithmetic on a field kept in network order, done twice, is arithmetic done once.\<close>

lemma advance_twice: "to_wire (to_host (to_wire (to_host s + m)) + n) = to_wire (to_host s + (m + n))"
  by (simp add: host_wire add.assoc)

end

lemma byte_masks:
  "(255 :: int) = mask 8" "(65280 :: int) = push_bit 8 (mask 8)"
  "(16711680 :: int) = push_bit 16 (mask 8)" "(65535 :: int) = mask 16"
  by (simp_all add: mask_eq_exp_minus_1 push_bit_eq_mult)

lemma bit_byte_masks [simp]:
  "bit (255 :: int) n \<longleftrightarrow> n < 8"
  "bit (65280 :: int) n \<longleftrightarrow> 8 \<le> n \<and> n < 16"
  "bit (16711680 :: int) n \<longleftrightarrow> 16 \<le> n \<and> n < 24"
  "bit (65535 :: int) n \<longleftrightarrow> n < 16"
  unfolding byte_masks by (auto simp: bit_simps)

lemma bit_Ntohs: "bit (Ntohs a) n \<longleftrightarrow> n < 16 \<and> bit a (if n < 8 then n + 8 else n - 8)"
  unfolding Ntohs_def bit_or_iff bit_and_iff bit_push_bit_iff bit_drop_bit_eq
  by (auto simp: add.commute dest: bit_imp_le_length)

lemma Htons_Ntohs: "Htons = Ntohs" and Htonl_Ntohl: "Htonl = Ntohl"
  by (simp_all add: fun_eq_iff Htons_def Ntohs_def Htonl_def Ntohl_def)

lemma bit_Ntohl:
  "bit (Ntohl a) n \<longleftrightarrow> n < 32 \<and>
     bit a (if n < 8 then n + 24 else if n < 16 then n + 8 else if n < 24 then n - 8 else n - 24)"
  unfolding Ntohl_def bit_or_iff bit_and_iff bit_push_bit_iff bit_drop_bit_eq
  by (auto simp: add.commute dest: bit_imp_le_length)

lemma Ntohs_Ntohs: "Ntohs (Ntohs a) = a"
  by (rule bit_word_eqI) (auto simp: bit_Ntohs)

lemma Ntohl_Ntohl: "Ntohl (Ntohl a) = a"
  by (rule bit_word_eqI) (auto simp: bit_Ntohl)

interpretation short: wire_order Ntohs Htons
  by unfold_locales (simp_all add: Htons_Ntohs Ntohs_Ntohs)

interpretation long: wire_order Ntohl Htonl
  by unfold_locales (simp_all add: Htonl_Ntohl Ntohl_Ntohl)

section \<open>Little-endian reads\<close>

definition Byte2uint16 :: "bytes \<Rightarrow> u16 go" where
  "Byte2uint16 b = bnd (bget b 1) (\<lambda>b1. bnd (bget b 0) (\<lambda>b0.
     ret (push_bit 8 (ucast b1) OR ucast b0)))"

definition Byte2int16 :: "bytes \<Rightarrow> int go" where
  "Byte2int16 b = bnd (bget b 1) (\<lambda>b1. bnd (bget b 0) (\<lambda>b0.
     ret (sint ((push_bit 8 (ucast b1) OR ucast b0) :: u16))))"

definition Byte2uint32 :: "bytes \<Rightarrow> u32 go" where
  "Byte2uint32 b = bnd (bget b 3) (\<lambda>b3. bnd (bget b 2) (\<lambda>b2. bnd (bget b 1) (\<lambda>b1. bnd (bget b 0) (\<lambda>b0.
     ret (push_bit 24 (ucast b3) OR push_bit 16 (ucast b2) OR push_bit 8 (ucast b1) OR ucast b0)))))"

definition Byte2int32 :: "bytes \<Rightarrow> int go" where
  "Byte2int32 b = bnd (bget b 3) (\<lambda>b3. bnd (bget b 2) (\<lambda>b2. bnd (bget b 1) (\<lambda>b1. bnd (bget b 0) (\<lambda>b0.
     ret (sint ((push_bit 24 (ucast b3) OR push_bit 16 (ucast b2) OR push_bit 8 (ucast b1) OR ucast b0) :: u32))))))"

text \<open>The bytes of a value as the host stores it, lowest first.\<close>

definition le16 :: "u16 \<Rightarrow> bytes" where
  "le16 v = [ucast v, ucast (drop_bit 8 v)]"

definition le32 :: "u32 \<Rightarrow> bytes" where
  "le32 v = [ucast v, ucast (drop_bit 8 v), ucast (drop_bit 16 v), ucast (drop_bit 24 v)]"

lemma length_le [simp]: "length (le16 v) = 2" "length (le32 w) = 4"
  by (simp_all add: le16_def le32_def)

lemma ucast_join16 [simp]:
  "push_bit 8 (ucast (ucast (drop_bit 8 v) :: u8)) OR ucast (ucast v :: u8) = (v :: u16)"
  by (rule bit_word_eqI)
    (auto simp: bit_or_iff bit_push_bit_iff bit_ucast_iff bit_drop_bit_eq not_less dest: bit_imp_le_length)

lemma four_bytes: "n < LENGTH(32) \<Longrightarrow>
    n < 8 \<or> (\<exists>m < 8. n = 8 + m) \<or> (\<exists>m < 8. n = 16 + m) \<or> (\<exists>m < 8. n = (24 :: nat) + m)"
  by simp presburger

lemma ucast_join32 [simp]:
  "push_bit 24 (ucast (ucast (drop_bit 24 v) :: u8)) OR push_bit 16 (ucast (ucast (drop_bit 16 v) :: u8))
     OR push_bit 8 (ucast (ucast (drop_bit 8 v) :: u8)) OR ucast (ucast v :: u8) = (v :: u32)"
proof (rule bit_word_eqI)
  fix n
  assume "n < LENGTH(32)"
  then consider "n < 8" | m where "n = m + 8" "m < 8" | m where "n = m + 16" "m < 8"
    | m where "n = m + 24" "m < 8"
    by (metis add.commute four_bytes)
  then show "bit (push_bit 24 (ucast (ucast (drop_bit 24 v) :: u8)) OR push_bit 16 (ucast (ucast (drop_bit 16 v) :: u8))
     OR push_bit 8 (ucast (ucast (drop_bit 8 v) :: u8)) OR ucast (ucast v :: u8) :: u32) n = bit v n"
    by cases (simp_all add: bit_or_iff bit_push_bit_iff bit_ucast_iff bit_drop_bit_eq add.commute)
qed

lemma Byte2uint16_le: "Byte2uint16 (le16 v @ rest) = ret v"
  by (simp add: Byte2uint16_def le16_def)

lemma Byte2uint32_le: "Byte2uint32 (le32 v @ rest) = ret v"
  by (simp add: Byte2uint32_def le32_def)

lemma Byte2int16_le: "Byte2int16 (le16 v @ rest) = ret (sint v)"
  by (simp add: Byte2int16_def le16_def)

lemma Byte2int32_le: "Byte2int32 (le32 v @ rest) = ret (sint v)"
  by (simp add: Byte2int32_def le32_def)

section \<open>Dotted decimal\<close>

type_synonym gostring = string

definition is_digit :: "char \<Rightarrow> bool" where
  "is_digit c \<longleftrightarrow> 48 \<le> (of_char c :: nat) \<and> (of_char c :: nat) \<le> 57"

text \<open>\<open>\d{1,3}\<close>, greedy: up to \<open>n\<close> digits, and what follows them. A shorter match could never
  continue with the dot the pattern wants next, so the engine does not backtrack.\<close>

fun take_digits :: "nat \<Rightarrow> string \<Rightarrow> string \<times> string" where
  "take_digits 0 s = ([], s)"
| "take_digits (Suc n) [] = ([], [])"
| "take_digits (Suc n) (c # s) =
     (if is_digit c then (let (d, r) = take_digits n s in (c # d, r)) else ([], c # s))"

definition octet :: "string \<Rightarrow> (string \<times> string) option" where
  "octet s = (let (d, r) = take_digits 3 s in if d = [] then None else Some (d, r))"

fun dot :: "string \<Rightarrow> string option" where
  "dot (c # s) = (if c = CHR ''.'' then Some s else None)"
| "dot [] = None"

text \<open>The four groups of \<open>FindStringSubmatch\<close> for the pattern of \<open>Ip2long\<close>, which is anchored at
  the start only.\<close>

definition submatch :: "string \<Rightarrow> (string \<times> string \<times> string \<times> string) option" where
  "submatch s =
     Option.bind (octet s) (\<lambda>(d1, r). Option.bind (dot r) (\<lambda>r.
     Option.bind (octet r) (\<lambda>(d2, r). Option.bind (dot r) (\<lambda>r.
     Option.bind (octet r) (\<lambda>(d3, r). Option.bind (dot r) (\<lambda>r.
     Option.bind (octet r) (\<lambda>(d4, r). Some (d1, d2, d3, d4))))))))"

text \<open>\<open>strconv.Atoi\<close> on the digits of a group, which never fails.\<close>

definition Atoi :: "string \<Rightarrow> nat" where
  "Atoi s = foldl (\<lambda>n c. 10 * n + (of_char c - 48)) 0 s"

definition Ip2long :: "gostring \<Rightarrow> u32" where
  "Ip2long ipstr =
     (case submatch ipstr of None \<Rightarrow> 0
      | Some (g1, g2, g3, g4) \<Rightarrow>
          (let ip4 = Atoi g1; ip3 = Atoi g2; ip2 = Atoi g3; ip1 = Atoi g4 in
           if ip1 > 255 \<or> ip2 > 255 \<or> ip3 > 255 \<or> ip4 > 255 then 0
           else of_nat (ip1 * 0x1000000) + of_nat (ip2 * 0x10000) + of_nat (ip3 * 0x100) + of_nat ip4))"

section \<open>Checksum\<close>

text \<open>The accumulation loop: pairs of bytes, the last byte of an odd-length slice left out.\<close>

fun chksum_loop :: "u32 \<Rightarrow> bytes \<Rightarrow> u32" where
  "chksum_loop chksum (msb # lsb # data) =
     chksum_loop (chksum + ucast ((ucast lsb :: u16) + push_bit 8 (ucast msb))) data"
| "chksum_loop chksum data = chksum"

definition Checksum :: "bytes \<Rightarrow> u16" where
  "Checksum data =
     (let chksum = chksum_loop 0 data;
          chksum = (drop_bit 16 chksum AND 0xFFFF) + (chksum AND 0xFFFF)
      in ucast (0xFFFF AND NOT chksum))"

definition VerifyChecksum :: "bytes \<Rightarrow> bool" where
  "VerifyChecksum data \<longleftrightarrow> Checksum data = 0"

text \<open>The sum of the 16-bit words, most significant byte first, as a number.\<close>

fun word_sum :: "bytes \<Rightarrow> nat" where
  "word_sum (msb # lsb # data) = 256 * unat msb + unat lsb + word_sum data"
| "word_sum data = 0"

text \<open>RFC 1071: carries are folded back until none is left.\<close>

function fold16 :: "nat \<Rightarrow> nat" where
  "fold16 n = (if n < 65536 then n else fold16 (n div 65536 + n mod 65536))"
  by pat_completeness auto
termination
proof (relation "measure id")
  fix n :: nat
  assume "\<not> n < 65536"
  then have "n div 65536 > 0" by (simp add: div_greater_zero_iff)
  moreover have "65536 * (n div 65536) + n mod 65536 = n" by (rule mult_div_mod_eq)
  ultimately show "(n div 65536 + n mod 65536, n) \<in> measure id"
    unfolding in_measure id_apply by linarith
qed simp

declare fold16.simps [simp del]

definition rfc1071 :: "bytes \<Rightarrow> nat" where
  "rfc1071 data = 65535 - fold16 (word_sum data)"

text \<open>RFC 1071 pads data of odd length with a zero byte.\<close>

definition internet_checksum :: "bytes \<Rightarrow> nat" where
  "internet_checksum data = rfc1071 (if even (length data) then data else data @ [0])"

text \<open>\<open>Checksum\<close> leaves an odd last byte out.\<close>

lemma chksum_loop_odd: "even (length data) \<Longrightarrow> chksum_loop c (data @ [b]) = chksum_loop c data"
  by (induction c data rule: chksum_loop.induct) auto

lemma Checksum_odd: "even (length data) \<Longrightarrow> Checksum (data @ [b]) = Checksum data"
  by (simp add: Checksum_def chksum_loop_odd)

lemma unat_u8 [simp]: "unat (b :: u8) < 256"
  using unsigned_less [of b] by simp

lemma unat_u16: "unat (b :: u16) < 65536"
  using unsigned_less [of b] by simp

lemma unat_ucast_le: "LENGTH('a) \<le> LENGTH('b) \<Longrightarrow> unat (ucast (x :: 'a::len word) :: 'b::len word) = unat x"
  by (simp add: unsigned_ucast_eq take_bit_eq_mod)
    (meson le_less_trans less_le_trans linorder_not_less mod_less one_le_numeral power_increasing_iff
      unsigned_less order_less_le_trans power_increasing rel_simps(2))

lemma unat_word_pair:
  "unat ((ucast lsb :: u16) + push_bit 8 (ucast (msb :: u8))) = 256 * unat msb + unat (lsb :: u8)"
proof -
  have "unat msb * 256 < 65536" using unat_u8 [of msb] by linarith
  then have "unat (push_bit 8 (ucast msb) :: u16) = 256 * unat msb"
    by (simp add: unsigned_push_bit_eq unat_ucast_le take_bit_eq_mod) (simp add: push_bit_eq_mult)
  moreover have "256 * unat msb + unat lsb < 65536"
    using unat_u8 [of msb] unat_u8 [of lsb] by linarith
  ultimately show ?thesis
    by (simp add: unat_word_ariths unat_ucast_le)
qed

lemma word_sum_bound: "word_sum data \<le> 65535 * (length data div 2)"
proof (induction data rule: word_sum.induct)
  case (1 msb lsb data)
  have "256 * unat msb + unat lsb \<le> 65535"
    using unat_u8 [of msb] unat_u8 [of lsb] by linarith
  with 1 show ?case by simp
qed simp_all

lemma chksum_loop_sum:
  "unat c + word_sum data < 2 ^ 32 \<Longrightarrow> unat (chksum_loop c data) = unat c + word_sum data"
proof (induction c data rule: chksum_loop.induct)
  case (1 c msb lsb data)
  have "unat (c + ucast w) = unat c + unat w" if "unat c + unat w < 2 ^ 32" for w :: u16
    using that by (simp add: unat_word_ariths unat_ucast_le)
  from this [of "ucast lsb + push_bit 8 (ucast msb)"] "1.prems"
  have "unat (c + ucast ((ucast lsb :: u16) + push_bit 8 (ucast msb))) = unat c + (256 * unat msb + unat lsb)"
    by (simp only: unat_word_pair) simp
  with 1 show ?case by simp
qed simp_all

lemma unat_and_mask16: "unat (x AND 0xFFFF :: u32) = unat x mod 65536"
proof -
  have "(0xFFFF :: u32) = mask 16" by (simp add: mask_eq_exp_minus_1)
  then have "x AND 0xFFFF = take_bit 16 x" by (simp add: take_bit_eq_mask)
  moreover have "unat (take_bit 16 x) = take_bit 16 (unat x)" by (rule unsigned_take_bit_eq)
  ultimately show ?thesis by (simp only: take_bit_eq_mod) simp
qed

lemma unat_minus_1_u16: "unat (- 1 :: u16) = 65535"
  by (simp add: unsigned_minus_1_eq_mask mask_eq_exp_minus_1)

lemma unat_low_complement: "unat (ucast (0xFFFF AND NOT (x :: u32)) :: u16) = 65535 - unat x mod 65536"
proof -
  have "(ucast (0xFFFF AND NOT x) :: u16) = NOT (ucast x)"
    by (rule bit_word_eqI) (auto simp: bit_ucast_iff bit_and_iff bit_not_iff)
  also have "\<dots> = - 1 - ucast x" by (simp add: not_eq_complement)
  also have "unat (- 1 - ucast x :: u16) = 65535 - unat (ucast x :: u16)"
    using unat_u16 [of "ucast x"] by (simp add: unat_sub_if_size word_le_nat_alt word_size unat_minus_1_u16)
  also have "unat (ucast x :: u16) = unat x mod 65536"
    by (simp add: unsigned_ucast_eq take_bit_eq_mod)
  finally show ?thesis .
qed

text \<open>The checksum in numbers: one fold of the carry, then the complement of the low 16 bits.\<close>

lemma Checksum_value:
  assumes "word_sum data < 2 ^ 32"
  shows "unat (Checksum data) = 65535 - (word_sum data div 65536 + word_sum data mod 65536) mod 65536"
proof -
  let ?c = "chksum_loop 0 data"
  have c: "unat ?c = word_sum data" using chksum_loop_sum [of 0 data] assms by simp
  have hi: "unat (drop_bit 16 ?c) = word_sum data div 65536"
    using unat_drop_bit_eq [of 16 ?c] by (simp only: c) (simp add: drop_bit_eq_div)
  have small: "word_sum data div 65536 < 65536" using assms by simp
  have "unat ((drop_bit 16 ?c AND 0xFFFF) + (?c AND 0xFFFF))
      = word_sum data div 65536 + word_sum data mod 65536"
    using small by (simp add: unat_word_ariths unat_and_mask16 hi c)
  then show ?thesis
    by (simp add: Checksum_def Let_def unat_low_complement)
qed

text \<open>One fold is enough exactly when it leaves no carry.\<close>

definition folds_once :: "bytes \<Rightarrow> bool" where
  "folds_once data \<longleftrightarrow> word_sum data div 65536 + word_sum data mod 65536 < 65536"

lemma word_sum_packet:
  assumes "length data < 65536"
  shows "word_sum data < 2 ^ 31"
proof -
  have "length data div 2 \<le> 32767" using assms by linarith
  then have "65535 * (length data div 2) \<le> 65535 * 32767" by (rule mult_le_mono2)
  with word_sum_bound [of data] have "word_sum data \<le> 65535 * 32767" by linarith
  then show ?thesis by simp
qed

lemma complement_carry: "65536 \<le> (m :: nat) \<Longrightarrow> m < 131072 - 1 \<Longrightarrow> 65535 - (m - 65536) = 65535 - (m - 65535) + 1"
  by linarith

text \<open>A sum of two halfwords that carries has a high part of one.\<close>

lemma carry_one:
  assumes "65536 \<le> (m :: nat)" "m < 131072"
  shows "m div 65536 = 1" "m mod 65536 = m - 65536"
proof -
  show "m div 65536 = 1" using assms by (intro div_nat_eqI) simp_all
  show "m mod 65536 = m - 65536" using assms by (simp add: le_mod_geq)
qed

lemma high_low:
  assumes "(d :: nat) < 65536"
  shows "(65536 * h + d) div 65536 = h" "(65536 * h + d) mod 65536 = d"
  using assms by simp_all

lemma fold16_small: "n < 65536 \<Longrightarrow> fold16 n = n"
  by (simp add: fold16.simps)

lemma halves_bound:
  fixes n :: nat
  assumes "n < 2 ^ 32"
  shows "n div 65536 + n mod 65536 < 131072 - 1"
proof -
  obtain h where h: "h = n div 65536" "h < 65536" using assms by simp
  obtain d where d: "d = n mod 65536" "d < 65536" by simp
  from h(2) d(2) have "h + d < 131072 - 1" by linarith
  then show ?thesis by (simp only: h(1) d(1))
qed

lemma fold16_carry:
  assumes "65536 \<le> m" "m < 131072 - 1"
  shows "fold16 m = m - 65535"
proof -
  have "m div 65536 = 1" "m mod 65536 = m - 65536" using assms by (simp_all add: carry_one)
  then have "fold16 m = fold16 (1 + (m - 65536))" using assms(1) by (subst fold16.simps) simp
  also have "1 + (m - 65536) = m - 65535" using assms(1) by linarith
  also have "fold16 (m - 65535) = m - 65535" using assms by (intro fold16_small) linarith
  finally show ?thesis .
qed

lemma fold16_value:
  assumes "n < 2 ^ 32"
  shows "fold16 n = (let m = n div 65536 + n mod 65536 in if m < 65536 then m else m - 65535)"
proof (cases "n < 65536")
  case True
  then show ?thesis by (simp add: fold16_small)
next
  case False
  obtain m where m: "m = n div 65536 + n mod 65536" by simp
  have "fold16 n = fold16 m" using False by (simp add: fold16.simps [of n] m)
  moreover have "m < 131072 - 1" using halves_bound [OF assms] by (simp only: m)
  ultimately show ?thesis
    by (simp add: Let_def m [symmetric] fold16_small fold16_carry not_less)
qed

lemma word_sum_update:
  assumes "even i" "Suc i < length data"
  shows "word_sum (data[i := m, Suc i := l]) + (256 * unat (data ! i) + unat (data ! Suc i))
       = word_sum data + (256 * unat m + unat l)"
  using assms
proof (induction data arbitrary: i rule: word_sum.induct)
  case (1 msb lsb data)
  show ?case
  proof (cases i)
    case (Suc j)
    with "1.prems" obtain k where "i = Suc (Suc k)" by (cases j) auto
    with 1 show ?thesis by simp
  qed simp
qed simp_all

text \<open>The 16-bit value stored most significant byte first.\<close>

definition store_be16 :: "nat \<Rightarrow> u16 \<Rightarrow> bytes \<Rightarrow> bytes" where
  "store_be16 i v data = data[i := ucast (drop_bit 8 v), Suc i := ucast v]"

lemma unat_be16: "256 * unat (ucast (drop_bit 8 v) :: u8) + unat (ucast v :: u8) = unat (v :: u16)"
proof -
  have "unat v div 256 < 256" using unat_u16 [of v] by simp
  moreover have "unat (drop_bit 8 v) = unat v div 256"
    by (simp only: unat_drop_bit_eq) (simp add: drop_bit_eq_div)
  ultimately show ?thesis
    by (simp add: unsigned_ucast_eq take_bit_eq_mod mult_div_mod_eq)
qed

lemma word_sum_store:
  assumes "even i" "Suc i < length data" "data ! i = 0" "data ! Suc i = 0"
  shows "word_sum (store_be16 i v data) = word_sum data + unat v"
  using word_sum_update [OF assms(1,2), of "ucast (drop_bit 8 v)" "ucast v"] assms(3,4) unat_be16 [of v]
  by (simp add: store_be16_def)

lemma VerifyChecksum_iff:
  assumes "length data < 65536"
  shows "VerifyChecksum data \<longleftrightarrow> (word_sum data div 65536 + word_sum data mod 65536) mod 65536 = 65535"
proof -
  let ?m = "(word_sum data div 65536 + word_sum data mod 65536) mod 65536"
  have "?m < 65536" by simp
  moreover have "unat (Checksum data) = 65535 - ?m"
    using word_sum_packet [OF assms] by (intro Checksum_value) simp
  moreover have "Checksum data = 0 \<longleftrightarrow> unat (Checksum data) = 0" by (simp add: unat_eq_0)
  ultimately show ?thesis unfolding VerifyChecksum_def by linarith
qed

lemma complement_halves:
  fixes hi lo :: nat
  assumes "hi < 32768" "lo < 65536"
  shows "65536 * hi + lo + (65535 - (hi + lo) mod 65536)
       = 65536 * (if hi + lo < 65536 then hi else Suc hi) + (65535 - hi)"
proof (cases "hi + lo < 65536")
  case True
  then have "(hi + lo) mod 65536 = hi + lo" by simp
  with True show ?thesis by simp
next
  case False
  then have "(hi + lo) mod 65536 = hi + lo - 65536" using assms by (intro carry_one) simp_all
  with False assms show ?thesis by simp
qed

lemma one_fold_complement:
  fixes s :: nat
  assumes "s < 2 ^ 31" "u = s + (65535 - (s div 65536 + s mod 65536) mod 65536)"
  shows "(u div 65536 + u mod 65536) mod 65536 = 65535 \<longleftrightarrow> s div 65536 + s mod 65536 < 65536"
proof -
  obtain hi where hi: "hi = s div 65536" "hi < 32768" using assms(1) by simp
  obtain lo where lo: "lo = s mod 65536" "lo < 65536" by simp
  have s: "s = 65536 * hi + lo" unfolding hi lo by (rule mult_div_mod_eq [symmetric])
  let ?h = "if hi + lo < 65536 then hi else Suc hi"
  have "u = 65536 * ?h + (65535 - hi)"
    using complement_halves [OF hi(2) lo(2)]
    unfolding assms(2) s [symmetric] hi(1) [symmetric] lo(1) [symmetric] .
  then have "u div 65536 = ?h" "u mod 65536 = 65535 - hi"
    using high_low [of "65535 - hi" ?h] by simp_all
  then show ?thesis unfolding hi(1) [symmetric] lo(1) [symmetric] using hi(2) by simp
qed

lemma Checksum_stored_verifies:
  assumes "length data < 65536" "even i" "Suc i < length data" "data ! i = 0" "data ! Suc i = 0"
  shows "VerifyChecksum (store_be16 i (Checksum data) data) \<longleftrightarrow> folds_once data"
proof -
  have s: "word_sum data < 2 ^ 31" by (rule word_sum_packet [OF assms(1)])
  then have "word_sum data < 2 ^ 32" by simp
  then have "word_sum (store_be16 i (Checksum data) data)
      = word_sum data + (65535 - (word_sum data div 65536 + word_sum data mod 65536) mod 65536)"
    by (simp only: word_sum_store [OF assms(2-5)] Checksum_value)
  moreover have "length (store_be16 i (Checksum data) data) < 65536"
    using assms(1) by (simp add: store_be16_def)
  ultimately show ?thesis
    unfolding folds_once_def using one_fold_complement [OF s] VerifyChecksum_iff by blast
qed

lemma Checksum_vs_rfc1071:
  assumes "length data < 65536"
  shows "unat (Checksum data) = rfc1071 data + (if folds_once data then 0 else 1)"
proof -
  obtain m where m: "m = word_sum data div 65536 + word_sum data mod 65536" by simp
  have s: "word_sum data < 2 ^ 32" using word_sum_packet [OF assms] by simp
  have v: "unat (Checksum data) = 65535 - m mod 65536" using Checksum_value [OF s] by (simp only: m)
  have f: "fold16 (word_sum data) = (if m < 65536 then m else m - 65535)"
    using fold16_value [OF s] by (simp only: m Let_def)
  have b: "m < 131072 - 1" using halves_bound [OF s] by (simp only: m)
  have once: "folds_once data \<longleftrightarrow> m < 65536" by (simp only: folds_once_def m)
  show ?thesis
    using v f b carry_one(2) [of m] complement_carry [of m]
    by (cases "m < 65536") (simp_all add: rfc1071_def once)
qed

end
