(* ===== verification/Slice.thy ===== *)
theory Slice
  imports Util
begin

unbundle bit_operations_syntax

text \<open>
  Go slices of bytes and headers laid over them. A slice is the memory from its first byte to the
  end of its capacity, and its length: indexing is bounded by the length, slicing by the capacity.
  The code casts a pointer into a packet's buffer to a header struct and assigns its fields; such
  a pointer is an offset into the buffer's memory, the struct's layout is a pair of functions
  between the record and its bytes (64-bit little-endian, as \<open>gc\<close> lays structs out), and a field
  assignment through the pointer replaces the bytes of the struct. The locale \<open>overlay\<close> says what
  the layout functions owe, and proves once what loads and assignments through them do.
\<close>

section \<open>Slices\<close>

record go_slice =
  mem :: bytes
  len :: nat

definition at_index :: "go_slice \<Rightarrow> nat \<Rightarrow> u8 go" where
  "at_index b i =
     (if i < len b then if i < length (mem b) then ret (mem b ! i) else panic WildPointer
      else panic IndexRange)"

definition put_index :: "go_slice \<Rightarrow> nat \<Rightarrow> u8 \<Rightarrow> go_slice go" where
  "put_index b i v =
     (if i < len b then if i < length (mem b) then ret (b\<lparr>mem := (mem b)[i := v]\<rparr>) else panic WildPointer
      else panic IndexRange)"

text \<open>\<open>b[i:j]\<close>; \<open>b[i:]\<close> is \<open>b[i:len(b)]\<close>.\<close>

definition subslice :: "go_slice \<Rightarrow> nat \<Rightarrow> nat \<Rightarrow> go_slice go" where
  "subslice b i j =
     (if i \<le> j \<and> j \<le> length (mem b) then ret \<lparr>mem = drop i (mem b), len = j - i\<rparr>
      else panic IndexRange)"

definition contents :: "go_slice \<Rightarrow> bytes" where
  "contents b = take (len b) (mem b)"

definition whole :: "bytes \<Rightarrow> go_slice" where
  "whole bs = \<lparr>mem = bs, len = length bs\<rparr>"

lemma whole_sel [simp]: "mem (whole bs) = bs" "len (whole bs) = length bs" "contents (whole bs) = bs"
  by (simp_all add: whole_def contents_def)

lemma put_index_ok [simp]:
  "i < len b \<Longrightarrow> i < length (mem b) \<Longrightarrow> put_index b i v = ret (b\<lparr>mem := (mem b)[i := v]\<rparr>)"
  by (simp add: put_index_def)

lemma at_index_ok [simp]: "i < len b \<Longrightarrow> i < length (mem b) \<Longrightarrow> at_index b i = ret (mem b ! i)"
  by (simp add: at_index_def)

lemma subslice_ok [simp]:
  "i \<le> j \<Longrightarrow> j \<le> length (mem b) \<Longrightarrow> subslice b i j = ret \<lparr>mem = drop i (mem b), len = j - i\<rparr>"
  by (simp add: subslice_def)

section \<open>Headers over memory\<close>

text \<open>An unsafe pointer into a buffer: \<open>nil\<close>, or an offset into its memory.\<close>

type_synonym ptr = "nat option"

definition load :: "nat \<Rightarrow> (bytes \<Rightarrow> 'h) \<Rightarrow> go_slice \<Rightarrow> ptr \<Rightarrow> 'h go" where
  "load n dec b p =
     (case p of None \<Rightarrow> panic NilDeref
      | Some a \<Rightarrow> if a + n \<le> length (mem b) then ret (dec (take n (drop a (mem b))))
                  else panic WildPointer)"

definition assign ::
  "nat \<Rightarrow> (bytes \<Rightarrow> 'h) \<Rightarrow> ('h \<Rightarrow> bytes) \<Rightarrow> go_slice \<Rightarrow> ptr \<Rightarrow> ('h \<Rightarrow> 'h) \<Rightarrow> go_slice go" where
  "assign n dec enc b p f =
     (case p of None \<Rightarrow> panic NilDeref
      | Some a \<Rightarrow> if a + n \<le> length (mem b)
                  then ret (b\<lparr>mem := take a (mem b) @ enc (f (dec (take n (drop a (mem b)))))
                                      @ drop (a + n) (mem b)\<rparr>)
                  else panic WildPointer)"

lemma splice_id: "take a m @ take n (drop a m) @ drop (a + n) m = m"
  by (metis add.commute append_take_drop_id drop_drop)

locale overlay =
  fixes size_of :: nat and dec :: "bytes \<Rightarrow> 'h" and enc :: "'h \<Rightarrow> bytes"
  assumes length_enc: "length (enc h) = size_of"
    and dec_enc: "dec (enc h) = h"
    and enc_dec: "length bs = size_of \<Longrightarrow> enc (dec bs) = bs"
begin

lemma load_ok:
  "a + size_of \<le> length (mem b) \<Longrightarrow> load size_of dec b (Some a) = ret (dec (take size_of (drop a (mem b))))"
  by (simp add: load_def)

lemma load_assign:
  "assign size_of dec enc b p f = ret b' \<Longrightarrow> \<exists>h. load size_of dec b p = ret h \<and> load size_of dec b' p = ret (f h)"
  by (cases p) (auto simp: assign_def load_def length_enc dec_enc split: if_split_asm)

text \<open>Two assignments through the same pointer are one.\<close>

lemma assign_assign:
  "bnd (assign size_of dec enc b p f) (\<lambda>b. assign size_of dec enc b p g) = assign size_of dec enc b p (\<lambda>h. g (f h))"
  by (cases p) (auto simp: assign_def length_enc dec_enc)

lemma assign_id: "load size_of dec b p = ret h \<Longrightarrow> assign size_of dec enc b p (\<lambda>h. h) = ret b"
  by (cases p) (auto simp: assign_def load_def enc_dec splice_id split: if_split_asm)

text \<open>The rewrite rule for an assignment to a struct that stands between \<open>A\<close> and \<open>T\<close>.\<close>

lemma assign_at:
  "length A = a \<Longrightarrow> assign size_of dec enc (b\<lparr>mem := A @ enc h @ T\<rparr>) (Some a) f
     = ret (b\<lparr>mem := A @ enc (f h) @ T\<rparr>)"
  by (simp add: assign_def length_enc dec_enc)

lemma load_at:
  "length A = a \<Longrightarrow> load size_of dec (b\<lparr>mem := A @ enc h @ T\<rparr>) (Some a) = ret h"
  by (simp add: load_def length_enc dec_enc)

text \<open>Any memory of the right size is a struct.\<close>

lemma obtain_struct:
  assumes "length bs = size_of"
  obtains h where "bs = enc h"
  using enc_dec [OF assms] by metis

lemma assign_frame:
  assumes "assign size_of dec enc b (Some a) f = ret b'"
  shows "len b' = len b \<and> length (mem b') = length (mem b) \<and> take a (mem b') = take a (mem b)
    \<and> drop (a + size_of) (mem b') = drop (a + size_of) (mem b)"
  using assms by (auto simp: assign_def length_enc split: if_split_asm)

end

text \<open>Two bytes of a struct as a halfword, four as a word.\<close>

definition rd16 :: "bytes \<Rightarrow> nat \<Rightarrow> u16" where
  "rd16 bs i = push_bit 8 (ucast (bs ! (i + 1))) OR ucast (bs ! i)"

definition rd32 :: "bytes \<Rightarrow> nat \<Rightarrow> u32" where
  "rd32 bs i = push_bit 24 (ucast (bs ! (i + 3))) OR push_bit 16 (ucast (bs ! (i + 2)))
     OR push_bit 8 (ucast (bs ! (i + 1))) OR ucast (bs ! i)"

lemma bit_u8_high [simp]: "8 \<le> n \<Longrightarrow> \<not> bit (b :: u8) n"
  by (auto dest: bit_imp_le_length)

lemma le16_join [simp]: "le16 (push_bit 8 (ucast h) OR ucast l) = [l, h]"
  by (auto simp: le16_def intro!: bit_word_eqI
      simp: bit_or_iff bit_push_bit_iff bit_ucast_iff bit_drop_bit_eq)

lemma le32_join [simp]:
  "le32 (push_bit 24 (ucast b3) OR push_bit 16 (ucast b2) OR push_bit 8 (ucast b1) OR ucast b0) = [b0, b1, b2, b3]"
  by (auto simp: le32_def intro!: bit_word_eqI
      simp: bit_or_iff bit_push_bit_iff bit_ucast_iff bit_drop_bit_eq)

lemma le16_rd16: "le16 (rd16 bs i) = [bs ! i, bs ! (i + 1)]"
  by (simp add: rd16_def)

lemma le32_rd32: "le32 (rd32 bs i) = [bs ! i, bs ! (i + 1), bs ! (i + 2), bs ! (i + 3)]"
  by (simp add: rd32_def)

interpretation half: overlay 2 "\<lambda>bs. rd16 bs 0" le16
proof unfold_locales
  show "rd16 (le16 v) 0 = v" for v by (simp add: rd16_def le16_def)
  show "le16 (rd16 bs 0) = bs" if "length bs = 2" for bs
    using that by (auto simp: le16_rd16 length_Suc_conv eval_nat_numeral)
qed simp

text \<open>The bytes of a slice expression over a buffer, as \<open>Checksum\<close> reads them.\<close>

definition bytes_of :: "go_slice \<Rightarrow> nat \<Rightarrow> nat \<Rightarrow> bytes go" where
  "bytes_of b i j = bnd (subslice b i j) (\<lambda>s. ret (contents s))"

lemma bytes_of_mid:
  "length A = i \<Longrightarrow> j = i + length H \<Longrightarrow> bytes_of (b\<lparr>mem := A @ H @ T\<rparr>) i j = ret H"
  by (simp add: bytes_of_def contents_def)

text \<open>Storing a halfword converted to network order stores its high byte first.\<close>

lemma le16_Ntohs: "le16 (Ntohs v) = [ucast (drop_bit 8 v), ucast v]"
  by (auto simp: le16_def bit_Ntohs bit_ucast_iff bit_drop_bit_eq add.commute intro!: bit_word_eqI)

end
