(* ===== verification/Ethernet.thy ===== *)
theory Ethernet
  imports Slice
begin

text \<open>
  \<open>net/skb/skb.go\<close>, the packet buffer handed from layer to layer, and \<open>net/ethernet\<close>: the link
  header over its first 14 bytes, a connection's \<open>Send\<close>, and one iteration of the capture loop.
  \<open>pcap\<close> and \<open>slab\<close> are not under \<open>src/\<close>: whether \<open>WritePacketData\<close> fails is the parameter
  \<open>write_fails\<close>, the frames it accepted are a list, and the memory \<open>Alloc\<close> returns is an argument.
\<close>

section \<open>Packet buffers\<close>

text \<open>The three header pointers and the checksum pointer all point into the packet's own buffer.\<close>

record SkBuff =
  TransportHdr :: ptr
  NetworkHdr :: ptr
  MacHdr :: ptr
  CheckPotioner :: ptr
  Size :: u16
  Data :: ptr
  PayloadLen :: u16
  CB :: bytes
  AppIndex :: u16
  TransportIndex :: u16
  NetworkIndex :: u16
  MacIndex :: u16
  DataEnd :: u16
  Buffer :: go_slice

text \<open>\<open>new(SkBuff)\<close> zeroes every field; the nil slice has no memory.\<close>

definition NewSkb :: SkBuff where
  "NewSkb = \<lparr>TransportHdr = None, NetworkHdr = None, MacHdr = None, CheckPotioner = None, Size = 0,
     Data = None, PayloadLen = 0, CB = replicate 40 0, AppIndex = 0, TransportIndex = 0,
     NetworkIndex = 0, MacIndex = 0, DataEnd = 0, Buffer = whole []\<rparr>"

text \<open>\<open>Byte2Pointer(b[i:j])\<close>: where the slice expression starts. A slice with no capacity left keeps
  the pointer of the slice it was taken from.\<close>

definition Byte2Pointer :: "go_slice \<Rightarrow> nat \<Rightarrow> nat \<Rightarrow> ptr go" where
  "Byte2Pointer b i j =
     bnd (subslice b i j) (\<lambda>s. ret (Some (if mem s = [] then 0 else i)))"

lemma Byte2Pointer_ok [simp]:
  "i \<le> j \<Longrightarrow> j \<le> length (mem b) \<Longrightarrow> i < length (mem b) \<Longrightarrow> Byte2Pointer b i j = ret (Some i)"
  by (simp add: Byte2Pointer_def)

section \<open>The link header\<close>

datatype mac = MAC u8 u8 u8 u8 u8 u8

fun mac_bytes :: "mac \<Rightarrow> bytes" where
  "mac_bytes (MAC a b c d e f) = [a, b, c, d, e, f]"

definition LEN_ETHHDR :: nat where [length_consts]: "LEN_ETHHDR = 14"

record EthHeader =
  DstMAC :: mac
  SrcMAC :: mac
  EthProtocol :: u16

definition SetMac :: "EthHeader \<Rightarrow> mac \<Rightarrow> mac \<Rightarrow> EthHeader" where
  "SetMac hdr src dst = hdr\<lparr>SrcMAC := src, DstMAC := dst\<rparr>"

definition mac_at :: "bytes \<Rightarrow> nat \<Rightarrow> mac" where
  "mac_at bs i = MAC (bs ! i) (bs ! (i + 1)) (bs ! (i + 2)) (bs ! (i + 3)) (bs ! (i + 4)) (bs ! (i + 5))"

definition EthHeader_of :: "bytes \<Rightarrow> EthHeader" where
  "EthHeader_of bs = \<lparr>DstMAC = mac_at bs 0, SrcMAC = mac_at bs 6, EthProtocol = rd16 bs 12\<rparr>"

definition EthHeader_bytes :: "EthHeader \<Rightarrow> bytes" where
  "EthHeader_bytes h = mac_bytes (DstMAC h) @ mac_bytes (SrcMAC h) @ le16 (EthProtocol h)"

lemma length_mac_bytes [simp]: "length (mac_bytes a) = 6"
  by (cases a) simp

lemma mac_bytes_at: "mac_bytes (mac_at bs i) = [bs ! i, bs ! (i + 1), bs ! (i + 2), bs ! (i + 3), bs ! (i + 4), bs ! (i + 5)]"
  by (simp add: mac_at_def)

lemma mac_at_bytes: "mac_at (bs @ mac_bytes a @ cs) (length bs) = a"
  by (cases a) (simp add: mac_at_def nth_append)

interpretation eth: overlay LEN_ETHHDR EthHeader_of EthHeader_bytes
proof unfold_locales
  show "length (EthHeader_bytes h) = LEN_ETHHDR" for h
    by (simp add: EthHeader_bytes_def LEN_ETHHDR_def)
  show "EthHeader_of (EthHeader_bytes h) = h" for h
    by (cases "DstMAC h"; cases "SrcMAC h")
      (simp add: EthHeader_of_def EthHeader_bytes_def mac_at_def rd16_def le16_def)
  show "EthHeader_bytes (EthHeader_of bs) = bs" if "length bs = LEN_ETHHDR" for bs
    using that
    by (auto simp: LEN_ETHHDR_def EthHeader_of_def EthHeader_bytes_def mac_bytes_at le16_rd16
        length_Suc_conv eval_nat_numeral)
qed

section \<open>Sending\<close>

record EthConn =
  Header :: EthHeader
  EthHandle :: ptr

fun put_bytes :: "go_slice \<Rightarrow> nat \<Rightarrow> bytes \<Rightarrow> go_slice go" where
  "put_bytes b i [] = ret b"
| "put_bytes b i (v # vs) = bnd (put_index b i v) (\<lambda>b. put_bytes b (Suc i) vs)"

definition send :: "(bytes \<Rightarrow> bool) \<Rightarrow> SkBuff \<Rightarrow> bytes list \<Rightarrow> (nat \<times> bytes list) go" where
  "send write_fails skbuf sent =
     (if write_fails (contents (Buffer skbuf)) then panic (Fatal ''WritePacketData'')
      else ret (len (Buffer skbuf), sent @ [contents (Buffer skbuf)]))"

text \<open>\<open>EthConn.Send\<close>: the connection's source goes to bytes 0 to 5, where the destination of the
  frame stands, and its destination to bytes 6 to 11: the connection was made from the header of a
  received frame, and this turns it round. Byte 13 is left as it is.\<close>

definition EthConn_Send ::
  "(bytes \<Rightarrow> bool) \<Rightarrow> EthConn \<Rightarrow> SkBuff \<Rightarrow> bytes list \<Rightarrow> (nat \<times> bytes list \<times> SkBuff) go" where
  "EthConn_Send write_fails ethconn skbuf sent =
     bnd (put_bytes (Buffer skbuf) 0 (mac_bytes (SrcMAC (Header ethconn)))) (\<lambda>b.
     bnd (put_bytes b 6 (mac_bytes (DstMAC (Header ethconn)))) (\<lambda>b.
     bnd (put_index b 12 8) (\<lambda>b.
     bnd (Byte2Pointer b 0 14) (\<lambda>p.
     let skbuf = skbuf\<lparr>Buffer := b, MacHdr := p\<rparr> in
     bnd (send write_fails skbuf sent) (\<lambda>(n, sent). ret (n, sent, skbuf))))))"

definition NewEthernetConn :: "EthHeader \<Rightarrow> EthConn" where
  "NewEthernetConn h = \<lparr>Header = \<lparr>DstMAC = DstMAC h, SrcMAC = SrcMAC h, EthProtocol = EthProtocol h\<rparr>, EthHandle = None\<rparr>"

section \<open>Receiving\<close>

text \<open>One packet of the capture loop: \<open>spare\<close> is what the allocated chunk holds past the packet.\<close>

definition eth_receive :: "bytes \<Rightarrow> bytes \<Rightarrow> SkBuff go" where
  "eth_receive spare data =
     (let skbuf = NewSkb\<lparr>Buffer := \<lparr>mem = data @ spare, len = length data\<rparr>, MacIndex := 0,
                        NetworkIndex := of_nat LEN_ETHHDR\<rparr>
      in bnd (Byte2Pointer (Buffer skbuf) 0 LEN_ETHHDR) (\<lambda>p. ret (skbuf\<lparr>MacHdr := p\<rparr>)))"

section \<open>What a frame looks like\<close>

lemma put_bytes_ok:
  "i + length vs \<le> len b \<Longrightarrow> i + length vs \<le> length (mem b) \<Longrightarrow>
   put_bytes b i vs = ret (b\<lparr>mem := take i (mem b) @ vs @ drop (i + length vs) (mem b)\<rparr>)"
proof (induction vs arbitrary: b i)
  case Nil
  then show ?case by simp
next
  case (Cons v vs)
  then have "i < length (mem b)" by simp
  then have u: "(mem b)[i := v] = take i (mem b) @ v # drop (Suc i) (mem b)"
    by (rule upd_conv_take_nth_drop)
  have "take (Suc i) ((mem b)[i := v]) = take i (mem b) @ [v]"
    "drop (Suc i + length vs) ((mem b)[i := v]) = drop (Suc i + length vs) (mem b)"
    using \<open>i < length (mem b)\<close> by (simp_all add: u min_def add.commute)
  with Cons.prems Cons.IH [of "Suc i" "b\<lparr>mem := (mem b)[i := v]\<rparr>"] show ?case by simp
qed

text \<open>The bytes of the frame sent: the link header turned round, and the rest of the buffer.\<close>

definition frame_of :: "EthConn \<Rightarrow> bytes \<Rightarrow> bytes" where
  "frame_of ethconn b =
     mac_bytes (SrcMAC (Header ethconn)) @ mac_bytes (DstMAC (Header ethconn)) @ 8 # drop 13 b"

lemma EthConn_Send_frame:
  assumes "14 \<le> len (Buffer skbuf)" "len (Buffer skbuf) \<le> length (mem (Buffer skbuf))"
  shows "EthConn_Send write_fails ethconn skbuf sent =
    (if write_fails (frame_of ethconn (contents (Buffer skbuf))) then panic (Fatal ''WritePacketData'')
     else ret (len (Buffer skbuf), sent @ [frame_of ethconn (contents (Buffer skbuf))],
       skbuf\<lparr>Buffer := (Buffer skbuf)\<lparr>mem := frame_of ethconn (mem (Buffer skbuf))\<rparr>, MacHdr := Some 0\<rparr>))"
proof -
  let ?b = "Buffer skbuf" and ?s = "mac_bytes (SrcMAC (Header ethconn))"
    and ?d = "mac_bytes (DstMAC (Header ethconn))"
  have m: "14 \<le> length (mem ?b)" using assms by simp
  obtain x where "x = mem ?b ! 12" by simp
  then have x: "drop 12 (mem ?b) = x # drop 13 (mem ?b)"
    using m Cons_nth_drop_Suc [of 12 "mem ?b"] by simp
  have 1: "put_bytes ?b 0 ?s = ret (?b\<lparr>mem := ?s @ drop 6 (mem ?b)\<rparr>)"
    using m assms by (simp add: put_bytes_ok)
  have 2: "put_bytes (?b\<lparr>mem := ?s @ drop 6 (mem ?b)\<rparr>) 6 ?d
      = ret (?b\<lparr>mem := ?s @ ?d @ x # drop 13 (mem ?b)\<rparr>)"
    using m assms by (simp add: put_bytes_ok x)
  have 3: "put_index (?b\<lparr>mem := ?s @ ?d @ x # drop 13 (mem ?b)\<rparr>) 12 8
      = ret (?b\<lparr>mem := frame_of ethconn (mem ?b)\<rparr>)"
    using m assms by (simp add: frame_of_def list_update_append)
  have l: "length (frame_of ethconn (mem ?b)) = length (mem ?b)"
    using m by (simp add: frame_of_def)
  have 4: "Byte2Pointer (?b\<lparr>mem := frame_of ethconn (mem ?b)\<rparr>) 0 14 = ret (Some 0)"
    using m l unfolding Byte2Pointer_def subslice_def by (auto simp: frame_of_def)
  have "take (len ?b) (frame_of ethconn (mem ?b)) = ?s @ ?d @ take (len ?b - 12) (8 # drop 13 (mem ?b))"
    using assms(1) by (simp add: frame_of_def)
  also have "take (len ?b - 12) (8 # drop 13 (mem ?b)) = 8 # drop 13 (take (len ?b) (mem ?b))"
    using assms(1) by (simp add: take_Cons' drop_take)
  finally have c: "contents (?b\<lparr>mem := frame_of ethconn (mem ?b)\<rparr>) = frame_of ethconn (contents ?b)"
    by (simp add: contents_def frame_of_def)
  show ?thesis
    unfolding EthConn_Send_def 1 bnd_ret 2 3 4 Let_def by (simp add: send_def c)
qed

end
