(* ===== verification/Ip.thy ===== *)
theory Ip
  imports Ethernet
begin

unbundle bit_operations_syntax

text \<open>
  \<open>net/ip\<close>: the IPv4 header and its accessors, dotted printing, one iteration of the receive loop
  (\<open>ip.go\<close>), and a connection's header template and \<open>Send\<close> (\<open>ipconn.go\<close>), which fills both
  checksums and verifies them before the frame is handed to the link layer.
\<close>

section \<open>The header\<close>

record IPHeader =
  VersionIhl :: u8
  Tos :: u8
  TotLength :: u16
  Ident :: u16
  FragOff :: u16
  TTL :: u8
  Protocol :: u8
  Check :: u16
  Saddr :: u32
  Daddr :: u32

definition LEN_IPHDR :: nat where [length_consts]: "LEN_IPHDR = 20"

definition IPHeader_of :: "bytes \<Rightarrow> IPHeader" where
  "IPHeader_of bs = \<lparr>VersionIhl = bs ! 0, Tos = bs ! 1, TotLength = rd16 bs 2, Ident = rd16 bs 4,
     FragOff = rd16 bs 6, TTL = bs ! 8, Protocol = bs ! 9, Check = rd16 bs 10,
     Saddr = rd32 bs 12, Daddr = rd32 bs 16\<rparr>"

definition IPHeader_bytes :: "IPHeader \<Rightarrow> bytes" where
  "IPHeader_bytes h = [VersionIhl h, Tos h] @ le16 (TotLength h) @ le16 (Ident h) @ le16 (FragOff h)
     @ [TTL h, Protocol h] @ le16 (Check h) @ le32 (Saddr h) @ le32 (Daddr h)"

interpretation ip: overlay LEN_IPHDR IPHeader_of IPHeader_bytes
proof unfold_locales
  show "length (IPHeader_bytes h) = LEN_IPHDR" for h
    by (simp add: IPHeader_bytes_def LEN_IPHDR_def)
  show "IPHeader_of (IPHeader_bytes h) = h" for h
    by (simp add: IPHeader_of_def IPHeader_bytes_def rd16_def rd32_def le16_def le32_def)
  show "IPHeader_bytes (IPHeader_of bs) = bs" if "length bs = LEN_IPHDR" for bs
    using that
    by (auto simp: LEN_IPHDR_def IPHeader_of_def IPHeader_bytes_def le16_rd16 le32_rd32
        length_Suc_conv eval_nat_numeral)
qed

definition GetVersion :: "IPHeader \<Rightarrow> u8" where
  "GetVersion hdr = drop_bit 4 (VersionIhl hdr)"

definition SetVersion :: "u8 \<Rightarrow> IPHeader \<Rightarrow> IPHeader" where
  "SetVersion ver hdr = hdr\<lparr>VersionIhl := VersionIhl hdr OR (0xf0 AND push_bit 4 ver)\<rparr>"

definition SetHeaderLen :: "u8 \<Rightarrow> IPHeader \<Rightarrow> IPHeader" where
  "SetHeaderLen n hdr = hdr\<lparr>VersionIhl := VersionIhl hdr OR (0x0F AND drop_bit 2 n)\<rparr>"

definition GetHeaderLen :: "IPHeader \<Rightarrow> u8" where
  "GetHeaderLen hdr = 4 * (0x0F AND VersionIhl hdr)"

definition GetTotLength :: "IPHeader \<Rightarrow> u16" where
  "GetTotLength hdr = (drop_bit 8 (TotLength hdr) AND 0xff) OR (push_bit 8 (TotLength hdr) AND 0xff00)"

definition SetDSCP :: "u8 \<Rightarrow> IPHeader \<Rightarrow> IPHeader" where
  "SetDSCP dscp hdr = hdr\<lparr>Tos := Tos hdr OR (0x3F AND push_bit 2 dscp)\<rparr>"

definition SetECN :: "u8 \<Rightarrow> IPHeader \<Rightarrow> IPHeader" where
  "SetECN ecn hdr = hdr\<lparr>Tos := Tos hdr OR (0x3 AND ecn)\<rparr>"

definition SetNoFrag :: "IPHeader \<Rightarrow> IPHeader" where
  "SetNoFrag hdr = (let hdr = hdr\<lparr>FragOff := 0xFF0F AND FragOff hdr\<rparr>
                    in hdr\<lparr>FragOff := FragOff hdr OR push_bit 5 0x2\<rparr>)"

definition DotIP :: "u32 \<Rightarrow> string" where
  "DotIP a = show_dec (unat (a AND 0xff)) @ ''.'' @ show_dec (unat (drop_bit 8 a AND 0xff)) @ ''.''
     @ show_dec (unat (drop_bit 16 a AND 0xff)) @ ''.'' @ show_dec (unat (drop_bit 24 a AND 0xff))"

definition Source :: "IPHeader \<Rightarrow> string" where
  "Source ipHdr = DotIP (Saddr ipHdr)"

definition Destination :: "IPHeader \<Rightarrow> string" where
  "Destination ipHdr = DotIP (Daddr ipHdr)"

abbreviation load_ip :: "go_slice \<Rightarrow> ptr \<Rightarrow> IPHeader go" where
  "load_ip \<equiv> load LEN_IPHDR IPHeader_of"

abbreviation assign_ip :: "go_slice \<Rightarrow> ptr \<Rightarrow> (IPHeader \<Rightarrow> IPHeader) \<Rightarrow> go_slice go" where
  "assign_ip \<equiv> assign LEN_IPHDR IPHeader_of IPHeader_bytes"

section \<open>Receiving\<close>

text \<open>\<open>4 * uint16(0x0F & VersionIhl)\<close>: the header's length in bytes, as a 16-bit number.\<close>

definition hdr_len :: "IPHeader \<Rightarrow> u16" where
  "hdr_len ipHdr = 4 * ucast (0x0F AND VersionIhl ipHdr)"

definition ip_receive :: "SkBuff \<Rightarrow> SkBuff go" where
  "ip_receive skbuf =
     bnd (Byte2Pointer (Buffer skbuf) (unat (NetworkIndex skbuf)) (len (Buffer skbuf))) (\<lambda>p.
     let skbuf = skbuf\<lparr>NetworkHdr := p\<rparr> in
     bnd (load_ip (Buffer skbuf) p) (\<lambda>ipHdr.
     ret (skbuf\<lparr>PayloadLen := Ntohs (TotLength ipHdr) - hdr_len ipHdr,
                TransportIndex := hdr_len ipHdr + NetworkIndex skbuf\<rparr>)))"

section \<open>Sending\<close>

record IPConn =
  RemoteIP :: u32
  LocalIP :: u32
  conn_EthConn :: EthConn
  ipHeader :: IPHeader

definition zero_IPHeader :: IPHeader where
  "zero_IPHeader = \<lparr>VersionIhl = 0, Tos = 0, TotLength = 0, Ident = 0, FragOff = 0, TTL = 0,
     Protocol = 0, Check = 0, Saddr = 0, Daddr = 0\<rparr>"

definition NewIPConn :: "u32 \<Rightarrow> u32 \<Rightarrow> SkBuff \<Rightarrow> IPConn go" where
  "NewIPConn localIP remoteIP skbuf =
     bnd (load LEN_ETHHDR EthHeader_of (Buffer skbuf) (MacHdr skbuf)) (\<lambda>ethHdr.
     let hdr = SetNoFrag (SetECN 0 (SetDSCP 0 (SetHeaderLen 20 (SetVersion 4 zero_IPHeader))));
         hdr = hdr\<lparr>TTL := 64, Protocol := 6, Saddr := localIP, Daddr := remoteIP\<rparr>
     in ret \<lparr>RemoteIP = remoteIP, LocalIP = localIP, conn_EthConn = NewEthernetConn ethHdr, ipHeader = hdr\<rparr>)"

definition IPConn_Send ::
  "(bytes \<Rightarrow> bool) \<Rightarrow> IPConn \<Rightarrow> SkBuff \<Rightarrow> bytes list \<Rightarrow> (nat \<times> bytes list \<times> SkBuff) go" where
  "IPConn_Send write_fails ipConn skbuf sent =
     (let i = unat (NetworkIndex skbuf);
          j = unat (NetworkIndex skbuf + of_nat LEN_IPHDR);
          e = unat (DataEnd skbuf);
          t = ipHeader ipConn in
     bnd (Byte2Pointer (Buffer skbuf) i j) (\<lambda>p.
     bnd (assign_ip (Buffer skbuf) p (\<lambda>h. h\<lparr>TotLength := Htons (PayloadLen skbuf + of_nat LEN_IPHDR)\<rparr>)) (\<lambda>b.
     bnd (assign_ip b p (\<lambda>h. h\<lparr>Saddr := Saddr t\<rparr>)) (\<lambda>b.
     bnd (assign_ip b p (\<lambda>h. h\<lparr>Daddr := Daddr t\<rparr>)) (\<lambda>b.
     bnd (assign_ip b p (\<lambda>h. h\<lparr>Protocol := Protocol t\<rparr>)) (\<lambda>b.
     bnd (assign_ip b p (\<lambda>h. h\<lparr>VersionIhl := VersionIhl t\<rparr>)) (\<lambda>b.
     bnd (assign_ip b p (\<lambda>h. h\<lparr>Tos := Tos t\<rparr>)) (\<lambda>b.
     bnd (assign_ip b p (\<lambda>h. h\<lparr>Ident := Ident t\<rparr>)) (\<lambda>b.
     bnd (assign_ip b p (\<lambda>h. h\<lparr>FragOff := FragOff t\<rparr>)) (\<lambda>b.
     bnd (assign_ip b p (\<lambda>h. h\<lparr>TTL := TTL t\<rparr>)) (\<lambda>b.
     bnd (assign_ip b p (\<lambda>h. h\<lparr>Check := Check t\<rparr>)) (\<lambda>b.
     bnd (bytes_of b i j) (\<lambda>hdr.
     bnd (assign_ip b p (\<lambda>h. h\<lparr>Check := Ntohs (Checksum hdr)\<rparr>)) (\<lambda>b.
     bnd (bytes_of b i e) (\<lambda>c.
     bnd (assign 2 (\<lambda>bs. rd16 bs 0) le16 b (CheckPotioner skbuf) (\<lambda>_. Htons (Checksum c))) (\<lambda>b.
     let skbuf = skbuf\<lparr>Buffer := b, MacIndex := 0\<rparr> in
     bnd (bytes_of b i j) (\<lambda>hdr.
     if \<not> VerifyChecksum hdr then panic (Fatal ''Unable to verify IP Checksum'') else
     bnd (bytes_of b i e) (\<lambda>c.
     if \<not> VerifyChecksum c then panic (Fatal ''Unable to verify TCP Checksum'') else
     EthConn_Send write_fails (conn_EthConn ipConn) skbuf sent))))))))))))))))))"

section \<open>The accessors\<close>

lemma GetTotLength_Ntohs: "GetTotLength hdr = Ntohs (TotLength hdr)"
proof (rule bit_word_eqI)
  fix n
  assume "n < LENGTH(16)"
  then show "bit (GetTotLength hdr) n \<longleftrightarrow> bit (Ntohs (TotLength hdr)) n"
    unfolding GetTotLength_def bit_or_iff bit_and_iff bit_push_bit_iff bit_drop_bit_eq bit_Ntohs
    by (auto simp: add.commute)
qed

section \<open>Dotted addresses\<close>

lemma byte_AND: "unat (drop_bit k a AND 0xff :: u32) = (unat a div 2 ^ k) mod 256"
proof -
  have "(0xff :: u32) = mask 8" by (simp add: mask_eq_exp_minus_1)
  then have "unat (drop_bit k a AND 0xff) = take_bit 8 (unat (drop_bit k a))"
    by (simp only: take_bit_eq_mask [symmetric]) (rule unsigned_take_bit_eq)
  then show ?thesis
    by (simp only: unat_drop_bit_eq) (simp add: take_bit_eq_mod drop_bit_eq_div)
qed

lemma byte_AND_0: "unat (a AND 0xff :: u32) = unat a mod 256"
  using byte_AND [of 0 a] by simp

lemma DotIP_bytes:
  "DotIP a = show_dec (unat a mod 256) @ ''.'' @ show_dec (unat a div 256 mod 256) @ ''.''
     @ show_dec (unat a div 65536 mod 256) @ ''.'' @ show_dec (unat a div 16777216 mod 256)"
  unfolding DotIP_def byte_AND unfolding byte_AND_0 by simp

lemma Atoi_show_dec: "Atoi (show_dec n) = n"
proof (induction n rule: show_dec.induct)
  case (1 n)
  show ?case
  proof (cases "n < 10")
    case True
    then show ?thesis by (subst show_dec.simps) (simp add: Atoi_def)
  next
    case False
    with 1 show ?thesis by (subst show_dec.simps) (simp add: Atoi_def mult_div_mod_eq)
  qed
qed

lemma digit_is_digit [simp]: "n < 10 \<Longrightarrow> is_digit (digit n)"
  by (simp add: is_digit_def)

lemma show_dec_all_digits: "\<forall>c \<in> set (show_dec n). is_digit c"
  using show_dec_digits by fastforce

lemma length_show_dec: "n < 1000 \<Longrightarrow> length (show_dec n) \<le> 3"
  by (simp add: show_dec.simps [of n] show_dec.simps [of "n div 10"] show_dec.simps [of "n div 10 div 10"])

lemma take_digits_exact:
  "\<forall>c \<in> set ds. is_digit c \<Longrightarrow> length ds \<le> n \<Longrightarrow> (r = [] \<or> \<not> is_digit (hd r)) \<Longrightarrow>
   take_digits n (ds @ r) = (ds, r)"
proof (induction n arbitrary: ds)
  case 0
  then show ?case by simp
next
  case (Suc n)
  show ?case
  proof (cases ds)
    case Nil
    with Suc.prems show ?thesis by (cases r) simp_all
  next
    case (Cons c cs)
    with Suc show ?thesis by simp
  qed
qed

lemma octet_show_dec:
  "n < 256 \<Longrightarrow> (r = [] \<or> \<not> is_digit (hd r)) \<Longrightarrow> octet (show_dec n @ r) = Some (show_dec n, r)"
  using take_digits_exact [OF show_dec_all_digits length_show_dec, of n r] by (simp add: octet_def)

lemma not_digit_dot [simp]: "\<not> is_digit CHR ''.''"
  by (simp add: is_digit_def)

lemma submatch_dotted:
  assumes "a < 256" "b < 256" "c < 256" "d < 256" and "r = [] \<or> \<not> is_digit (hd r)"
  shows "submatch (show_dec a @ ''.'' @ show_dec b @ ''.'' @ show_dec c @ ''.'' @ show_dec d @ r)
       = Some (show_dec a, show_dec b, show_dec c, show_dec d)"
  using assms octet_show_dec [of d r] by (simp add: submatch_def octet_show_dec)

lemma base256:
  fixes n :: nat
  assumes "n div 16777216 < 256"
  shows "n div 16777216 mod 256 * 16777216 + n div 65536 mod 256 * 65536 + n div 256 mod 256 * 256
    + n mod 256 = n"
proof -
  obtain q1 q2 q3 where q: "q1 = n div 256" "q2 = n div 65536" "q3 = n div 16777216" by simp
  have "n = 256 * q1 + n mod 256" "q1 = 256 * q2 + q1 mod 256" "q2 = 256 * q3 + q2 mod 256"
    using mult_div_mod_eq [of 256 n] mult_div_mod_eq [of 256 q1] mult_div_mod_eq [of 256 q2]
    by (simp_all add: q div_mult2_eq [symmetric])
  moreover have "q3 mod 256 = q3" using assms q by simp
  ultimately show ?thesis unfolding q [symmetric] by linarith
qed

lemma word_of_bytes: "of_nat (unat a div 16777216 mod 256 * 0x1000000) + of_nat (unat a div 65536 mod 256 * 0x10000)
    + of_nat (unat a div 256 mod 256 * 0x100) + of_nat (unat a mod 256) = (a :: u32)"
proof -
  have "unat a < 4294967296" using unsigned_less [of a] by simp
  then have "unat a div 16777216 < 256" by (simp add: less_mult_imp_div_less)
  note arg_cong [OF base256 [OF this], of "of_nat :: nat \<Rightarrow> u32"]
  moreover have "of_nat (unat a) = a" by simp
  ultimately show ?thesis by (simp only: of_nat_add)
qed

text \<open>Printing an address and parsing it gives it back, whatever follows its last digit.\<close>

lemma Ip2long_trailing:
  assumes "r = [] \<or> \<not> is_digit (hd r)"
  shows "Ip2long (DotIP a @ r) = a"
proof -
  have "submatch (DotIP a @ r) = Some (show_dec (unat a mod 256), show_dec (unat a div 256 mod 256),
      show_dec (unat a div 65536 mod 256), show_dec (unat a div 16777216 mod 256))"
    unfolding DotIP_bytes append_assoc using assms by (intro submatch_dotted) simp_all
  moreover have "\<not> unat a div 16777216 mod 256 > 255" "\<not> unat a div 65536 mod 256 > 255"
    "\<not> unat a div 256 mod 256 > 255" "\<not> unat a mod 256 > 255"
    by (simp_all add: not_less less_Suc_eq_le [symmetric])
  ultimately show ?thesis
    using word_of_bytes [of a]
    by (simp only: Ip2long_def Let_def option.case prod.case Atoi_show_dec simp_thms if_False)
qed

lemma Ip2long_dotted: "Ip2long (DotIP a) = a"
  using Ip2long_trailing [of "[]" a] by simp

end
