(* ===== verification/Ip_Send.thy ===== *)
theory Ip_Send
  imports Ip
begin

text \<open>
  What \<open>IPConn.Send\<close> does to a packet laid out as link header, network header and segment: the
  header is rebuilt from the connection's template, both checksums are stored, and the frame goes
  out exactly when both sums leave no carry after one fold; otherwise the process exits.
\<close>

definition out_header :: "IPConn \<Rightarrow> u16 \<Rightarrow> IPHeader" where
  "out_header c n = (ipHeader c)\<lparr>TotLength := Htons (n + 20)\<rparr>"

text \<open>The header's bytes with the checksum in place.\<close>

definition out_bytes :: "IPConn \<Rightarrow> u16 \<Rightarrow> bytes" where
  "out_bytes c n = (let hb = IPHeader_bytes (out_header c n) in store_be16 10 (Checksum hb) hb)"

lemma length_IPHeader_bytes [simp]: "length (IPHeader_bytes h) = 20"
  using ip.length_enc by (simp add: LEN_IPHDR_def)

lemma IPHeader_bytes_not_Nil [simp]: "IPHeader_bytes h \<noteq> []"
  by (simp add: IPHeader_bytes_def)

lemma IPHeader_bytes_Check:
  "IPHeader_bytes (h\<lparr>Check := Ntohs v\<rparr>) = store_be16 10 v (IPHeader_bytes h)"
  by (simp add: IPHeader_bytes_def store_be16_def le16_Ntohs) (simp add: le16_def le32_def)

lemma IPHeader_bytes_Check_0:
  "Check h = 0 \<Longrightarrow> IPHeader_bytes h ! 10 = 0 \<and> IPHeader_bytes h ! 11 = 0"
  by (simp add: IPHeader_bytes_def le16_def le32_def)

lemma store_be16_append:
  "store_be16 (length A + i) v (A @ B) = A @ store_be16 i v B"
  by (simp add: store_be16_def list_update_append)

lemma store_be16_here: "store_be16 (length A) v (A @ x # y # B) = A @ le16 (Ntohs v) @ B"
  by (simp add: store_be16_def list_update_append le16_Ntohs)

lemma length_store_be16 [simp]: "length (store_be16 i v b) = length b"
  by (simp add: store_be16_def)

lemma length_out_bytes [simp]: "length (out_bytes c n) = 20"
  by (simp add: out_bytes_def Let_def)

lemma out_bytes_verify:
  assumes "Check (ipHeader c) = 0"
  shows "VerifyChecksum (out_bytes c n) \<longleftrightarrow> folds_once (IPHeader_bytes (out_header c n))"
  unfolding out_bytes_def Let_def
  using assms IPHeader_bytes_Check_0 [of "out_header c n"]
  by (intro Checksum_stored_verifies) (simp_all add: out_header_def)

lemma segment_verify:
  assumes "length hb = 20" "even (length S1)" "length (hb @ S1 @ 0 # 0 # S2) < 65536"
  shows "VerifyChecksum (hb @ store_be16 (length S1) (Checksum (hb @ S1 @ 0 # 0 # S2)) (S1 @ 0 # 0 # S2))
    \<longleftrightarrow> folds_once (hb @ S1 @ 0 # 0 # S2)"
proof -
  have "hb @ store_be16 (length S1) v (S1 @ 0 # 0 # S2) = store_be16 (20 + length S1) v (hb @ S1 @ 0 # 0 # S2)" for v
    using store_be16_append [of hb "length S1" v "S1 @ 0 # 0 # S2"] assms(1) by simp
  moreover have "even (20 + length S1)" using assms(2) by simp
  ultimately show ?thesis
    using Checksum_stored_verifies [of "hb @ S1 @ 0 # 0 # S2" "20 + length S1"] assms
    by (simp add: nth_append)
qed

text \<open>The parts of the buffer: the link header \<open>A\<close>, the old network header \<open>H\<close>, the segment with a
  zero checksum field after \<open>S1\<close>, and the memory past \<open>DataEnd\<close>.\<close>

theorem IPConn_Send_frame:
  assumes m: "mem (Buffer skbuf) = A @ H @ S1 @ 0 # 0 # S2 @ R"
    and i: "unat (NetworkIndex skbuf) = length A" and H: "length H = 20"
    and e: "unat (DataEnd skbuf) = length A + 20 + length (S1 @ 0 # 0 # S2)"
    and p: "CheckPotioner skbuf = Some (length A + 20 + length S1)"
    and ev: "even (length S1)" and c0: "Check (ipHeader c) = 0"
  defines "hb \<equiv> out_bytes c (PayloadLen skbuf)"
  defines "seg \<equiv> S1 @ 0 # 0 # S2"
  defines "seg' \<equiv> store_be16 (length S1) (Checksum (hb @ seg)) seg"
  shows "IPConn_Send write_fails c skbuf sent =
    (if \<not> folds_once (IPHeader_bytes (out_header c (PayloadLen skbuf)))
     then panic (Fatal ''Unable to verify IP Checksum'')
     else if \<not> folds_once (hb @ seg) then panic (Fatal ''Unable to verify TCP Checksum'')
     else EthConn_Send write_fails (conn_EthConn c)
       (skbuf\<lparr>Buffer := (Buffer skbuf)\<lparr>mem := A @ hb @ seg' @ R\<rparr>, MacIndex := 0\<rparr>) sent)"
proof -
  let ?b = "Buffer skbuf" and ?T = "S1 @ 0 # 0 # S2 @ R" and ?h = "out_header c (PayloadLen skbuf)"
  let ?I = "length A"
  have bound: "length (hb @ seg) < 65536" "?I + 20 + length S1 < 65536"
    using e unat_u16 [of "DataEnd skbuf"] by (simp_all add: hb_def seg_def)
  have j: "unat (NetworkIndex skbuf + 20) = ?I + 20"
    using i bound by (simp add: unat_word_ariths)
  from ip.obtain_struct [of H] H obtain h where h: "H = IPHeader_bytes h" by (auto simp: LEN_IPHDR_def)
  have b: "?b = ?b\<lparr>mem := A @ IPHeader_bytes h @ ?T\<rparr>" using m h by simp
  have bp: "Byte2Pointer ?b ?I (?I + 20) = ret (Some ?I)" using m H by simp
  have full: "h\<lparr>TotLength := Htons (PayloadLen skbuf + 20), Saddr := Saddr (ipHeader c),
      Daddr := Daddr (ipHeader c), Protocol := Protocol (ipHeader c), VersionIhl := VersionIhl (ipHeader c),
      Tos := Tos (ipHeader c), Ident := Ident (ipHeader c), FragOff := FragOff (ipHeader c),
      TTL := TTL (ipHeader c), Check := Check (ipHeader c)\<rparr> = ?h"
    by (simp add: out_header_def)
  have hb: "IPHeader_bytes (?h\<lparr>Check := Ntohs (Checksum (IPHeader_bytes ?h))\<rparr>) = hb"
    unfolding hb_def out_bytes_def Let_def by (rule IPHeader_bytes_Check)
  have st: "assign 2 (\<lambda>bs. rd16 bs 0) le16 (?b\<lparr>mem := A @ hb @ ?T\<rparr>) (Some (?I + 20 + length S1))
      (\<lambda>_. Htons (Checksum (hb @ seg))) = ret (?b\<lparr>mem := A @ hb @ seg' @ R\<rparr>)"
  proof -
    have "length (A @ hb @ S1) = ?I + 20 + length S1" by (simp add: hb_def)
    from half.assign_at [OF this, where b = ?b and h = 0 and T = "S2 @ R"] show ?thesis
      by (simp add: seg'_def seg_def store_be16_here Htons_Ntohs) (simp add: le16_def)
  qed
  have r1: "bytes_of (?b\<lparr>mem := A @ IPHeader_bytes ?h @ ?T\<rparr>) ?I (?I + 20) = ret (IPHeader_bytes ?h)"
    by (simp add: bytes_of_mid)
  have r2: "bytes_of (?b\<lparr>mem := A @ hb @ ?T\<rparr>) ?I (?I + 20 + length seg) = ret (hb @ seg)"
    using bytes_of_mid [where A = A and i = ?I and j = "?I + 20 + length seg" and H = "hb @ seg" and b = ?b and T = R] by (simp add: hb_def seg_def)
  have r3: "bytes_of (?b\<lparr>mem := A @ hb @ seg' @ R\<rparr>) ?I (?I + 20) = ret hb"
    by (simp add: bytes_of_mid hb_def)
  have r4: "bytes_of (?b\<lparr>mem := A @ hb @ seg' @ R\<rparr>) ?I (?I + 20 + length seg) = ret (hb @ seg')"
    using bytes_of_mid [where A = A and i = ?I and j = "?I + 20 + length seg" and H = "hb @ seg'" and b = ?b and T = R] by (simp add: hb_def seg'_def)
  have v1: "VerifyChecksum hb \<longleftrightarrow> folds_once (IPHeader_bytes ?h)"
    unfolding hb_def by (rule out_bytes_verify [OF c0])
  have v2: "VerifyChecksum (hb @ seg') \<longleftrightarrow> folds_once (hb @ seg)"
    unfolding seg'_def seg_def using ev bound by (intro segment_verify) (simp_all add: hb_def seg_def)
  have e': "unat (DataEnd skbuf) = ?I + 20 + length seg" using e by (simp add: seg_def)
  show ?thesis
    unfolding IPConn_Send_def Let_def i e' LEN_IPHDR_def of_nat_numeral j bp bnd_ret p
    by (subst b) (simp only: ip.assign_at [unfolded LEN_IPHDR_def] bnd_ret full r1 hb r2 st r3 r4 v1 v2)
qed

end
