(* ===== verification/Tcp.thy ===== *)
theory Tcp
  imports Ip_Send
begin

unbundle bit_operations_syntax

text \<open>
  \<open>net/tcp/tcp.go\<close> and the option parser of \<open>tcpconn.go\<close>: the header laid over a segment, \<open>Parse\<close>,
  and \<open>tcpParseOpt\<close>, with the write through \<open>TCP_SKB_CB\<close> that lands outside the control block.
  Flags sit in the high byte of \<open>DataOffsetAndFlags\<close>, because the host is little-endian.
\<close>

section \<open>The header\<close>

definition CTRL_URG :: u16 where [flag_consts]: "CTRL_URG = push_bit (5 + 8) 1"
definition CTRL_ACK :: u16 where [flag_consts]: "CTRL_ACK = push_bit (4 + 8) 1"
definition CTRL_PSH :: u16 where [flag_consts]: "CTRL_PSH = push_bit (3 + 8) 1"
definition CTRL_RST :: u16 where [flag_consts]: "CTRL_RST = push_bit (2 + 8) 1"
definition CTRL_SYN :: u16 where [flag_consts]: "CTRL_SYN = push_bit (1 + 8) 1"
definition CTRL_FIN :: u16 where [flag_consts]: "CTRL_FIN = push_bit 8 1"

record TCPHeader =
  SourcePort :: u16
  DestPort :: u16
  Seq :: u32
  Ack :: u32
  DataOffsetAndFlags :: u16
  Window :: u16
  TCPChecksum :: u16
  UrgentPointer :: u16

definition LEN_TCPHDR :: nat where [length_consts]: "LEN_TCPHDR = 20"

definition TCPHeader_of :: "bytes \<Rightarrow> TCPHeader" where
  "TCPHeader_of bs = \<lparr>SourcePort = rd16 bs 0, DestPort = rd16 bs 2, Seq = rd32 bs 4, Ack = rd32 bs 8,
     DataOffsetAndFlags = rd16 bs 12, Window = rd16 bs 14, TCPChecksum = rd16 bs 16,
     UrgentPointer = rd16 bs 18\<rparr>"

definition TCPHeader_bytes :: "TCPHeader \<Rightarrow> bytes" where
  "TCPHeader_bytes h = le16 (SourcePort h) @ le16 (DestPort h) @ le32 (Seq h) @ le32 (Ack h)
     @ le16 (DataOffsetAndFlags h) @ le16 (Window h) @ le16 (TCPChecksum h) @ le16 (UrgentPointer h)"

interpretation tcp: overlay LEN_TCPHDR TCPHeader_of TCPHeader_bytes
proof unfold_locales
  show "length (TCPHeader_bytes h) = LEN_TCPHDR" for h
    by (simp add: TCPHeader_bytes_def LEN_TCPHDR_def)
  show "TCPHeader_of (TCPHeader_bytes h) = h" for h
    by (simp add: TCPHeader_of_def TCPHeader_bytes_def rd16_def rd32_def le16_def le32_def)
  show "TCPHeader_bytes (TCPHeader_of bs) = bs" if "length bs = LEN_TCPHDR" for bs
    using that
    by (auto simp: LEN_TCPHDR_def TCPHeader_of_def TCPHeader_bytes_def le16_rd16 le32_rd32
        length_Suc_conv eval_nat_numeral)
qed

abbreviation load_tcp :: "go_slice \<Rightarrow> ptr \<Rightarrow> TCPHeader go" where
  "load_tcp \<equiv> load LEN_TCPHDR TCPHeader_of"

abbreviation assign_tcp :: "go_slice \<Rightarrow> ptr \<Rightarrow> (TCPHeader \<Rightarrow> TCPHeader) \<Rightarrow> go_slice go" where
  "assign_tcp \<equiv> assign LEN_TCPHDR TCPHeader_of TCPHeader_bytes"

definition IsSYN :: "TCPHeader \<Rightarrow> bool" where
  "IsSYN hdr \<longleftrightarrow> DataOffsetAndFlags hdr AND CTRL_SYN \<noteq> 0"

definition IsACK :: "TCPHeader \<Rightarrow> bool" where
  "IsACK hdr \<longleftrightarrow> DataOffsetAndFlags hdr AND CTRL_ACK \<noteq> 0"

definition ACK :: "u32 \<Rightarrow> TCPHeader \<Rightarrow> TCPHeader" where
  "ACK sq hdr = hdr\<lparr>Ack := sq, DataOffsetAndFlags := DataOffsetAndFlags hdr OR CTRL_ACK\<rparr>"

text \<open>\<open>4 * ((DataOffsetAndFlags >> 4) & 0x0f)\<close>: the header's length in bytes.\<close>

definition data_offset :: "TCPHeader \<Rightarrow> u16" where
  "data_offset hdr = 4 * (drop_bit 4 (DataOffsetAndFlags hdr) AND 0x0f)"

definition Parse :: "SkBuff \<Rightarrow> SkBuff go" where
  "Parse skbuf =
     bnd (Byte2Pointer (Buffer skbuf) (unat (TransportIndex skbuf)) (len (Buffer skbuf))) (\<lambda>p.
     let skbuf = skbuf\<lparr>TransportHdr := p\<rparr> in
     bnd (load_tcp (Buffer skbuf) p) (\<lambda>hdr.
     ret (skbuf\<lparr>PayloadLen := PayloadLen skbuf - data_offset hdr,
                AppIndex := TransportIndex skbuf + data_offset hdr\<rparr>)))"

section \<open>Options\<close>

abbreviation TCPOPT_EOL :: u8 where "TCPOPT_EOL \<equiv> 0"
abbreviation TCPOPT_NOP :: u8 where "TCPOPT_NOP \<equiv> 1"
abbreviation TCPOPT_MSS :: u8 where "TCPOPT_MSS \<equiv> 2"
abbreviation TCPOPT_WINDOW :: u8 where "TCPOPT_WINDOW \<equiv> 3"
abbreviation TCPOPT_SACK_PERM :: u8 where "TCPOPT_SACK_PERM \<equiv> 4"
abbreviation TCPOPT_SACK :: u8 where "TCPOPT_SACK \<equiv> 5"
abbreviation TCPOPT_TIMESTAMP :: u8 where "TCPOPT_TIMESTAMP \<equiv> 8"

abbreviation TCPOLEN_MSS :: nat where "TCPOLEN_MSS \<equiv> 4"
abbreviation TCPOLEN_WINDOW :: nat where "TCPOLEN_WINDOW \<equiv> 3"
abbreviation TCPOLEN_SACK_PERM :: nat where "TCPOLEN_SACK_PERM \<equiv> 2"
abbreviation TCPOLEN_TIMESTAMP :: nat where "TCPOLEN_TIMESTAMP \<equiv> 10"
abbreviation TCPOLEN_SACK_BASE :: nat where "TCPOLEN_SACK_BASE \<equiv> 2"
abbreviation TCPOLEN_SACK_PERBLOCK :: nat where "TCPOLEN_SACK_PERBLOCK \<equiv> 8"

record TCPOptionsReceived =
  ts_recent_stamp :: "64 word"
  ts_recent :: u32
  rcv_tsval :: u32
  rcv_tsecr :: u32
  saw_tstamp :: u16
  tstamp_ok :: bool
  dsack :: bool
  wscale_ok :: bool
  sack_ok :: u8
  snd_wscale :: u8
  rcv_wscale :: u8
  num_sacks :: u8
  user_mss :: u16
  mss_clamp :: u16

definition zero_options :: TCPOptionsReceived where
  "zero_options = \<lparr>ts_recent_stamp = 0, ts_recent = 0, rcv_tsval = 0, rcv_tsecr = 0, saw_tstamp = 0,
     tstamp_ok = False, dsack = False, wscale_ok = False, sack_ok = 0, snd_wscale = 0, rcv_wscale = 0,
     num_sacks = 0, user_mss = 0, mss_clamp = 0\<rparr>"

definition tcpSackReset :: "TCPOptionsReceived \<Rightarrow> TCPOptionsReceived" where
  "tcpSackReset rx_opt = rx_opt\<lparr>dsack := False, num_sacks := 0\<rparr>"

definition tcpClearOptions :: "TCPOptionsReceived \<Rightarrow> TCPOptionsReceived" where
  "tcpClearOptions rx_opt = rx_opt\<lparr>tstamp_ok := False, sack_ok := 0, wscale_ok := False, snd_wscale := 0\<rparr>"

text \<open>\<open>TCP_SKB_CB(skbuf).sacked = v\<close>. The struct \<open>tcp_skb_cb\<close> is 80 bytes, \<open>sacked\<close> is at 69, and it is laid
  over \<open>CB\<close>, which is 40 bytes at offset 50 of \<open>SkBuff\<close>. The byte written is at 119: the highest byte of the
  length of \<open>Buffer\<close>, whose slice header is at 104 (pointer), 112 (length) and 120 (capacity). The theory
  \<open>Layout\<close> computes these numbers from the declarations of the structs.\<close>

definition set_sacked :: "u8 \<Rightarrow> SkBuff \<Rightarrow> SkBuff" where
  "set_sacked v skbuf =
     skbuf\<lparr>Buffer := (Buffer skbuf)\<lparr>len := len (Buffer skbuf) mod 2 ^ 56 + unat v * 2 ^ 56\<rparr>\<rparr>"

text \<open>The inner \<open>switch\<close>: one option whose data starts at \<open>index\<close> of \<open>opt\<close>.\<close>

definition parse_option ::
  "bool \<Rightarrow> go_slice \<Rightarrow> nat \<Rightarrow> u8 \<Rightarrow> nat \<Rightarrow> TCPOptionsReceived \<times> SkBuff
   \<Rightarrow> (TCPOptionsReceived \<times> SkBuff) go" where
  "parse_option syn opt index opcode opsize st =
     (case st of (opt_rx, skbuf) \<Rightarrow>
      if opcode = TCPOPT_MSS then
        (if opsize = TCPOLEN_MSS \<and> syn then
           bnd (bytes_of opt index (index + 2)) (\<lambda>bs. bnd (Byte2uint16 bs) (\<lambda>v.
           let in_mss = Ntohs v in
           if in_mss > 0 then
             let in_mss = (if user_mss opt_rx > 0 \<and> user_mss opt_rx < in_mss then user_mss opt_rx else in_mss)
             in ret (opt_rx\<lparr>mss_clamp := in_mss\<rparr>, skbuf)
           else ret (opt_rx, skbuf)))
         else ret (opt_rx, skbuf))
      else if opcode = TCPOPT_WINDOW then
        (if opsize = TCPOLEN_WINDOW \<and> syn then
           bnd (at_index opt index) (\<lambda>scale.
           let scale = (if scale > 14 then 14 else scale)
           in ret (opt_rx\<lparr>wscale_ok := True, snd_wscale := scale\<rparr>, skbuf))
         else ret (opt_rx, skbuf))
      else if opcode = TCPOPT_TIMESTAMP then
        (if opsize = TCPOLEN_TIMESTAMP \<and> tstamp_ok opt_rx then
           bnd (bytes_of opt index (index + 4)) (\<lambda>bs. bnd (Byte2uint32 bs) (\<lambda>v.
           bnd (bytes_of opt (index + 4) (index + 8)) (\<lambda>cs. bnd (Byte2uint32 cs) (\<lambda>w.
           ret (opt_rx\<lparr>saw_tstamp := 1, rcv_tsval := Ntohl v, rcv_tsecr := Ntohl w\<rparr>, skbuf)))))
         else ret (opt_rx, skbuf))
      else if opcode = TCPOPT_SACK_PERM then
        (if opsize = TCPOLEN_SACK_PERM \<and> syn
         then ret (tcpSackReset (opt_rx\<lparr>sack_ok := 1\<rparr>), skbuf)
         else ret (opt_rx, skbuf))
      else if opcode = TCPOPT_SACK then
        (if opsize \<ge> TCPOLEN_SACK_BASE + TCPOLEN_SACK_PERBLOCK
            \<and> (opsize - TCPOLEN_SACK_BASE) mod TCPOLEN_SACK_PERBLOCK = 0 \<and> sack_ok opt_rx > 0
         then ret (opt_rx, set_sacked (20 + of_nat (index - 2)) skbuf)
         else ret (opt_rx, skbuf))
      else ret (opt_rx, skbuf))"

text \<open>The loop. \<open>opt\<close> is a slice header of its own: the write to \<open>sacked\<close> does not change it.\<close>

function parse_loop ::
  "bool \<Rightarrow> go_slice \<Rightarrow> nat \<Rightarrow> nat \<Rightarrow> TCPOptionsReceived \<times> SkBuff
   \<Rightarrow> (TCPOptionsReceived \<times> SkBuff) go" where
  "parse_loop syn opt index n st =
     (if n = 0 then ret st else
      bnd (at_index opt index) (\<lambda>opcode.
      if opcode = TCPOPT_EOL then ret st
      else if opcode = TCPOPT_NOP then parse_loop syn opt (index + 1) (n - 1) st
      else
        bnd (at_index opt (index + 1)) (\<lambda>size_byte.
        if unat size_byte < 2 then ret st
        else if unat size_byte > n then ret st
        else
          bnd (parse_option syn opt (index + 2) opcode (unat size_byte) st) (\<lambda>st.
          parse_loop syn opt (index + 2 + (unat size_byte - 2)) (n - unat size_byte) st))))"
  by pat_completeness auto
termination
  by (relation "measure (\<lambda>(syn, opt, index, n, st). n)") auto

declare parse_loop.simps [simp del]

definition tcpParseOpt :: "SkBuff \<Rightarrow> TCPOptionsReceived \<Rightarrow> (TCPOptionsReceived \<times> SkBuff) go" where
  "tcpParseOpt skbuf opt_rx =
     bnd (load_tcp (Buffer skbuf) (TransportHdr skbuf)) (\<lambda>tcpHdr.
     let opt_rx = opt_rx\<lparr>saw_tstamp := 0\<rparr>;
         n = unat (data_offset tcpHdr - 20) in
     bnd (subslice (Buffer skbuf) (unat (TransportIndex skbuf + 20)) (len (Buffer skbuf))) (\<lambda>opt.
     parse_loop (IsSYN tcpHdr) opt 0 n (opt_rx, skbuf)))"

end
