(* ===== verification/Tcp_Options.thy ===== *)
theory Tcp_Options
  imports Tcp
begin

text \<open>
  The option list of a SYN as a datatype, its bytes on the wire, and what each option does to
  \<open>TCPOptionsReceived\<close>; \<open>tcpParseOpt\<close> reads the bytes of any such list as the list. The SACK
  option, whose only effect is the stray write of \<open>set_sacked\<close>, is treated apart.
\<close>

datatype tcp_opt =
    ONop
  | OMss u16
  | OWscale u8
  | OSackPerm
  | OTimestamp u32 u32
  | OUnknown u8 bytes

fun opt_bytes :: "tcp_opt \<Rightarrow> bytes" where
  "opt_bytes ONop = [1]"
| "opt_bytes (OMss v) = 2 # 4 # le16 (Htons v)"
| "opt_bytes (OWscale s) = [3, 3, s]"
| "opt_bytes OSackPerm = [4, 2]"
| "opt_bytes (OTimestamp v w) = 8 # 10 # le32 (Htonl v) @ le32 (Htonl w)"
| "opt_bytes (OUnknown k bs) = k # of_nat (length bs + 2) # bs"

text \<open>An option of a kind the parser does not know, short enough for its size byte.\<close>

fun wf_opt :: "tcp_opt \<Rightarrow> bool" where
  "wf_opt (OUnknown k bs) \<longleftrightarrow> k \<notin> {0, 1, 2, 3, 4, 5, 8} \<and> length bs < 254"
| "wf_opt _ \<longleftrightarrow> True"

definition clamp :: "u16 \<Rightarrow> u16 \<Rightarrow> u16" where
  "clamp user v = (if user > 0 \<and> user < v then user else v)"

fun apply_opt :: "bool \<Rightarrow> tcp_opt \<Rightarrow> TCPOptionsReceived \<Rightarrow> TCPOptionsReceived" where
  "apply_opt syn ONop rx = rx"
| "apply_opt syn (OMss v) rx = (if syn \<and> v > 0 then rx\<lparr>mss_clamp := clamp (user_mss rx) v\<rparr> else rx)"
| "apply_opt syn (OWscale s) rx = (if syn then rx\<lparr>wscale_ok := True, snd_wscale := min s 14\<rparr> else rx)"
| "apply_opt syn OSackPerm rx = (if syn then rx\<lparr>sack_ok := 1, dsack := False, num_sacks := 0\<rparr> else rx)"
| "apply_opt syn (OTimestamp v w) rx =
     (if tstamp_ok rx then rx\<lparr>saw_tstamp := 1, rcv_tsval := v, rcv_tsecr := w\<rparr> else rx)"
| "apply_opt syn (OUnknown k bs) rx = rx"

fun opts_bytes :: "tcp_opt list \<Rightarrow> bytes" where
  "opts_bytes [] = []"
| "opts_bytes (x # xs) = opt_bytes x @ opts_bytes xs"

fun apply_opts :: "bool \<Rightarrow> tcp_opt list \<Rightarrow> TCPOptionsReceived \<Rightarrow> TCPOptionsReceived" where
  "apply_opts syn [] rx = rx"
| "apply_opts syn (x # xs) rx = apply_opts syn xs (apply_opt syn x rx)"

lemma bytes_of_at:
  "mem b = A @ H @ T \<Longrightarrow> length A = i \<Longrightarrow> j = i + length H \<Longrightarrow> bytes_of b i j = ret H"
  by (simp add: bytes_of_def contents_def)

lemma at_index_at:
  "mem b = A @ x # T \<Longrightarrow> length A = i \<Longrightarrow> i < len b \<Longrightarrow> at_index b i = ret x"
  by (auto simp: at_index_def)

lemma Byte2uint16_exact: "Byte2uint16 (le16 v) = ret v"
  using Byte2uint16_le [of v "[]"] by simp

lemma Byte2uint32_exact: "Byte2uint32 (le32 v) = ret v"
  using Byte2uint32_le [of v "[]"] by simp

lemma Ntohs_Htons [simp]: "Ntohs (Htons v) = v"
  by (rule short.host_wire)

lemma Ntohl_Htonl [simp]: "Ntohl (Htonl v) = v"
  by (rule long.host_wire)

lemma unat_of_nat_u8: "k < 256 \<Longrightarrow> unat (of_nat k :: u8) = k"
  by (simp add: unsigned_of_nat take_bit_eq_mod)

text \<open>The loop on the first two bytes of an option that is neither padding nor the end marker.\<close>

lemma parse_loop_option:
  assumes "mem opt = P @ k # s # bs" "length P + 1 < len opt" "k \<noteq> 0" "k \<noteq> 1"
    and "2 \<le> unat s" "unat s \<le> n"
  shows "parse_loop syn opt (length P) n st =
    bnd (parse_option syn opt (length P + 2) k (unat s) st)
      (\<lambda>st. parse_loop syn opt (length P + unat s) (n - unat s) st)"
proof -
  have "at_index opt (length P) = ret k" using assms(1,2) by (intro at_index_at) simp_all
  moreover have "at_index opt (length P + 1) = ret s"
    using assms(1,2) by (intro at_index_at [of opt "P @ [k]"]) simp_all
  moreover have "length P + 2 + (unat s - 2) = length P + unat s" using assms(5) by simp
  ultimately show ?thesis using assms(3-6) by (subst parse_loop.simps) simp
qed

lemma parse_one:
  assumes m: "mem opt = P @ opt_bytes x @ T" and l: "length P + length (opt_bytes x) \<le> len opt"
    and wf: "wf_opt x"
  shows "parse_loop syn opt (length P) (length (opt_bytes x) + n) (rx, skb) =
    parse_loop syn opt (length P + length (opt_bytes x)) n (apply_opt syn x rx, skb)"
proof (cases x)
  case ONop
  then show ?thesis using m l
    by (subst parse_loop.simps) (simp add: at_index_at [of opt P 1 T])
next
  case (OMss v)
  have "bytes_of opt (length P + 2) (length P + 2 + 2) = ret (le16 (Htons v))"
    using m OMss by (intro bytes_of_at [of opt "P @ [2, 4]" _ T]) simp_all
  then show ?thesis using m l OMss parse_loop_option [of opt P 2 4 "le16 (Htons v) @ T" "4 + n"]
    by (simp add: parse_option_def Byte2uint16_exact clamp_def Let_def)
next
  case (OWscale s)
  have "at_index opt (length P + 2) = ret s"
    using m l OWscale by (intro at_index_at [of opt "P @ [3, 3]" s T]) simp_all
  then have "parse_loop syn opt (length P) (3 + n) (rx, skb)
      = parse_loop syn opt (length P + 3) n (apply_opt syn (OWscale s) rx, skb)"
    using m l OWscale parse_loop_option [of opt P 3 3 "s # T" "3 + n"]
    by (cases "s \<le> 14") (simp_all add: parse_option_def Let_def min_def not_less [symmetric])
  then show ?thesis using OWscale by (simp add: numeral_3_eq_3)
next
  case OSackPerm
  then show ?thesis using m l parse_loop_option [of opt P 4 2 T "2 + n"]
    by (simp add: parse_option_def tcpSackReset_def)
next
  case (OTimestamp v w)
  have "bytes_of opt (length P + 2) (length P + 2 + 4) = ret (le32 (Htonl v))"
    using m OTimestamp by (intro bytes_of_at [of opt "P @ [8, 10]" _ "le32 (Htonl w) @ T"]) simp_all
  moreover have "bytes_of opt (length P + 2 + 4) (length P + 2 + 8) = ret (le32 (Htonl w))"
    using m OTimestamp by (intro bytes_of_at [of opt "P @ 8 # 10 # le32 (Htonl v)" _ T]) simp_all
  ultimately show ?thesis
    using m l OTimestamp parse_loop_option [of opt P 8 10 "le32 (Htonl v) @ le32 (Htonl w) @ T" "10 + n"]
    by (simp add: parse_option_def Byte2uint32_exact)
next
  case (OUnknown k bs)
  have "length bs + 2 < 256" using wf OUnknown by simp
  then have s: "unat (of_nat (length bs + 2) :: u8) = length bs + 2"
    by (rule unat_of_nat_u8)
  show ?thesis
    using m l OUnknown wf s parse_loop_option [of opt P k "of_nat (length bs + 2)" "bs @ T" "length bs + 2 + n"]
    by (simp add: parse_option_def add.assoc)
qed

theorem parse_options:
  assumes "mem opt = P @ opts_bytes xs @ T" "length P + length (opts_bytes xs) \<le> len opt"
    and "\<forall>x \<in> set xs. wf_opt x"
  shows "parse_loop syn opt (length P) (length (opts_bytes xs) + n) (rx, skb) =
    parse_loop syn opt (length P + length (opts_bytes xs)) n (apply_opts syn xs rx, skb)"
  using assms
proof (induction xs arbitrary: P rx)
  case Nil
  then show ?case by simp
next
  case (Cons x xs)
  have "parse_loop syn opt (length P) (length (opt_bytes x) + (length (opts_bytes xs) + n)) (rx, skb) =
      parse_loop syn opt (length P + length (opt_bytes x)) (length (opts_bytes xs) + n) (apply_opt syn x rx, skb)"
    using Cons.prems by (intro parse_one [where T = "opts_bytes xs @ T"]) simp_all
  with Cons.IH [of "P @ opt_bytes x" "apply_opt syn x rx"] Cons.prems show ?case
    by (simp add: add.assoc)
qed

lemma parse_loop_end: "parse_loop syn opt i 0 st = ret st"
  by (simp add: parse_loop.simps)

lemma parse_loop_EOL:
  "mem opt = P @ 0 # T \<Longrightarrow> length P < len opt \<Longrightarrow> parse_loop syn opt (length P) n st = ret st"
  by (subst parse_loop.simps) (simp add: at_index_at [of opt P 0 T])

text \<open>A kind byte that is the last byte of the slice: the size byte is read one past the end.\<close>

lemma parse_loop_past_end:
  assumes "mem opt = P @ k # T" "len opt = length P + 1" "k \<noteq> 0" "k \<noteq> 1" "0 < n"
  shows "parse_loop syn opt (length P) n st = panic IndexRange"
proof -
  have "at_index opt (length P) = ret k" using assms(1,2) by (intro at_index_at) simp_all
  moreover have "at_index opt (length P + 1) = panic IndexRange" using assms(2) by (simp add: at_index_def)
  ultimately show ?thesis using assms(3-5) by (subst parse_loop.simps) simp
qed

text \<open>A SACK option whose size is a whole number of blocks, when SACK was permitted: the parser stores where the
  option is through \<open>set_sacked\<close>, which hits the length of the packet's buffer.\<close>

definition sack_bytes :: "bytes \<Rightarrow> bytes" where
  "sack_bytes bs = 5 # of_nat (2 + length bs) # bs"

lemma length_sack_bytes [simp]: "length (sack_bytes bs) = 2 + length bs"
  by (simp add: sack_bytes_def)

lemma parse_sack:
  assumes "mem opt = P @ sack_bytes bs @ T" and "length P + 2 + length bs \<le> len opt"
    and "length bs = 8 * j" and "1 \<le> j" and "length bs < 250" and "sack_ok rx > 0"
  shows "parse_loop syn opt (length P) (2 + length bs) (rx, skb) = ret (rx, set_sacked (20 + of_nat (length P)) skb)"
proof -
  let ?s = "of_nat (2 + length bs) :: u8"
  have s: "unat ?s = 2 + length bs" using assms(5) by (intro unat_of_nat_u8) simp
  have "parse_option syn opt (length P + 2) 5 (2 + length bs) (rx, skb)
      = ret (rx, set_sacked (20 + of_nat (length P)) skb)"
    using assms(3,4,6) by (simp add: parse_option_def)
  with s parse_loop_option [of opt P 5 ?s "bs @ T" "2 + length bs" syn "(rx, skb)"] assms(1,2) show ?thesis
    by (simp add: parse_loop_end sack_bytes_def)
qed

lemma sacked_length:
  assumes "k \<le> 30"
  shows "2 ^ 60 \<le> len (Buffer (set_sacked (20 + of_nat k) skb))"
proof -
  have "unat (20 + of_nat k :: u8) = unat (of_nat (20 + k) :: u8)" by simp
  also have "\<dots> = 20 + k" using assms by (intro unat_of_nat_u8) simp
  finally show ?thesis by (simp add: set_sacked_def)
qed

end
