(* ===== verification/Tcp_Conn.thy ===== *)
theory Tcp_Conn
  imports Tcp_Options
begin

unbundle bit_operations_syntax

text \<open>
  The connections of \<open>net/tcp/tcpconn.go\<close>: listeners and connections in their two tables, one
  iteration of \<open>listenForPackets\<close>, the segments it answers with, and the reader's side. Pointers to
  listeners and connections are positions in two lists; the tables map strings to them. A channel
  operation that would wait yields \<open>Blocked\<close>: the goroutine stands still until another one acts.
  The random sequence number, the memory \<open>Alloc\<close> returns and whether the device accepts a frame
  are arguments. \<open>TCPSocket\<close>, embedded in every connection, is never read or written.
\<close>

section \<open>State\<close>

definition STATE_CLOSED :: nat where [state_consts]: "STATE_CLOSED = 0"
definition STATE_SYN_RECEIVED :: nat where [state_consts]: "STATE_SYN_RECEIVED = 1"
definition STATE_SYN_SENT :: nat where [state_consts]: "STATE_SYN_SENT = 2"
definition STATE_ESTABLISHED :: nat where [state_consts]: "STATE_ESTABLISHED = 3"

text \<open>A channel that was not made is \<open>None\<close>; \<open>sem\<close> counts the tokens in its channel of capacity 1.\<close>

record TCPConn =
  localIP :: u32
  localPort :: u16
  remoteIP :: u32
  remotePort :: u16
  state :: nat
  recvWindow :: u16
  recvNextSeq :: u32
  sendNextSeq :: u32
  sendWindow :: u16
  unacked :: u32
  ipConn :: "IPConn option"
  readChan :: "bytes option"
  sem :: "nat option"

record TCPListener =
  l_localIP :: u32
  l_localPort :: u16
  connChannel :: "nat list"

record tcp_state =
  connections :: "string \<Rightarrow> nat option"
  listeners :: "string \<Rightarrow> nat option"
  conns :: "TCPConn list"
  lsts :: "TCPListener list"
  sent :: "bytes list"

text \<open>The tables as \<open>Start\<close> makes them.\<close>

definition Start_state :: tcp_state where
  "Start_state = \<lparr>connections = Map.empty, listeners = Map.empty, conns = [], lsts = [], sent = []\<rparr>"

section \<open>Keys\<close>

text \<open>\<open>string(v)\<close> on an integer: the UTF-8 bytes of the code point, of U+FFFD for a surrogate.\<close>

definition rune_string :: "nat \<Rightarrow> string" where
  "rune_string v =
     (if v < 0x80 then [char_of v]
      else if v < 0x800 then [char_of (0xC0 + v div 64), char_of (0x80 + v mod 64)]
      else let v = (if 0xD800 \<le> v \<and> v \<le> 0xDFFF then 0xFFFD else v) in
        [char_of (0xE0 + v div 4096), char_of (0x80 + v div 64 mod 64), char_of (0x80 + v mod 64)])"

definition ident :: "TCPConn \<Rightarrow> string" where
  "ident conn = show_dec (unat (localIP conn)) @ '','' @ show_dec (unat (localPort conn)) @ '',''
     @ show_dec (unat (remoteIP conn)) @ '','' @ show_dec (unat (remotePort conn))"

text \<open>The key \<open>listenForPackets\<close> looks a packet's connection up by.\<close>

definition packet_ident :: "IPHeader \<Rightarrow> TCPHeader \<Rightarrow> string" where
  "packet_ident ipHdr tcpHdr = Destination ipHdr @ '','' @ show_dec (unat (DestPort tcpHdr)) @ '',''
     @ Source ipHdr @ '','' @ show_dec (unat (SourcePort tcpHdr))"

definition listener_key :: "string \<Rightarrow> u16 \<Rightarrow> string" where
  "listener_key ip port = ip @ rune_string (unat port)"

section \<open>Listening and accepting\<close>

definition Listen :: "string \<Rightarrow> u16 \<Rightarrow> tcp_state \<Rightarrow> nat \<times> tcp_state" where
  "Listen ip port s =
     (let lst = length (lsts s) in
      (lst, s\<lparr>lsts := lsts s @ [\<lparr>l_localIP = Ip2long ip, l_localPort = Htons port, connChannel = []\<rparr>],
             listeners := (listeners s)(listener_key ip (Htons port) \<mapsto> lst)\<rparr>))"

definition Accept :: "nat \<Rightarrow> tcp_state \<Rightarrow> (nat \<times> tcp_state) go" where
  "Accept lst s =
     (case connChannel (lsts s ! lst) of [] \<Rightarrow> panic Blocked
      | c # cs \<Rightarrow> ret (c, s\<lparr>lsts := (lsts s)[lst := (lsts s ! lst)\<lparr>connChannel := cs\<rparr>]\<rparr>))"

section \<open>Answers\<close>

definition TCPConn_Send ::
  "(bytes \<Rightarrow> bool) \<Rightarrow> TCPConn \<Rightarrow> SkBuff \<Rightarrow> bytes list \<Rightarrow> (nat \<times> bytes list) go" where
  "TCPConn_Send write_fails conn skbuf out =
     (case ipConn conn of None \<Rightarrow> panic NilDeref
      | Some c \<Rightarrow> bnd (IPConn_Send write_fails c skbuf out) (\<lambda>(n, out, skbuf). ret (n, out)))"

text \<open>\<open>pool.Alloc(54)\<close>: \<open>chunk\<close> is the memory of the chunk, with whatever it holds.\<close>

definition alloc54 :: "bytes \<Rightarrow> go_slice" where
  "alloc54 chunk = \<lparr>mem = chunk, len = 54\<rparr>"

definition sendAck ::
  "(bytes \<Rightarrow> bool) \<Rightarrow> bytes \<Rightarrow> TCPConn \<Rightarrow> bytes list \<Rightarrow> (TCPConn \<times> bytes list) go" where
  "sendAck write_fails chunk conn out =
     (let skbuf = NewSkb\<lparr>Buffer := alloc54 chunk, TransportIndex := 34\<rparr> in
     bnd (Byte2Pointer (Buffer skbuf) 34 (len (Buffer skbuf))) (\<lambda>p.
     let skbuf = skbuf\<lparr>TransportHdr := p, PayloadLen := 20\<rparr> in
     bnd (assign_tcp (Buffer skbuf) p (\<lambda>h. h\<lparr>SourcePort := localPort conn\<rparr>)) (\<lambda>b.
     bnd (assign_tcp b p (\<lambda>h. h\<lparr>DestPort := remotePort conn\<rparr>)) (\<lambda>b.
     bnd (assign_tcp b p (\<lambda>h. h\<lparr>Seq := sendNextSeq conn\<rparr>)) (\<lambda>b.
     bnd (assign_tcp b p (ACK (recvNextSeq conn))) (\<lambda>b.
     bnd (assign_tcp b p (\<lambda>h. h\<lparr>DataOffsetAndFlags := DataOffsetAndFlags h OR push_bit 4 (20 div 4)\<rparr>)) (\<lambda>b.
     bnd (assign_tcp b p (\<lambda>h. h\<lparr>Window := recvWindow conn\<rparr>)) (\<lambda>b.
     bnd (assign_tcp b p (\<lambda>h. h\<lparr>TCPChecksum := 0\<rparr>)) (\<lambda>b.
     bnd (assign_tcp b p (\<lambda>h. h\<lparr>UrgentPointer := 0\<rparr>)) (\<lambda>b.
     let skbuf = skbuf\<lparr>DataEnd := TransportIndex skbuf + 20, NetworkIndex := 14, Buffer := b,
                       CheckPotioner := map_option (\<lambda>a. a + 16) p\<rparr> in
     bnd (load_tcp b p) (\<lambda>h.
     let conn = conn\<lparr>sendNextSeq := Htonl (Ntohl (Seq h) + 1), unacked := Seq h\<rparr> in
     bnd (TCPConn_Send write_fails conn skbuf out) (\<lambda>(n, out).
     ret (conn, out)))))))))))))"

definition sendSynAck ::
  "(bytes \<Rightarrow> bool) \<Rightarrow> u32 \<Rightarrow> bytes \<Rightarrow> TCPConn \<Rightarrow> bytes list \<Rightarrow> (TCPConn \<times> bytes list) go" where
  "sendSynAck write_fails isn chunk conn out =
     (let skbuf = NewSkb\<lparr>Buffer := alloc54 chunk, TransportIndex := 34\<rparr> in
     bnd (Byte2Pointer (Buffer skbuf) 34 (len (Buffer skbuf))) (\<lambda>p.
     let skbuf = skbuf\<lparr>TransportHdr := p, PayloadLen := 20\<rparr> in
     bnd (assign_tcp (Buffer skbuf) p (\<lambda>h. h\<lparr>SourcePort := localPort conn\<rparr>)) (\<lambda>b.
     bnd (assign_tcp b p (\<lambda>h. h\<lparr>DestPort := remotePort conn\<rparr>)) (\<lambda>b.
     bnd (assign_tcp b p (\<lambda>h. h\<lparr>Seq := isn\<rparr>)) (\<lambda>b.
     bnd (assign_tcp b p (ACK (recvNextSeq conn))) (\<lambda>b.
     bnd (assign_tcp b p (\<lambda>h. h\<lparr>DataOffsetAndFlags := DataOffsetAndFlags h OR CTRL_SYN\<rparr>)) (\<lambda>b.
     bnd (assign_tcp b p (\<lambda>h. h\<lparr>DataOffsetAndFlags := DataOffsetAndFlags h OR push_bit 4 (20 div 4)\<rparr>)) (\<lambda>b.
     bnd (assign_tcp b p (\<lambda>h. h\<lparr>Window := recvWindow conn\<rparr>)) (\<lambda>b.
     bnd (assign_tcp b p (\<lambda>h. h\<lparr>TCPChecksum := 0\<rparr>)) (\<lambda>b.
     bnd (assign_tcp b p (\<lambda>h. h\<lparr>UrgentPointer := 0\<rparr>)) (\<lambda>b.
     let skbuf = skbuf\<lparr>DataEnd := TransportIndex skbuf + 20, NetworkIndex := 14, Buffer := b,
                       CheckPotioner := map_option (\<lambda>a. a + 16) p\<rparr> in
     bnd (load_tcp b p) (\<lambda>h.
     let conn = conn\<lparr>sendNextSeq := Htonl (Ntohl (Seq h) + 1), unacked := Seq h\<rparr> in
     bnd (TCPConn_Send write_fails conn skbuf out) (\<lambda>(n, out).
     ret (conn, out))))))))))))))"

section \<open>The run loop\<close>

text \<open>Pushing the payload into the reader's channel, of capacity \<open>1024 * 10\<close>.\<close>

definition CHAN_CAP :: nat where "CHAN_CAP = 1024 * 10"

fun push_all :: "bytes \<Rightarrow> bytes \<Rightarrow> bytes go" where
  "push_all q [] = ret q"
| "push_all q (v # vs) = (if length q < CHAN_CAP then push_all (q @ [v]) vs else panic Blocked)"

text \<open>The branch for a SYN that reaches a listener: the new connection is entered in the table.\<close>

definition new_conn ::
  "TCPListener \<Rightarrow> IPHeader \<Rightarrow> TCPHeader \<Rightarrow> SkBuff \<Rightarrow> tcp_state \<Rightarrow> (nat \<times> SkBuff \<times> tcp_state) go" where
  "new_conn lst ipHdr tcpHdr skbuf s =
     (let conn = \<lparr>localIP = l_localIP lst, localPort = l_localPort lst, remoteIP = Saddr ipHdr,
                  remotePort = SourcePort tcpHdr, state = STATE_SYN_RECEIVED, recvWindow = 0,
                  recvNextSeq = 0, sendNextSeq = 0, sendWindow = 0, unacked = 0, ipConn = None,
                  readChan = None, sem = None\<rparr>;
          tmp_opt = (tcpClearOptions zero_options)\<lparr>mss_clamp := 536\<rparr> in
     bnd (tcpParseOpt skbuf tmp_opt) (\<lambda>(tmp_opt, skbuf).
     bnd (NewIPConn (l_localIP lst) (remoteIP conn) skbuf) (\<lambda>ip.
     let conn = conn\<lparr>ipConn := Some ip\<rparr>; c = length (conns s) in
     ret (c, skbuf, s\<lparr>conns := conns s @ [conn], connections := (connections s)(ident conn \<mapsto> c)\<rparr>))))"

definition set_conn :: "nat \<Rightarrow> TCPConn \<Rightarrow> tcp_state \<Rightarrow> tcp_state" where
  "set_conn c conn s = s\<lparr>conns := (conns s)[c := conn]\<rparr>"

text \<open>\<open>tl.connChannel <- tcpConn\<close>, on a channel of capacity 5.\<close>

definition offer :: "nat option \<Rightarrow> nat \<Rightarrow> tcp_state \<Rightarrow> tcp_state go" where
  "offer lst c s =
     (case lst of None \<Rightarrow> panic NilDeref
      | Some i \<Rightarrow> if length (connChannel (lsts s ! i)) < 5
                  then ret (s\<lparr>lsts := (lsts s)[i := (lsts s ! i)\<lparr>connChannel := connChannel (lsts s ! i) @ [c]\<rparr>]\<rparr>)
                  else panic Blocked)"

text \<open>The \<open>switch\<close> on the connection's state.\<close>

definition conn_step ::
  "(bytes \<Rightarrow> bool) \<Rightarrow> u32 \<Rightarrow> bytes \<Rightarrow> nat option \<Rightarrow> TCPHeader \<Rightarrow> SkBuff \<Rightarrow> nat \<Rightarrow> tcp_state \<Rightarrow> tcp_state go" where
  "conn_step write_fails isn chunk lst tcpHdr skbuf c s =
     (let conn = conns s ! c in
      if state conn = STATE_SYN_SENT \<or> state conn = STATE_SYN_RECEIVED then
        let conn = conn\<lparr>recvNextSeq := Htonl (Ntohl (Seq tcpHdr) + 1), recvWindow := Window tcpHdr\<rparr> in
        if IsACK tcpHdr then
          offer lst c (set_conn c (conn\<lparr>state := STATE_ESTABLISHED, readChan := Some [], sem := Some 0\<rparr>) s)
        else
          bnd (sendSynAck write_fails isn chunk conn (sent s)) (\<lambda>(conn, out).
          ret (set_conn c conn (s\<lparr>sent := out\<rparr>)))
      else if state conn = STATE_ESTABLISHED then
        let conn = conn\<lparr>recvNextSeq := Htonl (Ntohl (Seq tcpHdr) + ucast (PayloadLen skbuf)),
                        recvWindow := Window tcpHdr\<rparr> in
        bnd (sendAck write_fails chunk conn (sent s)) (\<lambda>(conn, out).
        case sem conn of None \<Rightarrow> panic Blocked
        | Some n \<Rightarrow> if n \<ge> 1 then panic Blocked else
            bnd (subslice (Buffer skbuf) (unat (AppIndex skbuf)) (len (Buffer skbuf))) (\<lambda>data.
            case readChan conn of None \<Rightarrow> panic NilDeref
            | Some q \<Rightarrow>
                bnd (push_all q (contents data)) (\<lambda>q.
                ret (set_conn c (conn\<lparr>readChan := Some q\<rparr>) (s\<lparr>sent := out\<rparr>)))))
      else ret s)"

definition handle_packet ::
  "(bytes \<Rightarrow> bool) \<Rightarrow> u32 \<Rightarrow> bytes \<Rightarrow> SkBuff \<Rightarrow> tcp_state \<Rightarrow> tcp_state go" where
  "handle_packet write_fails isn chunk skbuf s =
     bnd (Parse skbuf) (\<lambda>skbuf.
     bnd (load_tcp (Buffer skbuf) (TransportHdr skbuf)) (\<lambda>tcpHdr.
     bnd (load_ip (Buffer skbuf) (NetworkHdr skbuf)) (\<lambda>ipHdr.
     let lst = listeners s (listener_key (Destination ipHdr) (DestPort tcpHdr)) in
     case connections s (packet_ident ipHdr tcpHdr) of
       Some c \<Rightarrow> conn_step write_fails isn chunk lst tcpHdr skbuf c s
     | None \<Rightarrow>
         (case lst of
            Some i \<Rightarrow>
              if IsSYN tcpHdr then
                bnd (new_conn (lsts s ! i) ipHdr tcpHdr skbuf s) (\<lambda>(c, skbuf, s).
                conn_step write_fails isn chunk lst tcpHdr skbuf c s)
              else panic NilDeref
          | None \<Rightarrow> if IsSYN tcpHdr then ret s else panic NilDeref))))"

section \<open>Reading\<close>

text \<open>\<open>Read\<close> into a slice of length \<open>n\<close> and capacity \<open>cap\<close>: the bytes stored and the connection.\<close>

definition Read :: "nat \<Rightarrow> nat \<Rightarrow> TCPConn \<Rightarrow> (bytes \<times> TCPConn) go" where
  "Read n cap conn =
     (case readChan conn of None \<Rightarrow> panic NilDeref
      | Some q \<Rightarrow>
          let amountToRead = min cap (length q) in
          (case sem conn of None \<Rightarrow> panic Blocked
           | Some t \<Rightarrow>
               if t \<ge> 1 then panic Blocked
               else if amountToRead \<le> n
               then ret (take amountToRead q, conn\<lparr>readChan := Some (drop amountToRead q)\<rparr>)
               else panic IndexRange))"

end
