(* ===== verification/Tcp_Send.thy ===== *)
theory Tcp_Send
  imports Tcp_Conn
begin

unbundle bit_operations_syntax

text \<open>
  What the two answering functions put on the wire: the segment header over a 54-byte buffer, the
  network header in front of it by \<open>IPConn_Send_frame\<close>, the link header by \<open>EthConn_Send_frame\<close>.
\<close>

lemma length_TCPHeader_bytes [simp]: "length (TCPHeader_bytes h) = 20"
  using tcp.length_enc by (simp add: LEN_TCPHDR_def)

lemma TCPHeader_bytes_not_Nil [simp]: "TCPHeader_bytes h \<noteq> []"
  by (simp add: TCPHeader_bytes_def le16_def)

text \<open>A header with a zero checksum, cut at the checksum field.\<close>

definition tcp_front :: "TCPHeader \<Rightarrow> bytes" where
  "tcp_front h = le16 (SourcePort h) @ le16 (DestPort h) @ le32 (Seq h) @ le32 (Ack h)
     @ le16 (DataOffsetAndFlags h) @ le16 (Window h)"

lemma length_tcp_front [simp]: "length (tcp_front h) = 16"
  by (simp add: tcp_front_def)

lemma TCPHeader_bytes_cut:
  "TCPChecksum h = 0 \<Longrightarrow> TCPHeader_bytes h = tcp_front h @ 0 # 0 # le16 (UrgentPointer h)"
  by (simp add: TCPHeader_bytes_def tcp_front_def) (simp add: le16_def)

definition segment :: "IPConn \<Rightarrow> TCPHeader \<Rightarrow> bytes" where
  "segment c h = (let b = TCPHeader_bytes h in store_be16 16 (Checksum (out_bytes c 20 @ b)) b)"

text \<open>The frame of a bare segment: \<open>pad\<close> is byte 13, which nothing writes.\<close>

definition frame :: "IPConn \<Rightarrow> u8 \<Rightarrow> TCPHeader \<Rightarrow> bytes" where
  "frame c pad h = mac_bytes (SrcMAC (Header (conn_EthConn c))) @ mac_bytes (DstMAC (Header (conn_EthConn c)))
     @ 8 # pad # out_bytes c 20 @ segment c h"

text \<open>The outcome of sending a bare segment on a connection whose template has a zero checksum.\<close>

definition transmit :: "(bytes \<Rightarrow> bool) \<Rightarrow> IPConn \<Rightarrow> u8 \<Rightarrow> TCPHeader \<Rightarrow> bytes list \<Rightarrow> bytes list go" where
  "transmit write_fails c pad h out =
     (if \<not> folds_once (IPHeader_bytes (out_header c 20)) then panic (Fatal ''Unable to verify IP Checksum'')
      else if \<not> folds_once (out_bytes c 20 @ TCPHeader_bytes h)
           then panic (Fatal ''Unable to verify TCP Checksum'')
      else if write_fails (frame c pad h) then panic (Fatal ''WritePacketData'')
      else ret (out @ [frame c pad h]))"

lemma length_14_split:
  assumes "length A = 14"
  obtains B pad where "A = B @ [pad]" "length B = 13"
  using assms by (cases A rule: rev_cases) auto

theorem IPConn_Send_segment:
  assumes m: "mem (Buffer skbuf) = A @ H @ TCPHeader_bytes h @ R" and l: "len (Buffer skbuf) = 54"
    and A: "length A = 14" and H: "length H = 20" and h: "TCPChecksum h = 0"
    and i: "NetworkIndex skbuf = 14" "DataEnd skbuf = 54" "PayloadLen skbuf = 20"
    and p: "CheckPotioner skbuf = Some 50" and c0: "Check (ipHeader c) = 0"
  shows "bnd (IPConn_Send write_fails c skbuf out) (\<lambda>(n, out, skbuf). ret (n, out))
    = bnd (transmit write_fails c (A ! 13) h out) (\<lambda>out. ret (54, out))"
proof -
  let ?S2 = "le16 (UrgentPointer h)"
  obtain B pad where B: "A = B @ [pad]" "length B = 13" using length_14_split [OF A] .
  have pad: "A ! 13 = pad" using B by (simp add: nth_append)
  have cut: "TCPHeader_bytes h = tcp_front h @ 0 # 0 # ?S2" using h by (rule TCPHeader_bytes_cut)
  let ?seg = "store_be16 (length (tcp_front h)) (Checksum (out_bytes c 20 @ tcp_front h @ 0 # 0 # ?S2))
    (tcp_front h @ 0 # 0 # ?S2)"
  let ?m = "A @ out_bytes c 20 @ ?seg @ R"
  let ?skb = "skbuf\<lparr>Buffer := (Buffer skbuf)\<lparr>mem := ?m\<rparr>, MacIndex := 0\<rparr>"
  have seg: "?seg = segment c h" by (simp add: segment_def Let_def cut)
  have send: "IPConn_Send write_fails c skbuf out =
      (if \<not> folds_once (IPHeader_bytes (out_header c 20)) then panic (Fatal ''Unable to verify IP Checksum'')
       else if \<not> folds_once (out_bytes c 20 @ TCPHeader_bytes h)
       then panic (Fatal ''Unable to verify TCP Checksum'')
       else EthConn_Send write_fails (conn_EthConn c) ?skb out)"
    using IPConn_Send_frame [of skbuf A H "tcp_front h" ?S2 R c write_fails out] m A H i p c0
    by (simp add: cut)
  have f: "frame_of (conn_EthConn c) (contents (Buffer ?skb)) = frame c pad h"
    using A B by (simp add: contents_def l frame_of_def frame_def seg) (simp add: segment_def Let_def cut)
  have e: "bnd (EthConn_Send write_fails (conn_EthConn c) ?skb out) (\<lambda>(n, out, skbuf). ret (n, out))
      = (if write_fails (frame c pad h) then panic (Fatal ''WritePacketData'')
         else ret (54, out @ [frame c pad h]))"
    using EthConn_Send_frame [of ?skb write_fails "conn_EthConn c" out] A f l by simp
  show ?thesis unfolding send transmit_def pad using e by simp
qed

section \<open>The two answers\<close>

definition synack_header :: "TCPConn \<Rightarrow> u32 \<Rightarrow> u16 \<Rightarrow> TCPHeader" where
  "synack_header conn isn old = \<lparr>SourcePort = localPort conn, DestPort = remotePort conn, Seq = isn,
     Ack = recvNextSeq conn, DataOffsetAndFlags = old OR CTRL_ACK OR CTRL_SYN OR push_bit 4 5,
     Window = recvWindow conn, TCPChecksum = 0, UrgentPointer = 0\<rparr>"

definition ack_header :: "TCPConn \<Rightarrow> u16 \<Rightarrow> TCPHeader" where
  "ack_header conn old = \<lparr>SourcePort = localPort conn, DestPort = remotePort conn, Seq = sendNextSeq conn,
     Ack = recvNextSeq conn, DataOffsetAndFlags = old OR CTRL_ACK OR push_bit 4 5,
     Window = recvWindow conn, TCPChecksum = 0, UrgentPointer = 0\<rparr>"

text \<open>What the chunk held where the data offset and the flags go: they are or-ed into it.\<close>

definition stale_flags :: "bytes \<Rightarrow> u16" where
  "stale_flags chunk = rd16 chunk 46"

lemma chunk_split:
  assumes "54 \<le> length chunk"
  obtains A H h R where "chunk = A @ H @ TCPHeader_bytes h @ R" "length A = 14" "length H = 20"
    "A ! 13 = chunk ! 13" "DataOffsetAndFlags h = stale_flags chunk"
proof -
  let ?A = "take 14 chunk" and ?H = "take 20 (drop 14 chunk)" and ?T = "take 20 (drop 34 chunk)"
    and ?R = "drop 54 chunk"
  have c: "chunk = ?A @ ?H @ ?T @ ?R"
    using append_take_drop_id [of 20 "drop 34 chunk"] append_take_drop_id [of 20 "drop 14 chunk"]
      append_take_drop_id [of 14 chunk] by (simp only: drop_drop) simp
  have "length ?T = LEN_TCPHDR" using assms by (simp add: LEN_TCPHDR_def)
  then obtain h where h: "?T = TCPHeader_bytes h" by (rule tcp.obtain_struct)
  have "DataOffsetAndFlags h = DataOffsetAndFlags (TCPHeader_of ?T)" by (simp add: h tcp.dec_enc)
  also have "\<dots> = stale_flags chunk" using assms by (simp add: TCPHeader_of_def rd16_def stale_flags_def)
  finally show ?thesis using assms c h that [of ?A ?H h ?R] by simp
qed

text \<open>The two functions build their segment in place; this is what both start from.\<close>

lemma segment_in_place:
  assumes "length A = 14" "length H = 20" "chunk = A @ H @ TCPHeader_bytes h @ R"
  shows "Byte2Pointer (alloc54 chunk) 34 54 = ret (Some 34)"
    and "assign_tcp (alloc54 chunk) (Some 34) f = ret ((alloc54 chunk)\<lparr>mem := A @ H @ TCPHeader_bytes (f h) @ R\<rparr>)"
    and "assign_tcp ((alloc54 chunk)\<lparr>mem := A @ H @ TCPHeader_bytes g @ R\<rparr>) (Some 34) f
      = ret ((alloc54 chunk)\<lparr>mem := A @ H @ TCPHeader_bytes (f g) @ R\<rparr>)"
    and "load_tcp ((alloc54 chunk)\<lparr>mem := A @ H @ TCPHeader_bytes g @ R\<rparr>) (Some 34) = ret g"
proof -
  have at: "length (A @ H) = 34" using assms by simp
  show "Byte2Pointer (alloc54 chunk) 34 54 = ret (Some 34)"
    using assms length_TCPHeader_bytes [of h]
    by (auto simp: alloc54_def Byte2Pointer_def subslice_def simp del: length_TCPHeader_bytes)
  have b: "alloc54 chunk = (alloc54 chunk)\<lparr>mem := A @ H @ TCPHeader_bytes h @ R\<rparr>"
    using assms(3) by (simp add: alloc54_def)
  show w: "assign_tcp ((alloc54 chunk)\<lparr>mem := A @ H @ TCPHeader_bytes g @ R\<rparr>) (Some 34) f
      = ret ((alloc54 chunk)\<lparr>mem := A @ H @ TCPHeader_bytes (f g) @ R\<rparr>)" for f g
    using tcp.assign_at [OF at] by simp
  show "assign_tcp (alloc54 chunk) (Some 34) f = ret ((alloc54 chunk)\<lparr>mem := A @ H @ TCPHeader_bytes (f h) @ R\<rparr>)"
    by (subst b) (rule w)
  show "load_tcp ((alloc54 chunk)\<lparr>mem := A @ H @ TCPHeader_bytes g @ R\<rparr>) (Some 34) = ret g"
    using tcp.load_at [OF at] by simp
qed

lemma len_alloc54 [simp]: "len (alloc54 chunk) = 54"
  by (simp add: alloc54_def)

lemma bnd_tag: "bnd (bnd m (\<lambda>x. ret (n, x))) (\<lambda>(n, x). f x) = bnd m f"
  by (simp add: bnd_assoc)

theorem sendSynAck_transmit:
  assumes "54 \<le> length chunk" "ipConn conn = Some c" "Check (ipHeader c) = 0"
  shows "sendSynAck write_fails isn chunk conn out =
    bnd (transmit write_fails c (chunk ! 13) (synack_header conn isn (stale_flags chunk)) out) (\<lambda>out.
    ret (conn\<lparr>sendNextSeq := Htonl (Ntohl isn + 1), unacked := isn\<rparr>, out))"
proof -
  obtain A H h R where c: "chunk = A @ H @ TCPHeader_bytes h @ R" "length A = 14" "length H = 20"
    "A ! 13 = chunk ! 13" "DataOffsetAndFlags h = stale_flags chunk" using chunk_split [OF assms(1)] .
  have h: "DataOffsetAndFlags h = rd16 chunk 46" using c(5) by (simp add: stale_flags_def)
  show ?thesis
    using c(4) h assms(2,3) c(2,3)
    by (cases h) (simp add: sendSynAck_def segment_in_place [OF c(2,3,1)] TCPConn_Send_def
      IPConn_Send_segment [where A = A and H = H and R = R] bnd_tag ACK_def synack_header_def
      stale_flags_def or.assoc)
qed

theorem sendAck_transmit:
  assumes "54 \<le> length chunk" "ipConn conn = Some c" "Check (ipHeader c) = 0"
  shows "sendAck write_fails chunk conn out =
    bnd (transmit write_fails c (chunk ! 13) (ack_header conn (stale_flags chunk)) out) (\<lambda>out.
    ret (conn\<lparr>sendNextSeq := Htonl (Ntohl (sendNextSeq conn) + 1), unacked := sendNextSeq conn\<rparr>, out))"
proof -
  obtain A H h R where c: "chunk = A @ H @ TCPHeader_bytes h @ R" "length A = 14" "length H = 20"
    "A ! 13 = chunk ! 13" "DataOffsetAndFlags h = stale_flags chunk" using chunk_split [OF assms(1)] .
  have h: "DataOffsetAndFlags h = rd16 chunk 46" using c(5) by (simp add: stale_flags_def)
  show ?thesis
    using c(4) h assms(2,3) c(2,3)
    by (cases h) (simp add: sendAck_def segment_in_place [OF c(2,3,1)] TCPConn_Send_def
      IPConn_Send_segment [where A = A and H = H and R = R] bnd_tag ACK_def ack_header_def
      stale_flags_def or.assoc)
qed

end
