(* ===== verification/Tcp_Data.thy ===== *)
theory Tcp_Data
  imports Tcp_Send
begin

text \<open>
  A segment on an established connection: what the run loop acknowledges and pushes into the reader's
  channel, and what \<open>Read\<close> then returns.
\<close>

lemma push_all_eq:
  "push_all q vs = (if length q + length vs \<le> CHAN_CAP \<or> vs = [] then ret (q @ vs) else panic Blocked)"
  by (induction q vs rule: push_all.induct) auto

text \<open>The connection after a segment of \<open>n\<close> bytes was acknowledged.\<close>

definition acked :: "TCPConn \<Rightarrow> TCPHeader \<Rightarrow> u16 \<Rightarrow> TCPConn" where
  "acked conn th n = conn\<lparr>recvNextSeq := Htonl (Ntohl (Seq th) + ucast n), recvWindow := Window th\<rparr>"

definition delivered :: "TCPConn \<Rightarrow> TCPHeader \<Rightarrow> u16 \<Rightarrow> bytes \<Rightarrow> TCPConn" where
  "delivered conn th n q = (acked conn th n)
     \<lparr>sendNextSeq := Htonl (Ntohl (sendNextSeq conn) + 1), unacked := sendNextSeq conn, readChan := Some q\<rparr>"

lemma established_segment:
  assumes "state (conns s ! c) = STATE_ESTABLISHED" and "sem (conns s ! c) = Some 0"
    and "readChan (conns s ! c) = Some q" and "ipConn (conns s ! c) = Some ip" and "Check (ipHeader ip) = 0"
    and "54 \<le> length chunk" and "subslice (Buffer skbuf) (unat (AppIndex skbuf)) (len (Buffer skbuf)) = ret data"
  shows "conn_step write_fails isn chunk lst th skbuf c s =
    bnd (transmit write_fails ip (chunk ! 13)
          (ack_header (acked (conns s ! c) th (PayloadLen skbuf)) (stale_flags chunk)) (sent s)) (\<lambda>out.
    if length q + length (contents data) \<le> CHAN_CAP \<or> contents data = []
    then ret (set_conn c (delivered (conns s ! c) th (PayloadLen skbuf) (q @ contents data)) (s\<lparr>sent := out\<rparr>))
    else panic Blocked)"
proof -
  let ?a = "acked (conns s ! c) th (PayloadLen skbuf)"
  have ip: "ipConn ?a = Some ip" using assms(4) by (simp add: acked_def)
  have e: "conn_step write_fails isn chunk lst th skbuf c s =
    bnd (sendAck write_fails chunk ?a (sent s)) (\<lambda>(conn, out).
        case sem conn of None \<Rightarrow> panic Blocked
        | Some n \<Rightarrow> if n \<ge> 1 then panic Blocked else
            bnd (subslice (Buffer skbuf) (unat (AppIndex skbuf)) (len (Buffer skbuf))) (\<lambda>data.
            case readChan conn of None \<Rightarrow> panic NilDeref
            | Some q \<Rightarrow>
                bnd (push_all q (contents data)) (\<lambda>q.
                ret (set_conn c (conn\<lparr>readChan := Some q\<rparr>) (s\<lparr>sent := out\<rparr>)))))"
    using assms(1) by (simp add: conn_step_def Let_def state_consts acked_def)
  have f: "sem ?a = Some 0" "readChan ?a = Some q" "sendNextSeq ?a = sendNextSeq (conns s ! c)"
    using assms(2,3) by (simp_all add: acked_def)
  show ?thesis
    unfolding e sendAck_transmit [OF assms(6) ip assms(5)]
    using f assms(7) by (cases "length q + length (contents data) \<le> CHAN_CAP \<or> contents data = []")
      (simp_all add: bnd_assoc push_all_eq delivered_def)
qed

lemma Read_all:
  assumes "readChan conn = Some q" and "sem conn = Some 0" and "length q \<le> n" and "n \<le> cap"
  shows "Read n cap conn = ret (q, conn\<lparr>readChan := Some []\<rparr>)"
  using assms by (simp add: Read_def)

end
