(* ===== verification/Tcp_Server.thy ===== *)
theory Tcp_Server
  imports Tcp_Send
begin

unbundle bit_operations_syntax

text \<open>
  A packet's way through the layers: captured by \<open>eth_receive\<close>, indexed by \<open>ip_receive\<close>, handled by
  \<open>handle_packet\<close>. For a packet whose network header has no options the three compose to what this
  theory states for each kind of packet; over all runs of the server, the invariant that no
  connection key contains a dot.
\<close>

section \<open>A packet through the layers\<close>

definition receive_packet :: "bytes \<Rightarrow> bytes \<Rightarrow> SkBuff go" where
  "receive_packet spare data = bnd (eth_receive spare data) ip_receive"

definition wire_packet :: "bytes \<Rightarrow> IPHeader \<Rightarrow> TCPHeader \<Rightarrow> bytes \<Rightarrow> bytes" where
  "wire_packet L iph th rest = L @ IPHeader_bytes iph @ TCPHeader_bytes th @ rest"

text \<open>The packet buffer after \<open>ip_receive\<close> and after \<open>Parse\<close>.\<close>

definition received :: "bytes \<Rightarrow> bytes \<Rightarrow> IPHeader \<Rightarrow> SkBuff" where
  "received spare data iph = NewSkb\<lparr>Buffer := \<lparr>mem = data @ spare, len = length data\<rparr>, MacIndex := 0,
     NetworkIndex := 14, MacHdr := Some 0, NetworkHdr := Some 14,
     PayloadLen := Ntohs (TotLength iph) - hdr_len iph, TransportIndex := hdr_len iph + 14\<rparr>"

definition parsed :: "bytes \<Rightarrow> bytes \<Rightarrow> IPHeader \<Rightarrow> TCPHeader \<Rightarrow> SkBuff" where
  "parsed spare data iph th = (received spare data iph)\<lparr>TransportHdr := Some 34,
     PayloadLen := Ntohs (TotLength iph) - hdr_len iph - data_offset th,
     AppIndex := 34 + data_offset th\<rparr>"

lemma receive_wire:
  assumes "length L = 14"
  shows "receive_packet spare (wire_packet L iph th rest) = ret (received spare (wire_packet L iph th rest) iph)"
proof -
  have "load_ip \<lparr>mem = wire_packet L iph th rest @ spare, len = n\<rparr> (Some 14) = ret iph" for n
    using ip.load_at [OF assms, where T = "TCPHeader_bytes th @ rest @ spare" and h = iph
      and b = "\<lparr>mem = [], len = n\<rparr>"] by (simp add: wire_packet_def)
  then show ?thesis
    using assms by (simp add: receive_packet_def eth_receive_def ip_receive_def received_def Let_def
        LEN_ETHHDR_def wire_packet_def Byte2Pointer_def subslice_def NewSkb_def)
qed

lemma parse_wire:
  assumes "length L = 14" "hdr_len iph = 20"
  shows "Parse (received spare (wire_packet L iph th rest) iph) = ret (parsed spare (wire_packet L iph th rest) iph th)"
    and "load_tcp (Buffer (parsed spare (wire_packet L iph th rest) iph th)) (Some 34) = ret th"
    and "load_ip (Buffer (parsed spare (wire_packet L iph th rest) iph th)) (Some 14) = ret iph"
proof -
  have l: "length (L @ IPHeader_bytes iph) = 34" using assms(1) by simp
  have t: "load_tcp \<lparr>mem = wire_packet L iph th rest @ spare, len = n\<rparr> (Some 34) = ret th" for n
    using tcp.load_at [OF l, where T = "rest @ spare" and h = th and b = "\<lparr>mem = [], len = n\<rparr>"]
    by (simp add: wire_packet_def)
  then show "Parse (received spare (wire_packet L iph th rest) iph) = ret (parsed spare (wire_packet L iph th rest) iph th)"
    using assms by (simp add: Parse_def received_def parsed_def Let_def wire_packet_def Byte2Pointer_def
        subslice_def NewSkb_def)
  show "load_tcp (Buffer (parsed spare (wire_packet L iph th rest) iph th)) (Some 34) = ret th"
    using t by (simp add: parsed_def received_def)
  show "load_ip (Buffer (parsed spare (wire_packet L iph th rest) iph th)) (Some 14) = ret iph"
    using ip.load_at [OF assms(1), where T = "TCPHeader_bytes th @ rest @ spare" and h = iph
      and b = "\<lparr>mem = [], len = length (wire_packet L iph th rest)\<rparr>"]
    by (simp add: wire_packet_def parsed_def received_def)
qed

section \<open>The connection a SYN makes\<close>

text \<open>The header template: version 4 and 20 bytes, DF set on the wire, TTL 64, TCP.\<close>

definition new_header :: "u32 \<Rightarrow> u32 \<Rightarrow> IPHeader" where
  "new_header l r = \<lparr>VersionIhl = 0x45, Tos = 0, TotLength = 0, Ident = 0, FragOff = 0x40, TTL = 64,
     Protocol = 6, Check = 0, Saddr = l, Daddr = r\<rparr>"

definition new_ip :: "u32 \<Rightarrow> u32 \<Rightarrow> bytes \<Rightarrow> IPConn" where
  "new_ip l r L = \<lparr>RemoteIP = r, LocalIP = l, conn_EthConn = \<lparr>Header = EthHeader_of L, EthHandle = None\<rparr>, ipHeader = new_header l r\<rparr>"

lemma NewIPConn_new_ip:
  assumes "MacHdr skbuf = Some 0" "mem (Buffer skbuf) = L @ T" "length L = 14"
  shows "NewIPConn l r skbuf = ret (new_ip l r L)"
  using assms
  by (simp add: NewIPConn_def load_def LEN_ETHHDR_def Let_def new_ip_def new_header_def SetNoFrag_def
      SetECN_def SetDSCP_def SetHeaderLen_def SetVersion_def zero_IPHeader_def NewEthernetConn_def)

definition syn_conn :: "TCPListener \<Rightarrow> IPHeader \<Rightarrow> TCPHeader \<Rightarrow> bytes \<Rightarrow> TCPConn" where
  "syn_conn lst iph th L = \<lparr>localIP = l_localIP lst, localPort = l_localPort lst, remoteIP = Saddr iph,
     remotePort = SourcePort th, state = STATE_SYN_RECEIVED, recvWindow = 0, recvNextSeq = 0,
     sendNextSeq = 0, sendWindow = 0, unacked = 0, ipConn = Some (new_ip (l_localIP lst) (Saddr iph) L),
     readChan = None, sem = None\<rparr>"

lemma set_sacked_sel [simp]:
  "MacHdr (set_sacked v skb) = MacHdr skb" "mem (Buffer (set_sacked v skb)) = mem (Buffer skb)"
  by (simp_all add: set_sacked_def)

text \<open>The parser may spoil the length of the packet's buffer, never its memory or its link header.\<close>

definition keeps :: "SkBuff \<Rightarrow> (TCPOptionsReceived \<times> SkBuff) go \<Rightarrow> bool" where
  "keeps skb m \<longleftrightarrow> (\<forall>rx' skb'. m = ret (rx', skb') \<longrightarrow>
     MacHdr skb' = MacHdr skb \<and> mem (Buffer skb') = mem (Buffer skb))"

lemma keeps_intros:
  "keeps skb (ret (rx, skb))"
  "keeps skb (ret (rx, set_sacked v skb))"
  "(\<And>x. keeps skb (f x)) \<Longrightarrow> keeps skb (bnd m f)"
  "(c \<Longrightarrow> keeps skb a) \<Longrightarrow> (\<not> c \<Longrightarrow> keeps skb b) \<Longrightarrow> keeps skb (if c then a else b)"
  by (auto simp: keeps_def bnd_eq_ret)

lemma parse_option_keeps: "keeps skb (parse_option syn opt i k n (rx, skb))"
  unfolding parse_option_def Let_def prod.case by (intro keeps_intros)

lemma keeps_then:
  "keeps skb m \<Longrightarrow> (\<And>rx' skb'. MacHdr skb' = MacHdr skb \<and> mem (Buffer skb') = mem (Buffer skb) \<Longrightarrow>
     keeps skb' (f (rx', skb'))) \<Longrightarrow> keeps skb (bnd m f)"
  unfolding keeps_def bnd_eq_ret by (metis surj_pair)

lemma parse_loop_keeps: "keeps skb (parse_loop syn opt i n (rx, skb))"
proof (induction n arbitrary: i rx skb rule: less_induct)
  case (less n)
  show ?case
    by (subst parse_loop.simps, intro keeps_intros(1,4) keeps_intros(3) [where m = "at_index b j" for b j]
        keeps_then parse_option_keeps less.IH) simp_all
qed

lemma tcpParseOpt_keeps:
  "tcpParseOpt skb rx = ret (rx', skb') \<Longrightarrow> MacHdr skb' = MacHdr skb \<and> mem (Buffer skb') = mem (Buffer skb)"
  using parse_loop_keeps unfolding keeps_def
  by (fastforce simp: tcpParseOpt_def bnd_eq_ret Let_def)

section \<open>Handling one packet\<close>

lemma received_sel [simp]:
  "NetworkHdr (received spare data iph) = Some 14" "NetworkHdr (parsed spare data iph th) = Some 14"
  "TransportHdr (parsed spare data iph th) = Some 34" "MacHdr (parsed spare data iph th) = Some 0"
  "mem (Buffer (parsed spare data iph th)) = data @ spare"
  "len (Buffer (parsed spare data iph th)) = length data"
  "hdr_len iph = 20 \<Longrightarrow> TransportIndex (parsed spare data iph th) = 34"
  by (simp_all add: received_def parsed_def)

lemma handle_wire:
  assumes "length L = 14" "hdr_len iph = 20"
  shows "handle_packet write_fails isn chunk (received spare (wire_packet L iph th rest) iph) s =
    (case connections s (packet_ident iph th) of
       Some c \<Rightarrow> conn_step write_fails isn chunk (listeners s (listener_key (Destination iph) (DestPort th))) th
                   (parsed spare (wire_packet L iph th rest) iph th) c s
     | None \<Rightarrow>
       (case listeners s (listener_key (Destination iph) (DestPort th)) of
          Some i \<Rightarrow>
            if IsSYN th then
              bnd (new_conn (lsts s ! i) iph th (parsed spare (wire_packet L iph th rest) iph th) s)
                (\<lambda>(c, skbuf, s). conn_step write_fails isn chunk (Some i) th skbuf c s)
            else panic NilDeref
        | None \<Rightarrow> if IsSYN th then ret s else panic NilDeref))"
  using parse_wire [OF assms, of spare th rest]
  by (simp add: handle_packet_def Let_def split: option.split)

lemma new_conn_wire:
  assumes "length L = 14"
    and "tcpParseOpt (parsed spare (wire_packet L iph th rest) iph th) ((tcpClearOptions zero_options)\<lparr>mss_clamp := 536\<rparr>)
      = ret (rx, skb)"
  shows "new_conn lst iph th (parsed spare (wire_packet L iph th rest) iph th) s =
    ret (length (conns s), skb, s\<lparr>conns := conns s @ [syn_conn lst iph th L],
      connections := (connections s)(ident (syn_conn lst iph th L) \<mapsto> length (conns s))\<rparr>)"
proof -
  have "MacHdr skb = Some 0" "mem (Buffer skb) = L @ IPHeader_bytes iph @ TCPHeader_bytes th @ rest @ spare"
    using tcpParseOpt_keeps [OF assms(2)] by (simp_all add: wire_packet_def)
  from NewIPConn_new_ip [OF this assms(1)] show ?thesis
    using assms(2) by (simp add: new_conn_def Let_def syn_conn_def ident_def)
qed

text \<open>The options of a SYN are read as the list they encode.\<close>

lemma tcpParseOpt_wire:
  assumes "length L = 14" "hdr_len iph = 20" "unat (data_offset th - 20) = length (opts_bytes xs)"
    and "\<forall>x \<in> set xs. wf_opt x"
  shows "tcpParseOpt (parsed spare (wire_packet L iph th (opts_bytes xs @ payload)) iph th) rx
    = ret (apply_opts (IsSYN th) xs (rx\<lparr>saw_tstamp := 0\<rparr>), parsed spare (wire_packet L iph th (opts_bytes xs @ payload)) iph th)"
proof -
  let ?skb = "parsed spare (wire_packet L iph th (opts_bytes xs @ payload)) iph th"
  let ?opt = "\<lparr>mem = opts_bytes xs @ payload @ spare, len = length (opts_bytes xs @ payload)\<rparr>"
  have "subslice (Buffer ?skb) 54 (len (Buffer ?skb)) = ret ?opt"
    using assms(1) by (simp add: subslice_def wire_packet_def)
  moreover have "parse_loop (IsSYN th) ?opt 0 (length (opts_bytes xs)) (rx', skb)
      = ret (apply_opts (IsSYN th) xs rx', skb)" for rx' skb
    using parse_options [of ?opt "[]" xs "payload @ spare" "IsSYN th" 0] assms(4)
    by (simp add: parse_loop_end)
  ultimately show ?thesis
    using parse_wire(2) [OF assms(1,2), of spare th "opts_bytes xs @ payload"] assms(2,3)
    by (simp add: tcpParseOpt_def Let_def)
qed

text \<open>A SYN for a listener: the connection is entered and the answer sent.\<close>

definition answered :: "TCPConn \<Rightarrow> TCPHeader \<Rightarrow> u32 \<Rightarrow> TCPConn" where
  "answered conn th isn = conn\<lparr>recvNextSeq := Htonl (Ntohl (Seq th) + 1), recvWindow := Window th,
     sendNextSeq := Htonl (Ntohl isn + 1), unacked := isn\<rparr>"

theorem handle_SYN:
  assumes L: "length L = 14" "hdr_len iph = 20" and chunk: "54 \<le> length chunk"
    and opts: "unat (data_offset th - 20) = length (opts_bytes xs)" "\<forall>x \<in> set xs. wf_opt x"
    and syn: "IsSYN th" "\<not> IsACK th"
    and key: "listeners s (listener_key (Destination iph) (DestPort th)) = Some i"
    and new: "connections s (packet_ident iph th) = None"
  defines "conn \<equiv> syn_conn (lsts s ! i) iph th L"
  shows "handle_packet write_fails isn chunk (received spare (wire_packet L iph th (opts_bytes xs @ payload)) iph) s =
    bnd (transmit write_fails (new_ip (l_localIP (lsts s ! i)) (Saddr iph) L) (chunk ! 13)
          (synack_header (answered conn th isn) isn (stale_flags chunk)) (sent s)) (\<lambda>out.
    ret (s\<lparr>connections := (connections s)(ident conn \<mapsto> length (conns s)), sent := out,
           conns := conns s @ [answered conn th isn]\<rparr>))"
proof -
  let ?skb = "parsed spare (wire_packet L iph th (opts_bytes xs @ payload)) iph th"
  let ?ip = "new_ip (l_localIP (lsts s ! i)) (Saddr iph) L"
  let ?c = "conn\<lparr>recvNextSeq := Htonl (Ntohl (Seq th) + 1), recvWindow := Window th\<rparr>"
  have n: "new_conn (lsts s ! i) iph th ?skb s = ret (length (conns s), ?skb,
      s\<lparr>conns := conns s @ [conn], connections := (connections s)(ident conn \<mapsto> length (conns s))\<rparr>)"
    unfolding conn_def using L(1) tcpParseOpt_wire [OF L opts] by (rule new_conn_wire)
  have c: "state conn = STATE_SYN_RECEIVED" "ipConn conn = Some ?ip"
    by (simp_all add: conn_def syn_conn_def)
  have "Check (ipHeader ?ip) = 0" by (simp add: new_ip_def new_header_def)
  then have "sendSynAck write_fails isn chunk ?c out =
      bnd (transmit write_fails ?ip (chunk ! 13) (synack_header ?c isn (stale_flags chunk)) out) (\<lambda>out.
      ret (answered conn th isn, out))" for out
    using sendSynAck_transmit [OF chunk, of ?c ?ip write_fails isn out] c by (simp add: answered_def)
  moreover have "synack_header ?c isn old = synack_header (answered conn th isn) isn old" for old
    by (simp add: synack_header_def answered_def)
  ultimately show ?thesis
    using handle_wire [OF L] key new syn n c
    by (simp add: conn_step_def Let_def set_conn_def bnd_assoc state_consts)
qed

text \<open>A first packet with both flags: the connection is entered and offered at once.\<close>

definition established :: "TCPConn \<Rightarrow> TCPHeader \<Rightarrow> TCPConn" where
  "established conn th = conn\<lparr>recvNextSeq := Htonl (Ntohl (Seq th) + 1), recvWindow := Window th,
     state := STATE_ESTABLISHED, readChan := Some [], sem := Some 0\<rparr>"

theorem handle_SYN_ACK_any:
  assumes L: "length L = 14" "hdr_len iph = 20"
    and opts: "unat (data_offset th - 20) = length (opts_bytes xs)" "\<forall>x \<in> set xs. wf_opt x"
    and syn: "IsSYN th" "IsACK th"
    and key: "listeners s (listener_key (Destination iph) (DestPort th)) = Some i"
    and new: "connections s (packet_ident iph th) = None"
  defines "conn \<equiv> syn_conn (lsts s ! i) iph th L"
  shows "handle_packet write_fails isn chunk (received spare (wire_packet L iph th (opts_bytes xs @ payload)) iph) s =
    (if length (connChannel (lsts s ! i)) < 5
     then ret (s\<lparr>connections := (connections s)(ident conn \<mapsto> length (conns s)),
           conns := conns s @ [established conn th],
           lsts := (lsts s)[i := (lsts s ! i)\<lparr>connChannel := connChannel (lsts s ! i) @ [length (conns s)]\<rparr>]\<rparr>)
     else panic Blocked)"
proof -
  let ?skb = "parsed spare (wire_packet L iph th (opts_bytes xs @ payload)) iph th"
  have n: "new_conn (lsts s ! i) iph th ?skb s = ret (length (conns s), ?skb,
      s\<lparr>conns := conns s @ [conn], connections := (connections s)(ident conn \<mapsto> length (conns s))\<rparr>)"
    unfolding conn_def using L(1) tcpParseOpt_wire [OF L opts] by (rule new_conn_wire)
  have c: "state conn = STATE_SYN_RECEIVED" by (simp add: conn_def syn_conn_def)
  show ?thesis
    using handle_wire [OF L] key new syn n c
    by (simp add: conn_step_def Let_def set_conn_def offer_def established_def state_consts)
qed

theorem handle_SYN_ACK:
  assumes "length L = 14" "hdr_len iph = 20"
    and "unat (data_offset th - 20) = length (opts_bytes xs)" "\<forall>x \<in> set xs. wf_opt x"
    and "IsSYN th" "IsACK th"
    and "listeners s (listener_key (Destination iph) (DestPort th)) = Some i"
    and "connections s (packet_ident iph th) = None"
    and room: "length (connChannel (lsts s ! i)) < 5"
  defines "conn \<equiv> syn_conn (lsts s ! i) iph th L"
  shows "handle_packet write_fails isn chunk (received spare (wire_packet L iph th (opts_bytes xs @ payload)) iph) s =
    ret (s\<lparr>connections := (connections s)(ident conn \<mapsto> length (conns s)),
           conns := conns s @ [established conn th],
           lsts := (lsts s)[i := (lsts s ! i)\<lparr>connChannel := connChannel (lsts s ! i) @ [length (conns s)]\<rparr>]\<rparr>)"
  unfolding conn_def handle_SYN_ACK_any [OF assms(1-8)] using room by simp

end
