(* ===== verification/Tcp_Runs.thy ===== *)
theory Tcp_Runs
  imports Tcp_Server
begin

unbundle bit_operations_syntax

text \<open>
  The two tables over all runs of the server: listener keys, which tell addresses and ports apart
  except for ports that are surrogate code points, and connection keys, which never match what
  \<open>listenForPackets\<close> looks up, because one is printed with plain numbers and the other with dotted
  addresses.
\<close>

section \<open>Listener keys\<close>

definition ascii :: "char \<Rightarrow> bool" where
  "ascii c \<longleftrightarrow> (of_char c :: nat) < 128"

lemma ascii_digit [simp]: "d < 10 \<Longrightarrow> ascii (digit d)"
  by (simp add: ascii_def)

lemma ascii_DotIP: "\<forall>c \<in> set (DotIP a). ascii c"
  unfolding DotIP_bytes using show_dec_digits by (fastforce simp: ascii_def)

lemma ascii_char_of: "n < 256 \<Longrightarrow> ascii (char_of n) \<longleftrightarrow> n < (128 :: nat)"
  by (simp add: ascii_def)

text \<open>The last code point of a string is its only bytes that are not ASCII, or its last byte.\<close>

definition surrogate :: "nat \<Rightarrow> bool" where
  "surrogate v \<longleftrightarrow> 0xD800 \<le> v \<and> v \<le> 0xDFFF"

lemma rune_string_cases:
  assumes "v < 0x10000"
  shows "(v < 128 \<and> rune_string v = [char_of v]) \<or>
    (128 \<le> v \<and> rune_string v \<noteq> [] \<and> (\<forall>c \<in> set (rune_string v). \<not> ascii c))"
proof -
  have "v div 64 < 1024" "v div 4096 < 16" using assms by (simp_all add: less_mult_imp_div_less)
  moreover have "v div 64 < 32" if "v < 0x800" using that by (simp add: less_mult_imp_div_less)
  moreover have "v div 64 mod 64 < 64" "v mod 64 < 64" by simp_all
  ultimately show ?thesis
    unfolding rune_string_def Let_def
    by (auto simp: ascii_char_of)
qed

text \<open>Decoding the bytes gives the code point back.\<close>

fun rune_value :: "string \<Rightarrow> nat" where
  "rune_value [a] = of_char a"
| "rune_value [a, b] = (of_char a - 0xC0) * 64 + (of_char b - 0x80)"
| "rune_value [a, b, c] = (of_char a - 0xE0) * 4096 + (of_char b - 0x80) * 64 + (of_char c - 0x80)"
| "rune_value s = 0"

lemma base64:
  "v div 64 * 64 + v mod 64 = (v :: nat)"
  "v div 4096 * 4096 + v div 64 mod 64 * 64 + v mod 64 = (v :: nat)"
proof -
  have 1: "w div 64 * 64 + w mod 64 = (w :: nat)" for w by (rule div_mult_mod_eq)
  from 1 [of v] show "v div 64 * 64 + v mod 64 = (v :: nat)" .
  obtain a b m d where ab: "a = v div 64" "b = v div 4096" "m = v mod 64" "d = v div 64 mod 64" by simp
  have "b = a div 64" by (simp add: ab div_mult2_eq [symmetric])
  then have "a * 64 + m = v" "b * 64 + d = a" using 1 [of v] 1 [of a] by (simp_all add: ab)
  then have "b * 4096 + d * 64 + m = v" by linarith
  then show "v div 4096 * 4096 + v div 64 mod 64 * 64 + v mod 64 = v" by (simp only: ab)
qed

lemma rune_value_string:
  assumes "v < 0x10000"
  shows "rune_value (rune_string v) = (if surrogate v then 0xFFFD else v)"
proof -
  have "v div 64 < 1024" "v div 4096 < 16" using assms by (simp_all add: less_mult_imp_div_less)
  moreover have "v div 64 < 32" if "v < 0x800" using that by (simp add: less_mult_imp_div_less)
  moreover have "v div 64 mod 64 < 64" "v mod 64 < 64" by simp_all
  ultimately show ?thesis
    using base64 [of v]
    by (simp add: rune_string_def Let_def surrogate_def)
qed

lemma key_inject:
  assumes "\<forall>c \<in> set s. ascii c" "\<forall>c \<in> set t. ascii c" "v < 0x10000" "w < 0x10000"
    and eq: "s @ rune_string v = t @ rune_string w"
  shows "s = t \<and> rune_string v = rune_string w"
proof -
  have high: "takeWhile ascii (r @ u) = r" if "\<forall>c \<in> set r. ascii c" "u \<noteq> []" "\<forall>c \<in> set u. \<not> ascii c" for r u
    using that by (cases u) auto
  have last_high: "\<not> ascii (last (r @ u))" if "u \<noteq> []" "\<forall>c \<in> set u. \<not> ascii c" for r u
    using that by simp
  have last_low: "ascii (last (r @ [char_of n]))" if "n < 128" for r :: string and n :: nat using that by (simp add: ascii_char_of)
  consider "v < 128" "w < 128" | "v < 128" "128 \<le> w" | "128 \<le> v" "w < 128" | "128 \<le> v" "128 \<le> w" by linarith
  then show ?thesis
  proof cases
    case 1
    then show ?thesis using eq by (simp add: rune_string_def)
  next
    case 2
    then show ?thesis
      using rune_string_cases [OF assms(3)] rune_string_cases [OF assms(4)] eq last_low [of v s]
        last_high [of "rune_string w" t] by auto
  next
    case 3
    then show ?thesis
      using rune_string_cases [OF assms(3)] rune_string_cases [OF assms(4)] eq last_low [of w t]
        last_high [of "rune_string v" s] by auto
  next
    case 4
    then have "takeWhile ascii (s @ rune_string v) = s" "takeWhile ascii (t @ rune_string w) = t"
      using rune_string_cases [OF assms(3)] rune_string_cases [OF assms(4)] high [OF assms(1)] high [OF assms(2)]
      by (metis linorder_not_less)+
    with eq have "s = t" by simp
    with eq show ?thesis by simp
  qed
qed

lemma listener_key_inject:
  assumes "\<not> surrogate (unat p)" "\<not> surrogate (unat p')"
  shows "listener_key (DotIP a) p = listener_key (DotIP a') p' \<longleftrightarrow> a = a' \<and> p = p'"
proof
  assume "listener_key (DotIP a) p = listener_key (DotIP a') p'"
  then have "DotIP a @ rune_string (unat p) = DotIP a' @ rune_string (unat p')"
    by (simp only: listener_key_def)
  moreover have "unat p < 0x10000" "unat p' < 0x10000" using unat_u16 by simp_all
  ultimately have *: "DotIP a = DotIP a'" "rune_string (unat p) = rune_string (unat p')"
    using key_inject [OF ascii_DotIP ascii_DotIP] by blast+
  from *(1) have "a = a'" by (metis Ip2long_dotted)
  have "rune_value (rune_string (unat x)) = unat x" if "\<not> surrogate (unat x)" for x :: u16
    using rune_value_string [of "unat x"] unat_u16 [of x] that by simp
  with *(2) assms have "unat p = unat p'" by metis
  with \<open>a = a'\<close> show "a = a' \<and> p = p'" by (simp add: word_unat_eq_iff)
qed simp

text \<open>All surrogates share one key.\<close>

lemma listener_key_surrogate:
  "surrogate (unat p) \<Longrightarrow> surrogate (unat p') \<Longrightarrow> listener_key s p = listener_key s p'"
  by (simp add: listener_key_def rune_string_def surrogate_def)

section \<open>Runs\<close>

inductive tcp_step :: "(bytes \<Rightarrow> bool) \<Rightarrow> tcp_state \<Rightarrow> tcp_state \<Rightarrow> bool" for write_fails where
  packet: "handle_packet write_fails isn chunk skbuf s = ret s' \<Longrightarrow> tcp_step write_fails s s'"
| listen: "Listen a port s = (lst, s') \<Longrightarrow> tcp_step write_fails s s'"
| accept: "lst < length (lsts s) \<Longrightarrow> Accept lst s = ret (c, s') \<Longrightarrow> tcp_step write_fails s s'"
| read: "c < length (conns s) \<Longrightarrow> Read n cap (conns s ! c) = ret (bs, conn) \<Longrightarrow>
    tcp_step write_fails s (set_conn c conn s)"

inductive reachable :: "(bytes \<Rightarrow> bool) \<Rightarrow> tcp_state \<Rightarrow> bool" for write_fails where
  start: "reachable write_fails Start_state"
| step: "reachable write_fails s \<Longrightarrow> tcp_step write_fails s s' \<Longrightarrow> reachable write_fails s'"

text \<open>The table's keys are printed by \<open>ident\<close>; no connection has received a byte.\<close>

definition conn_ok :: "TCPConn \<Rightarrow> bool" where
  "conn_ok conn \<longleftrightarrow> readChan conn = None \<or> readChan conn = Some []"

definition server_ok :: "tcp_state \<Rightarrow> bool" where
  "server_ok s \<longleftrightarrow> (\<forall>k. connections s k \<noteq> None \<longrightarrow> CHR ''.'' \<notin> set k) \<and> list_all conn_ok (conns s)"

lemma dot_not_digit: "d < 10 \<Longrightarrow> CHR ''.'' \<noteq> digit d"
  using not_digit_dot digit_is_digit by metis

lemma no_dot_show_dec [simp]: "CHR ''.'' \<notin> set (show_dec n)"
  using show_dec_digits dot_not_digit by blast

lemma no_dot_ident: "CHR ''.'' \<notin> set (ident conn)"
  by (simp add: ident_def)

lemma dot_packet_ident: "CHR ''.'' \<in> set (packet_ident iph th)"
  by (simp add: packet_ident_def Destination_def DotIP_def)

lemma never_found: "server_ok s \<Longrightarrow> connections s (packet_ident iph th) = None"
  using dot_packet_ident by (auto simp: server_ok_def)

lemma connections_mono:
  "server_ok s \<Longrightarrow> conn_ok conn \<Longrightarrow> c < length (conns s) \<Longrightarrow> server_ok (set_conn c conn s)"
  by (auto simp: server_ok_def set_conn_def list_all_length nth_list_update)

lemma sendSynAck_keeps:
  "sendSynAck write_fails isn chunk conn out = ret (conn', out') \<Longrightarrow> readChan conn' = readChan conn"
  by (auto simp: sendSynAck_def Let_def bnd_eq_ret)

lemma conn_step_ok:
  assumes "server_ok s" "c < length (conns s)" "state (conns s ! c) = STATE_SYN_RECEIVED"
    and "conn_step write_fails isn chunk lst th skbuf c s = ret s'"
  shows "server_ok s'"
proof -
  have ok: "conn_ok (conns s ! c)" using assms(1,2) by (simp add: server_ok_def list_all_length)
  let ?c = "(conns s ! c)\<lparr>recvNextSeq := Htonl (Ntohl (Seq th) + 1), recvWindow := Window th\<rparr>"
  let ?e = "?c\<lparr>state := STATE_ESTABLISHED, readChan := Some [], sem := Some 0\<rparr>"
  show ?thesis
  proof (cases "IsACK th")
    case True
    have "server_ok (set_conn c ?e s)" using assms(1,2) by (intro connections_mono) (simp_all add: conn_ok_def)
    moreover have "offer lst c (set_conn c ?e s) = ret s'" using assms(3,4) True by (simp add: conn_step_def Let_def)
    ultimately show ?thesis by (auto simp: offer_def server_ok_def split: option.splits if_split_asm)
  next
    case False
    with assms(3,4) obtain conn' out' where
      "sendSynAck write_fails isn chunk ?c (sent s) = ret (conn', out')"
      "s' = set_conn c conn' (s\<lparr>sent := out'\<rparr>)"
      by (auto simp: conn_step_def Let_def bnd_eq_ret)
    moreover from this(1) have "readChan conn' = readChan (conns s ! c)" by (drule_tac sendSynAck_keeps) simp
    then have "conn_ok conn'" using ok by (simp add: conn_ok_def)
    moreover have "server_ok (s\<lparr>sent := out'\<rparr>)" using assms(1) by (simp add: server_ok_def)
    ultimately show ?thesis using assms(2) by (simp add: connections_mono)
  qed
qed

lemma new_conn_ok:
  assumes "server_ok s" "new_conn lst iph th skbuf s = ret (c, skbuf', s')"
  shows "server_ok s' \<and> c < length (conns s') \<and> state (conns s' ! c) = STATE_SYN_RECEIVED"
  using assms no_dot_ident
  by (auto simp: new_conn_def Let_def bnd_eq_ret server_ok_def conn_ok_def split: prod.splits if_split_asm)

lemma handle_packet_ok:
  assumes "server_ok s" "handle_packet write_fails isn chunk skbuf s = ret s'"
  shows "server_ok s'"
  using assms never_found [OF assms(1)]
  by (auto simp: handle_packet_def Let_def bnd_eq_ret split: option.splits if_split_asm prod.splits
      dest!: new_conn_ok [OF assms(1)] intro: conn_step_ok)

lemma Read_ok: "conn_ok conn \<Longrightarrow> Read n cap conn = ret (bs, conn') \<Longrightarrow> bs = [] \<and> conn' = conn"
  by (cases conn) (auto simp: Read_def conn_ok_def Let_def split: option.splits if_split_asm)

lemma tcp_step_ok: "tcp_step write_fails s s' \<Longrightarrow> server_ok s \<Longrightarrow> server_ok s'"
proof (induction rule: tcp_step.induct)
  case (packet isn chunk skbuf s s')
  then show ?case using handle_packet_ok by blast
next
  case (listen a port s lst s')
  then show ?case by (auto simp: Listen_def Let_def server_ok_def)
next
  case (accept lst s c s')
  then show ?case by (auto simp: Accept_def server_ok_def split: list.splits)
next
  case (read c s n cap bs conn)
  then have "conn_ok (conns s ! c)" by (simp add: server_ok_def list_all_length)
  with read Read_ok have "conn = conns s ! c" by blast
  with read show ?case by (simp add: set_conn_def)
qed

lemma reachable_ok: "reachable write_fails s \<Longrightarrow> server_ok s"
proof (induction rule: reachable.induct)
  case start
  show ?case by (simp add: server_ok_def Start_state_def)
next
  case (step s s')
  then show ?case by (blast intro: tcp_step_ok)
qed

end
