(* ===== verification/Pipeline.thy ===== *)
theory Pipeline
  imports Tcp_Server Tcp_Runs
begin

text \<open>
  The three \<open>Start\<close> functions and the goroutines they leave running: the capture loop of
  \<open>tcpip/net/ethernet\<close>, the loop of \<open>tcpip/net/ip\<close> and \<open>listenForPackets\<close>, joined by two channels of
  2048 packets. Each goroutine's loop body is one step (\<open>eth_receive\<close>, \<open>ip_receive\<close>, \<open>handle_packet\<close>); the
  steps interleave in any order, with the application's calls between them. The runs of the pipeline refine
  a server that takes every captured frame through all layers at once, in the order of capture.
\<close>

section \<open>Starting\<close>

datatype goroutine =
    Capture nat         \<comment> \<open>\<open>ethernet.receive(c)\<close>\<close>
  | Network nat nat     \<comment> \<open>\<open>ip.receive(in, out)\<close>\<close>
  | Transport nat       \<comment> \<open>\<open>tcp.listenForPackets(in)\<close>\<close>

text \<open>The packages' variables, the channels made so far by number, and the goroutines; \<open>None\<close> for the
  tables while the maps are nil.\<close>

record stack =
  eth_handle :: "string option"
  eth_filter :: "string option"
  eth_pool :: "pool_config option"
  tcp_pool :: "pool_config option"
  chans :: "SkBuff list list"
  procs :: "goroutine list"
  tables :: "tcp_state option"

definition unstarted :: stack where
  "unstarted = \<lparr>eth_handle = None, eth_filter = None, eth_pool = None, tcp_pool = None, chans = [], procs = [],
     tables = None\<rparr>"

definition QUEUE_CAP :: nat where "QUEUE_CAP = 2048"

definition make_chan :: "stack \<Rightarrow> nat \<times> stack" where
  "make_chan s = (length (chans s), s\<lparr>chans := chans s @ [[]]\<rparr>)"

definition go_run :: "goroutine \<Rightarrow> stack \<Rightarrow> stack" where
  "go_run g s = s\<lparr>procs := procs s @ [g]\<rparr>"

text \<open>The device is opened with these: how much of a frame is captured, and that capturing blocks.\<close>

definition snapshot_len :: int where "snapshot_len = 1024"
definition promiscuous :: bool where "promiscuous = True"
definition timeout :: int where "timeout = -1"

definition eth_Start ::
  "(string \<Rightarrow> int \<Rightarrow> bool \<Rightarrow> int \<Rightarrow> bool) \<Rightarrow> (string \<Rightarrow> string \<Rightarrow> bool) \<Rightarrow> string \<Rightarrow> string \<Rightarrow> stack \<Rightarrow> (nat \<times> stack) go" where
  "eth_Start open_fails filter_fails device flt s =
     (let (c, s) = make_chan s in
      if open_fails device snapshot_len promiscuous timeout then panic (Fatal ''OpenLive'') else
      if filter_fails device flt then panic (Fatal ''SetBPFFilter'') else
      let s = s\<lparr>eth_handle := Some device, eth_filter := Some flt,
                eth_pool := Some (SyncPool 1500 (1500 * 1024 * 20) 2)\<rparr>
      in ret (c, go_run (Capture c) s))"

definition ip_Start ::
  "(string \<Rightarrow> int \<Rightarrow> bool \<Rightarrow> int \<Rightarrow> bool) \<Rightarrow> (string \<Rightarrow> string \<Rightarrow> bool) \<Rightarrow> string \<Rightarrow> string \<Rightarrow> stack \<Rightarrow> (nat \<times> stack) go" where
  "ip_Start open_fails filter_fails device flt s =
     (let (out, s) = make_chan s in
      bnd (eth_Start open_fails filter_fails device flt s) (\<lambda>(inq, s).
      ret (out, go_run (Network inq out) s)))"

text \<open>\<open>err\<close> is declared and never assigned, so the branch that returns it is never taken.\<close>

definition tcp_Start ::
  "(string \<Rightarrow> int \<Rightarrow> bool \<Rightarrow> int \<Rightarrow> bool) \<Rightarrow> (string \<Rightarrow> string \<Rightarrow> bool) \<Rightarrow> string \<Rightarrow> string \<Rightarrow> stack \<Rightarrow> (string option \<times> stack) go" where
  "tcp_Start open_fails filter_fails device flt s =
     (let s = s\<lparr>tcp_pool := Some (SyncPool 1500 (1500 * 1024 * 20) 2)\<rparr>; err = None in
      bnd (ip_Start open_fails filter_fails device flt s) (\<lambda>(inq, s).
      if err \<noteq> None then ret (err, s)
      else ret (None, go_run (Transport inq) (s\<lparr>tables := Some Start_state\<rparr>))))"

lemma tcp_Start_unstarted:
  "tcp_Start open_fails filter_fails device flt unstarted =
    (if open_fails device snapshot_len promiscuous timeout then panic (Fatal ''OpenLive'')
     else if filter_fails device flt then panic (Fatal ''SetBPFFilter'')
     else ret (None, \<lparr>eth_handle = Some device, eth_filter = Some flt,
       eth_pool = Some (SyncPool 1500 (1500 * 1024 * 20) 2), tcp_pool = Some (SyncPool 1500 (1500 * 1024 * 20) 2),
       chans = [[], []], procs = [Capture 1, Network 1 0, Transport 0], tables = Some Start_state\<rparr>))"
  by (simp add: tcp_Start_def ip_Start_def eth_Start_def make_chan_def go_run_def unstarted_def)

text \<open>\<open>Listen\<close> called by the application: before \<open>Start\<close> the map it enters the listener in is nil.\<close>

definition app_Listen :: "string \<Rightarrow> u16 \<Rightarrow> stack \<Rightarrow> (nat \<times> stack) go" where
  "app_Listen a port s =
     (case tables s of None \<Rightarrow> panic NilMap
      | Some t \<Rightarrow> (case Listen a port t of (l, t') \<Rightarrow> ret (l, s\<lparr>tables := Some t'\<rparr>)))"

lemma app_Listen_unstarted: "app_Listen a port unstarted = panic NilMap"
  by (simp add: app_Listen_def unstarted_def)

lemma app_ListenE:
  assumes "app_Listen a port s = ret (l, s')"
  obtains t t' where "tables s = Some t" "Listen a port t = (l, t')" "s' = s\<lparr>tables := Some t'\<rparr>"
  using assms by (auto simp: app_Listen_def split: option.splits prod.splits)

section \<open>Runs\<close>

text \<open>What happens to the tables: a packet handled (with the random number and the chunk it got), or a
  call of the application.\<close>

datatype event =
    Packet u32 bytes
  | Listens string u16
  | Accepts nat
  | Reads nat nat nat

type_synonym frame = "bytes \<times> bytes"

definition put_chan :: "nat \<Rightarrow> SkBuff list \<Rightarrow> stack \<Rightarrow> stack" where
  "put_chan c q s = s\<lparr>chans := (chans s)[c := q]\<rparr>"

text \<open>A run so far: the frames captured, the events, the state.\<close>

inductive runs :: "(bytes \<Rightarrow> bool) \<Rightarrow> stack \<Rightarrow> frame list \<Rightarrow> event list \<Rightarrow> stack \<Rightarrow> bool" for write_fails s0 where
  start: "runs write_fails s0 [] [] s0"
| capture: "runs write_fails s0 fs es s \<Longrightarrow> Capture c \<in> set (procs s) \<Longrightarrow> length (chans s ! c) < QUEUE_CAP \<Longrightarrow>
    eth_receive spare data = ret skb \<Longrightarrow>
    runs write_fails s0 (fs @ [(spare, data)]) es (put_chan c (chans s ! c @ [skb]) s)"
| network: "runs write_fails s0 fs es s \<Longrightarrow> Network c d \<in> set (procs s) \<Longrightarrow> chans s ! c = skb # q \<Longrightarrow>
    ip_receive skb = ret skb' \<Longrightarrow> length (chans s ! d) < QUEUE_CAP \<Longrightarrow>
    runs write_fails s0 fs es (put_chan d (chans s ! d @ [skb']) (put_chan c q s))"
| transport: "runs write_fails s0 fs es s \<Longrightarrow> Transport c \<in> set (procs s) \<Longrightarrow> chans s ! c = skb # q \<Longrightarrow>
    tables s = Some t \<Longrightarrow> handle_packet write_fails isn chunk skb t = ret t' \<Longrightarrow>
    runs write_fails s0 fs (es @ [Packet isn chunk]) ((put_chan c q s)\<lparr>tables := Some t'\<rparr>)"
| listen: "runs write_fails s0 fs es s \<Longrightarrow> app_Listen a port s = ret (l, s') \<Longrightarrow>
    runs write_fails s0 fs (es @ [Listens a port]) s'"
| accept: "runs write_fails s0 fs es s \<Longrightarrow> tables s = Some t \<Longrightarrow> l < length (lsts t) \<Longrightarrow> Accept l t = ret (c, t') \<Longrightarrow>
    runs write_fails s0 fs (es @ [Accepts l]) (s\<lparr>tables := Some t'\<rparr>)"
| read: "runs write_fails s0 fs es s \<Longrightarrow> tables s = Some t \<Longrightarrow> c < length (conns t) \<Longrightarrow>
    Read n cap (conns t ! c) = ret (bs, conn) \<Longrightarrow>
    runs write_fails s0 fs (es @ [Reads c n cap]) (s\<lparr>tables := Some (set_conn c conn t)\<rparr>)"

text \<open>The same events with every frame taken through the layers when it is handled.\<close>

fun serve :: "(bytes \<Rightarrow> bool) \<Rightarrow> event \<Rightarrow> tcp_state \<times> frame list \<Rightarrow> (tcp_state \<times> frame list) go" where
  "serve write_fails (Packet isn chunk) (t, []) = panic Blocked"
| "serve write_fails (Packet isn chunk) (t, (spare, data) # fs) =
     bnd (receive_packet spare data) (\<lambda>skb.
     bnd (handle_packet write_fails isn chunk skb t) (\<lambda>t. ret (t, fs)))"
| "serve write_fails (Listens a port) (t, fs) = ret (snd (Listen a port t), fs)"
| "serve write_fails (Accepts l) (t, fs) = bnd (Accept l t) (\<lambda>(c, t). ret (t, fs))"
| "serve write_fails (Reads c n cap) (t, fs) =
     bnd (Read n cap (conns t ! c)) (\<lambda>(bs, conn). ret (set_conn c conn t, fs))"

fun serve_all :: "(bytes \<Rightarrow> bool) \<Rightarrow> event list \<Rightarrow> tcp_state \<times> frame list \<Rightarrow> (tcp_state \<times> frame list) go" where
  "serve_all write_fails [] st = ret st"
| "serve_all write_fails (e # es) st = bnd (serve write_fails e st) (serve_all write_fails es)"

lemma serve_all_append:
  "serve_all write_fails (es @ es') st = bnd (serve_all write_fails es st) (serve_all write_fails es')"
proof (induction es arbitrary: st)
  case (Cons e es)
  then have "serve_all write_fails (es @ es') = (\<lambda>st. bnd (serve_all write_fails es st) (serve_all write_fails es'))"
    by (intro ext)
  then show ?case by (simp add: bnd_assoc)
qed simp

text \<open>Frames that arrive later do not matter.\<close>

lemma serve_more: "serve write_fails e (t, fs) = ret (t', r) \<Longrightarrow> serve write_fails e (t, fs @ gs) = ret (t', r @ gs)"
  by (cases "(write_fails, e, (t, fs))" rule: serve.cases) (auto simp: bnd_eq_ret)

lemma serve_all_more:
  "serve_all write_fails es (t, fs) = ret (t', r) \<Longrightarrow> serve_all write_fails es (t, fs @ gs) = ret (t', r @ gs)"
proof (induction es arbitrary: t fs)
  case (Cons e es)
  then obtain t1 r1 where "serve write_fails e (t, fs) = ret (t1, r1)" "serve_all write_fails es (t1, r1) = ret (t', r)"
    by (auto simp: bnd_eq_ret)
  with Cons.IH serve_more show ?case by fastforce
qed simp

text \<open>Started with two channels, from link to network layer and from there to the server: each captured
  frame is handled, has passed the network layer, or waits for it, in this order.\<close>

definition captured :: "frame \<Rightarrow> SkBuff \<Rightarrow> bool" where
  "captured f skb \<longleftrightarrow> eth_receive (fst f) (snd f) = ret skb"

definition passed_on :: "frame \<Rightarrow> SkBuff \<Rightarrow> bool" where
  "passed_on f skb \<longleftrightarrow> receive_packet (fst f) (snd f) = ret skb"

definition queued :: "frame list \<Rightarrow> SkBuff list \<Rightarrow> SkBuff list \<Rightarrow> bool" where
  "queued fs up down \<longleftrightarrow> (\<exists>gs hs. fs = gs @ hs \<and> list_all2 passed_on gs up \<and> list_all2 captured hs down)"

lemma queuedI: "list_all2 passed_on gs up \<Longrightarrow> list_all2 captured hs down \<Longrightarrow> queued (gs @ hs) up down"
  unfolding queued_def by blast

lemma queuedE:
  assumes "queued fs up down"
  obtains gs hs where "fs = gs @ hs" "list_all2 passed_on gs up" "list_all2 captured hs down"
  using assms unfolding queued_def by blast

lemma queued_length: "queued fs up down \<Longrightarrow> length fs = length up + length down"
  by (erule queuedE) (simp add: list_all2_lengthD [of passed_on] list_all2_lengthD [of captured])

lemma queued_capture:
  assumes "queued fs up down" and "eth_receive spare data = ret skb"
  shows "queued (fs @ [(spare, data)]) up (down @ [skb])"
  using assms(1)
proof (rule queuedE)
  fix gs hs
  assume f: "fs = gs @ hs" "list_all2 passed_on gs up" "list_all2 captured hs down"
  have "list_all2 captured (hs @ [(spare, data)]) (down @ [skb])"
    using f(3) assms(2) by (intro list_all2_appendI) (simp_all add: captured_def)
  with f show ?thesis using queuedI [of gs up "hs @ [(spare, data)]"] by simp
qed

lemma queued_network:
  assumes "queued fs up (skb # down)" and "ip_receive skb = ret skb'"
  shows "queued fs (up @ [skb']) down"
  using assms(1)
proof (rule queuedE)
  fix gs hs
  assume f: "fs = gs @ hs" "list_all2 passed_on gs up" "list_all2 captured hs (skb # down)"
  from f(3) obtain h hs' where h: "hs = h # hs'" "captured h skb" "list_all2 captured hs' down"
    by (auto simp: list_all2_Cons2)
  with assms(2) have "passed_on h skb'" by (simp add: captured_def passed_on_def receive_packet_def)
  with f(2) have "list_all2 passed_on (gs @ [h]) (up @ [skb'])" by (intro list_all2_appendI) simp_all
  with f(1) h show ?thesis using queuedI [of "gs @ [h]" "up @ [skb']" hs' down] by simp
qed

lemma queued_transport:
  assumes "queued fs (skb # up) down"
  obtains spare data gs where "fs = (spare, data) # gs" "receive_packet spare data = ret skb" "queued gs up down"
  using assms
proof (rule queuedE)
  fix gs hs
  assume f: "fs = gs @ hs" "list_all2 passed_on gs (skb # up)" "list_all2 captured hs down"
  from f(2) obtain g gs' where "gs = g # gs'" "passed_on g skb" "list_all2 passed_on gs' up"
    by (auto simp: list_all2_Cons2)
  with f queuedI [of gs' up hs down] that [of "fst g" "snd g" "gs' @ hs"] show thesis
    by (simp add: passed_on_def)
qed

text \<open>Only SYNs are ever handled: any other packet finds no connection.\<close>

fun packets :: "event list \<Rightarrow> nat" where
  "packets [] = 0"
| "packets (Packet isn chunk # es) = Suc (packets es)"
| "packets (Listens a port # es) = packets es"
| "packets (Accepts l # es) = packets es"
| "packets (Reads c n cap # es) = packets es"

lemma packets_append [simp]: "packets (es @ es') = packets es + packets es'"
  by (induction es rule: packets.induct) simp_all

definition SYN_frame :: "frame \<Rightarrow> bool" where
  "SYN_frame f \<longleftrightarrow> (\<forall>L iph th rest. snd f = wire_packet L iph th rest \<longrightarrow> length L = 14 \<longrightarrow> hdr_len iph = 20 \<longrightarrow> IsSYN th)"

lemma handled_SYN:
  assumes "reachable write_fails t" and "receive_packet spare data = ret skb"
    and "handle_packet write_fails isn chunk skb t = ret t'"
  shows "SYN_frame (spare, data)"
  unfolding SYN_frame_def snd_conv
proof (intro allI impI, rule ccontr)
  fix L iph th rest
  assume d: "data = wire_packet L iph th rest" "length L = 14" "hdr_len iph = 20" "\<not> IsSYN th"
  with assms(2) receive_wire [OF d(2), of spare iph th rest] have "skb = received spare (wire_packet L iph th rest) iph" by simp
  with assms(3) d(4) never_found [OF reachable_ok [OF assms(1)], of iph th] show False
    by (simp add: handle_wire [OF d(2,3)] split: option.splits)
qed

section \<open>Refinement\<close>

definition in_step :: "(bytes \<Rightarrow> bool) \<Rightarrow> frame list \<Rightarrow> event list \<Rightarrow> stack \<Rightarrow> bool" where
  "in_step write_fails fs es s \<longleftrightarrow> (\<exists>t r up down. tables s = Some t \<and> reachable write_fails t
     \<and> procs s = [Capture 1, Network 1 0, Transport 0] \<and> chans s = [up, down]
     \<and> length up \<le> QUEUE_CAP \<and> length down \<le> QUEUE_CAP
     \<and> serve_all write_fails es (Start_state, fs) = ret (t, r) \<and> queued r up down
     \<and> (\<exists>hs. fs = hs @ r \<and> length hs = packets es \<and> list_all SYN_frame hs))"

lemma in_stepE:
  assumes "in_step write_fails fs es s"
  obtains t r up down hs where "tables s = Some t" "reachable write_fails t"
    "procs s = [Capture 1, Network 1 0, Transport 0]" "chans s = [up, down]"
    "length up \<le> QUEUE_CAP" "length down \<le> QUEUE_CAP"
    "serve_all write_fails es (Start_state, fs) = ret (t, r)" "queued r up down"
    "fs = hs @ r" "length hs = packets es" "list_all SYN_frame hs"
  using assms unfolding in_step_def by blast

lemma in_step_app:
  assumes "in_step write_fails fs es s" and "tables s = Some t" and "tcp_step write_fails t t'"
    and "\<And>r. serve write_fails e (t, r) = ret (t', r)" and "packets [e] = 0"
  shows "in_step write_fails fs (es @ [e]) (s\<lparr>tables := Some t'\<rparr>)"
  using assms(1)
proof (rule in_stepE)
  fix u r up down hs
  assume u: "tables s = Some u" "reachable write_fails u" "serve_all write_fails es (Start_state, fs) = ret (u, r)"
    and q: "procs s = [Capture 1, Network 1 0, Transport 0]" "chans s = [up, down]"
    "length up \<le> QUEUE_CAP" "length down \<le> QUEUE_CAP" "queued r up down"
    and h: "fs = hs @ r" "length hs = packets es" "list_all SYN_frame hs"
  from u(1) assms(2) have [simp]: "u = t" by simp
  have "serve_all write_fails (es @ [e]) (Start_state, fs) = ret (t', r)"
    using u(3) assms(4) by (simp add: serve_all_append)
  moreover have "reachable write_fails t'" using u(2) assms(3) by (auto intro: reachable.step)
  moreover have "length hs = packets (es @ [e])" using h(2) assms(5) by simp
  ultimately show ?thesis using q h(1,3) unfolding in_step_def by auto
qed

lemma runs_in_step:
  assumes "runs write_fails s0 fs es s" and "in_step write_fails [] [] s0"
  shows "in_step write_fails fs es s"
  using assms
proof (induction rule: runs.induct)
  case start
  then show ?case .
next
  case (capture fs es s c spare data skb)
  from capture.IH [OF capture.prems] show ?case
  proof (rule in_stepE)
    fix t r up down hs
    assume a: "tables s = Some t" "reachable write_fails t" "procs s = [Capture 1, Network 1 0, Transport 0]"
      "chans s = [up, down]" "length up \<le> QUEUE_CAP" "length down \<le> QUEUE_CAP"
      "serve_all write_fails es (Start_state, fs) = ret (t, r)" "queued r up down"
      "fs = hs @ r" "length hs = packets es" "list_all SYN_frame hs"
    with capture.hyps have "c = 1" "length down < QUEUE_CAP" by auto
    with a queued_capture [OF a(8) capture.hyps(4)] serve_all_more [OF a(7), of "[(spare, data)]"]
    show ?thesis unfolding in_step_def put_chan_def by auto
  qed
next
  case (network fs es s c d skb q skb')
  from network.IH [OF network.prems] show ?case
  proof (rule in_stepE)
    fix t r up down hs
    assume a: "tables s = Some t" "reachable write_fails t" "procs s = [Capture 1, Network 1 0, Transport 0]"
      "chans s = [up, down]" "length up \<le> QUEUE_CAP" "length down \<le> QUEUE_CAP"
      "serve_all write_fails es (Start_state, fs) = ret (t, r)" "queued r up down"
      "fs = hs @ r" "length hs = packets es" "list_all SYN_frame hs"
    with network.hyps have "c = 1" "d = 0" "down = skb # q" "length up < QUEUE_CAP" by auto
    with a queued_network [of r up skb q skb'] network.hyps(4)
    show ?thesis unfolding in_step_def put_chan_def by auto
  qed
next
  case (transport fs es s c skb q t isn chunk t')
  from transport.IH [OF transport.prems] show ?case
  proof (rule in_stepE)
    fix u r up down hs
    assume a: "tables s = Some u" "reachable write_fails u" "procs s = [Capture 1, Network 1 0, Transport 0]"
      "chans s = [up, down]" "length up \<le> QUEUE_CAP" "length down \<le> QUEUE_CAP"
      "serve_all write_fails es (Start_state, fs) = ret (u, r)" "queued r up down"
      "fs = hs @ r" "length hs = packets es" "list_all SYN_frame hs"
    with transport.hyps have c: "c = 0" "up = skb # q" "u = t" by auto
    from a(8) c(2) obtain spare data gs where g: "r = (spare, data) # gs" "receive_packet spare data = ret skb"
      "queued gs q down" by (auto elim: queued_transport)
    have "serve_all write_fails (es @ [Packet isn chunk]) (Start_state, fs) = ret (t', gs)"
      using a(7) c g transport.hyps(5) by (simp add: serve_all_append)
    moreover have "reachable write_fails t'"
      using a(2) c transport.hyps(5) by (auto intro: reachable.step tcp_step.packet)
    moreover have "SYN_frame (spare, data)" using a(2) g(2) transport.hyps(5) c by (auto intro: handled_SYN)
    then have "fs = (hs @ [(spare, data)]) @ gs \<and> length (hs @ [(spare, data)]) = packets (es @ [Packet isn chunk])
        \<and> list_all SYN_frame (hs @ [(spare, data)])"
      using a(9-11) g(1) by simp
    ultimately show ?thesis using a c g(3) unfolding in_step_def put_chan_def by auto
  qed
next
  case (listen fs es s a port l s')
  from listen.hyps(2) obtain t t' where t: "tables s = Some t" "Listen a port t = (l, t')" "s' = s\<lparr>tables := Some t'\<rparr>"
    by (rule app_ListenE)
  with listen.IH [OF listen.prems] show ?case
    unfolding t(3) by (intro in_step_app [of write_fails]) (auto intro: tcp_step.listen)
next
  case (accept fs es s t l c t')
  then show ?case by (intro in_step_app) (auto intro: tcp_step.accept)
next
  case (read fs es s t c n cap bs conn)
  then show ?case by (intro in_step_app) (auto intro: tcp_step.read)
qed

text \<open>A run contains a run for every first part of its events.\<close>

lemma runs_prefix:
  assumes "runs write_fails s0 fs es s"
  shows "es = es1 @ es2 \<Longrightarrow> \<exists>fs1 gs s1. runs write_fails s0 fs1 es1 s1 \<and> fs = fs1 @ gs"
  using assms
proof (induction arbitrary: es2 rule: runs.induct)
  case start
  then show ?case using runs.start by auto
next
  case (capture fs es s c spare data skb)
  then show ?case by fastforce
next
  case (network fs es s c d skb q skb')
  then show ?case by blast
next
  case (transport fs es s c skb q t isn chunk t')
  from runs.transport [OF transport.hyps] transport.prems transport.IH show ?case
    by (cases es2 rule: rev_cases) auto
next
  case (listen fs es s a port l s')
  from runs.listen [OF listen.hyps] listen.prems listen.IH show ?case
    by (cases es2 rule: rev_cases) auto
next
  case (accept fs es s t l c t')
  from runs.accept [OF accept.hyps] accept.prems accept.IH show ?case
    by (cases es2 rule: rev_cases) auto
next
  case (read fs es s t c n cap bs conn)
  from runs.read [OF read.hyps] read.prems read.IH show ?case
    by (cases es2 rule: rev_cases) auto
qed

text \<open>The server in the middle of a run, with all the frames the run captures.\<close>

lemma runs_served:
  assumes "runs write_fails s0 fs (es1 @ es2) s" and "in_step write_fails [] [] s0"
  obtains t where "reachable write_fails t" "packets es1 \<le> length fs"
    "serve_all write_fails es1 (Start_state, fs) = ret (t, drop (packets es1) fs)"
proof -
  from runs_prefix [OF assms(1) refl] obtain fs1 gs s1 where
    r: "runs write_fails s0 fs1 es1 s1" "fs = fs1 @ gs" by blast
  from runs_in_step [OF r(1) assms(2)] show thesis
  proof (rule in_stepE)
    fix t r up down hs
    assume a: "reachable write_fails t" "serve_all write_fails es1 (Start_state, fs1) = ret (t, r)"
      "fs1 = hs @ r" "length hs = packets es1"
    have "drop (packets es1) fs = r @ gs" "packets es1 \<le> length fs" using a(3,4) r(2) by simp_all
    with serve_all_more [OF a(2), of gs] a(1) r(2) show thesis by (intro that [of t]) simp_all
  qed
qed

text \<open>One packet of a run, handled in a reachable state.\<close>

lemma runs_packet:
  assumes "runs write_fails s0 fs (es1 @ Packet isn chunk # es2) s" and "in_step write_fails [] [] s0"
  obtains t t' where "reachable write_fails t"
    "serve_all write_fails es1 (Start_state, fs) = ret (t, drop (packets es1) fs)"
    "packets es1 < length fs"
    "serve write_fails (Packet isn chunk) (t, drop (packets es1) fs) = ret (t', drop (Suc (packets es1)) fs)"
proof -
  from runs_served [OF assms] obtain t where t: "reachable write_fails t"
    "serve_all write_fails es1 (Start_state, fs) = ret (t, drop (packets es1) fs)" by metis
  have "runs write_fails s0 fs ((es1 @ [Packet isn chunk]) @ es2) s" using assms(1) by simp
  from runs_served [OF this assms(2)] obtain t' where t': "packets (es1 @ [Packet isn chunk]) \<le> length fs"
    "serve_all write_fails (es1 @ [Packet isn chunk]) (Start_state, fs)
      = ret (t', drop (packets (es1 @ [Packet isn chunk])) fs)" by metis
  from t'(2) have "serve write_fails (Packet isn chunk) (t, drop (packets es1) fs) = ret (t', drop (Suc (packets es1)) fs)"
    by (auto simp: serve_all_append t(2) bnd_eq_ret simp del: serve.simps)
  with t t'(1) show thesis by (intro that [of t t']) simp_all
qed

lemma in_step_started:
  assumes "tcp_Start open_fails filter_fails device flt unstarted = ret (err, s0)"
  shows "in_step write_fails [] [] s0"
proof -
  have "procs s0 = [Capture 1, Network 1 0, Transport 0]" "chans s0 = [[], []]" "tables s0 = Some Start_state"
    using assms by (auto simp: tcp_Start_unstarted split: if_split_asm)
  then show ?thesis by (auto simp: in_step_def queued_def reachable.start)
qed

end
