(* ===== verification/Layout.thy ===== *)
theory Layout
  imports Tcp RB_Node
begin

text \<open>
  How the compiler lays out the structs that the code casts pointers to (64-bit \<open>gc\<close>): a field starts at
  the next multiple of its alignment, a struct is aligned as strictly as its fields and padded to a multiple
  of that. The header structs fit the wire format; \<open>tcp_skb_cb\<close>, laid over the 40 bytes \<open>CB\<close> of a packet
  buffer by \<open>TCP_SKB_CB\<close>, does not fit, and the byte its \<open>sacked\<close> falls on is derived here.
\<close>

section \<open>Sizes, alignments, offsets\<close>

record go_type =
  size_of :: nat
  align_of :: nat

type_synonym go_fields = "(string \<times> go_type) list"

definition round_up :: "nat \<Rightarrow> nat \<Rightarrow> nat" where
  "round_up a n = (n + (a - 1)) div a * a"

fun align_fields :: "go_fields \<Rightarrow> nat" where
  "align_fields [] = 1"
| "align_fields ((f, t) # fs) = lcm (align_of t) (align_fields fs)"

fun end_of :: "go_fields \<Rightarrow> nat \<Rightarrow> nat" where
  "end_of [] n = n"
| "end_of ((f, t) # fs) n = end_of fs (round_up (align_of t) n + size_of t)"

text \<open>Where a field starts in a struct whose earlier fields end at \<open>n\<close>, and its type.\<close>

fun place :: "go_fields \<Rightarrow> nat \<Rightarrow> string \<Rightarrow> (nat \<times> go_type) option" where
  "place [] n g = None"
| "place ((f, t) # fs) n g =
     (if f = g then Some (round_up (align_of t) n, t) else place fs (round_up (align_of t) n + size_of t) g)"

definition offset :: "go_fields \<Rightarrow> string \<Rightarrow> nat option" where
  "offset fs f = map_option fst (place fs 0 f)"

text \<open>Numbers and pointers are aligned to their size, arrays of bytes not at all; a byte slice is a
  pointer, a length and a capacity.\<close>

definition scalar :: "nat \<Rightarrow> go_type" where "scalar n = \<lparr>size_of = n, align_of = n\<rparr>"
definition array8 :: "nat \<Rightarrow> go_type" where "array8 n = \<lparr>size_of = n, align_of = 1\<rparr>"
definition slice8 :: go_type where "slice8 = \<lparr>size_of = 24, align_of = 8\<rparr>"

definition struct :: "go_fields \<Rightarrow> go_type" where
  "struct fs = \<lparr>size_of = round_up (align_fields fs) (end_of fs 0), align_of = align_fields fs\<rparr>"

lemma round_up_ge: "0 < a \<Longrightarrow> n \<le> round_up a n"
proof -
  assume "0 < a"
  then have "(n + (a - 1)) mod a < a" by simp
  moreover have "round_up a n + (n + (a - 1)) mod a = n + (a - 1)"
    unfolding round_up_def by (rule div_mult_mod_eq)
  ultimately show ?thesis by linarith
qed

lemma round_up_dvd: "a dvd round_up a n"
  by (simp add: round_up_def)

lemma end_of_ge: "\<forall>x \<in> set fs. 0 < align_of (snd x) \<Longrightarrow> n \<le> end_of fs n"
proof (induction fs n rule: end_of.induct)
  case (2 f t fs n)
  then show ?case using round_up_ge [of "align_of t" n] by force
qed simp

text \<open>Every field is aligned and lies inside its struct, and fields of different names do not overlap.\<close>

lemma place_bounds:
  assumes "place fs n f = Some (k, t)" and "\<forall>x \<in> set fs. 0 < align_of (snd x)"
  shows "align_of t dvd k \<and> align_of t dvd align_fields fs \<and> n \<le> k \<and> k + size_of t \<le> end_of fs n"
  using assms
proof (induction fs n f rule: place.induct)
  case (2 g u fs n f)
  let ?n = "round_up (align_of u) n"
  have n: "n \<le> ?n" using 2(3) by (intro round_up_ge) simp
  show ?case
  proof (cases "g = f")
    case True
    with 2(2,3) n show ?thesis by (auto simp: round_up_dvd end_of_ge)
  next
    case False
    with 2 n show ?thesis by (auto intro: dvd_lcmI2)
  qed
qed simp

lemma place_disjoint:
  assumes "place fs n f = Some (k, t)" and "place fs n g = Some (l, u)" and "f \<noteq> g"
    and "\<forall>x \<in> set fs. 0 < align_of (snd x)"
  shows "k + size_of t \<le> l \<or> l + size_of u \<le> k"
  using assms
proof (induction fs n f rule: place.induct)
  case (2 h v fs n f)
  let ?m = "round_up (align_of v) n + size_of v"
  have later: "place fs ?m j = Some (i, w) \<Longrightarrow> ?m \<le> i" for j i w
    using place_bounds [of fs ?m j i w] 2(5) by simp
  show ?case
    using 2 later [of f k t] later [of g l u] by (auto split: if_splits)
qed simp

lemma struct_size: "0 < align_of (struct fs) \<Longrightarrow> end_of fs 0 \<le> size_of (struct fs)"
  "align_of (struct fs) dvd size_of (struct fs)"
  by (simp_all add: struct_def round_up_ge round_up_dvd)

section \<open>The program's structs\<close>

abbreviation int8 :: go_type where "int8 \<equiv> scalar 1"
abbreviation int16 :: go_type where "int16 \<equiv> scalar 2"
abbreviation int32 :: go_type where "int32 \<equiv> scalar 4"
abbreviation pointer :: go_type where "pointer \<equiv> scalar 8"

definition SkBuff_fields :: go_fields where
  "SkBuff_fields =
    [(''TransportHdr'', pointer), (''NetworkHdr'', pointer), (''MacHdr'', pointer), (''CheckPotioner'', pointer),
     (''Size'', int16), (''Data'', pointer), (''PayloadLen'', int16), (''CB'', array8 40), (''AppIndex'', int16),
     (''TransportIndex'', int16), (''NetworkIndex'', int16), (''MacIndex'', int16), (''DataEnd'', int16),
     (''Buffer'', slice8)]"

definition EthHeader_fields :: go_fields where
  "EthHeader_fields = [(''DstMAC'', array8 6), (''SrcMAC'', array8 6), (''Protocol'', int16)]"

definition IPHeader_fields :: go_fields where
  "IPHeader_fields =
    [(''VersionIhl'', int8), (''Tos'', int8), (''TotLength'', int16), (''Ident'', int16), (''FragOff'', int16),
     (''TTL'', int8), (''Protocol'', int8), (''Check'', int16), (''Saddr'', int32), (''Daddr'', int32)]"

definition TCPHeader_fields :: go_fields where
  "TCPHeader_fields =
    [(''SourcePort'', int16), (''DestPort'', int16), (''Seq'', int32), (''Ack'', int32),
     (''DataOffsetAndFlags'', int16), (''Window'', int16), (''Checksum'', int16), (''UrgentPointer'', int16)]"

definition IPOptions_fields :: go_fields where
  "IPOptions_fields =
    [(''faddr'', int32), (''optlen'', int8), (''srr'', int8), (''rr'', int8), (''ts'', int8),
     (''is_strictroute'', int8), (''srr_is_hit'', int8), (''is_changed'', int8), (''rr_needaddr'', int8),
     (''ts_needtime'', int8), (''ts_needaddr'', int8), (''router_alert'', int8), (''cipso'', int8),
     (''__pad2'', int8), (''__data'', slice8)]"

definition InetSkbParm_fields :: go_fields where
  "InetSkbParm_fields = [(''opt'', struct IPOptions_fields), (''flags'', int8)]"

definition tcp_skb_cb_fields :: go_fields where
  "tcp_skb_cb_fields =
    [(''header'', struct InetSkbParm_fields), (''seq'', int32), (''end_seq'', int32), (''when'', int32),
     (''flags'', int8), (''sacked'', int8), (''ack_seq'', int32)]"

text \<open>A node of the red-black tree; its key is an interface, two words.\<close>

definition interface :: go_type where "interface = \<lparr>size_of = 16, align_of = 8\<rparr>"

definition Node_fields :: go_fields where
  "Node_fields =
    [(''keyValue'', interface), (''parent'', pointer), (''leftChild'', pointer), (''rightChild'', pointer),
     (''color'', int8), (''addr'', slice8)]"

definition NODESIZE :: nat where
  "NODESIZE = size_of (struct Node_fields)"

text \<open>The structs no code reads, or reads only whole: they take part in the layout of others.\<close>

definition TCPOptionsReceived_fields :: go_fields where
  "TCPOptionsReceived_fields =
    [(''ts_recent_stamp'', scalar 8), (''ts_recent'', int32), (''rcv_tsval'', int32), (''rcv_tsecr'', int32),
     (''saw_tstamp'', int16), (''tstamp_ok'', int8), (''dsack'', int8), (''wscale_ok'', int8), (''sack_ok'', int8),
     (''snd_wscale'', int8), (''rcv_wscale'', int8), (''num_sacks'', int8), (''user_mss'', int16), (''mss_clamp'', int16)]"

definition TCPSocket_fields :: go_fields where
  "TCPSocket_fields =
    [(''snd_wl1'', int32), (''snd_wnd'', int32), (''max_window'', int32), (''mss_cache'', scalar 8),
     (''window_clamp'', int32), (''rcv_ssthresh'', int32), (''frto_highmark'', int32), (''advmss'', int32),
     (''frto_counter'', int32), (''nonagle'', int32), (''srtt'', int32), (''mdev'', int32), (''mdev_max'', int32),
     (''rttvar'', int32), (''rtt_seq'', int32), (''packets_out'', int32), (''retrans_out'', int32),
     (''urg_data'', int32), (''ecn_flags'', int32), (''reordering'', int32), (''snd_up'', int32),
     (''keepalive_probes'', int32), (''rx_opt'', struct TCPOptionsReceived_fields), (''snd_ssthresh'', int32),
     (''snd_cwnd'', int32), (''snd_cwnd_cnt'', int32), (''snd_cwnd_clamp'', int32), (''snd_cwnd_used'', int32),
     (''snd_cwnd_stamp'', int32), (''rcv_wnd'', int32), (''write_seq'', int32), (''pushed_seq'', int32),
     (''lost_out'', int32), (''sacked_out'', int32), (''fackets_out'', int32), (''tso_deferred'', int32),
     (''bytes_acked'', int32)]"

definition TCPOption_fields :: go_fields where
  "TCPOption_fields = [(''opt'', array8 20)]"

definition TCPPacket_fields :: go_fields where
  "TCPPacket_fields = [(''Header'', pointer), (''OptionsAndPadding'', slice8), (''Data'', slice8)]"

definition IPPacket_fields :: go_fields where
  "IPPacket_fields = [(''Header'', pointer), (''Packet'', pointer)]"

definition IPHandle_fields :: go_fields where
  "IPHandle_fields = [(''EthHandle'', pointer)]"

definition EthPacket_fields :: go_fields where
  "EthPacket_fields = [(''Header'', struct EthHeader_fields), (''Packet'', slice8)]"

definition EthHandle_fields :: go_fields where
  "EthHandle_fields = [(''handle'', pointer)]"

definition SKBOption_fields :: go_fields where
  "SKBOption_fields = [(''OptionLen'', int8), (''cb'', array8 40)]"

lemmas field_defs = SkBuff_fields_def EthHeader_fields_def IPHeader_fields_def TCPHeader_fields_def
  IPOptions_fields_def InetSkbParm_fields_def tcp_skb_cb_fields_def Node_fields_def
  TCPOptionsReceived_fields_def TCPSocket_fields_def TCPOption_fields_def TCPPacket_fields_def IPPacket_fields_def
  IPHandle_fields_def EthPacket_fields_def EthHandle_fields_def SKBOption_fields_def
lemmas type_defs = scalar_def array8_def slice8_def struct_def interface_def round_up_def offset_def

text \<open>Header structs have no padding: their offsets are those of the wire format.\<close>

lemma header_sizes:
  "size_of (struct EthHeader_fields) = LEN_ETHHDR" "size_of (struct IPHeader_fields) = LEN_IPHDR"
  "size_of (struct TCPHeader_fields) = LEN_TCPHDR"
  by (simp_all add: field_defs type_defs length_consts)

definition all_structs :: "go_fields list" where
  "all_structs =
    [SkBuff_fields, EthHeader_fields, IPHeader_fields, TCPHeader_fields, IPOptions_fields, InetSkbParm_fields,
     tcp_skb_cb_fields, Node_fields, TCPOptionsReceived_fields, TCPSocket_fields, TCPOption_fields, TCPPacket_fields,
     IPPacket_fields, IPHandle_fields, EthPacket_fields, EthHandle_fields, SKBOption_fields]"

lemma struct_sizes:
  "map (\<lambda>fs. size_of (struct fs)) all_structs = [128, 14, 20, 20, 48, 56, 80, 72, 40, 192, 20, 56, 16, 8, 40, 8, 41]"
  by (simp add: all_structs_def field_defs type_defs)

lemma aligned_types:
  "fs \<in> set all_structs \<Longrightarrow> 0 < align_fields fs \<and> (\<forall>x \<in> set fs. 0 < align_of (snd x))"
  by (auto simp: all_structs_def field_defs type_defs)

text \<open>In each of the program's structs every field is aligned and inside, and two fields never overlap.\<close>

theorem fields_sound:
  assumes "fs \<in> set all_structs" and "place fs 0 f = Some (k, t)"
  shows "align_of t dvd k \<and> k + size_of t \<le> size_of (struct fs)
    \<and> (\<forall>g l u. place fs 0 g = Some (l, u) \<longrightarrow> f \<noteq> g \<longrightarrow> k + size_of t \<le> l \<or> l + size_of u \<le> k)"
proof -
  have a: "\<forall>x \<in> set fs. 0 < align_of (snd x)" "0 < align_of (struct fs)"
    using aligned_types [OF assms(1)] by (simp_all add: struct_def)
  show ?thesis
    using place_bounds [OF assms(2) a(1)] place_disjoint [OF assms(2) _ _ a(1)] struct_size(1) [OF a(2)] by fastforce
qed

text \<open>A node is larger than the smallest chunk of its pool and fits the largest.\<close>

lemma NODESIZE_pool:
  "NODESIZE = 72" "InitRBtreeMemPool = SyncPool lo hi k \<Longrightarrow> lo < NODESIZE \<and> NODESIZE \<le> hi"
  by (auto simp: NODESIZE_def field_defs type_defs InitRBtreeMemPool_def)

lemma control_block:
  "size_of (struct tcp_skb_cb_fields) = 80" "offset tcp_skb_cb_fields ''sacked'' = Some 69"
  "offset SkBuff_fields ''CB'' = Some 50" "offset SkBuff_fields ''Buffer'' = Some 104"
  "size_of (struct SkBuff_fields) = 128"
  by (simp_all add: field_defs type_defs)

section \<open>What the write to \<open>sacked\<close> hits\<close>

text \<open>Numbers in memory, low byte first.\<close>

fun le_bytes :: "nat \<Rightarrow> nat \<Rightarrow> bytes" where
  "le_bytes 0 n = []"
| "le_bytes (Suc k) n = of_nat (n mod 256) # le_bytes k (n div 256)"

fun of_le :: "bytes \<Rightarrow> nat" where
  "of_le [] = 0"
| "of_le (b # bs) = unat b + 256 * of_le bs"

lemma length_le_bytes [simp]: "length (le_bytes k n) = k"
  by (induction k n rule: le_bytes.induct) simp_all

lemma le_bytes_snoc: "le_bytes (Suc k) n = le_bytes k n @ [of_nat (n div 256 ^ k mod 256)]"
  by (induction k arbitrary: n) (simp_all add: div_mult2_eq)

lemma of_le_append: "of_le (le_bytes k n @ bs) = n mod 256 ^ k + 256 ^ k * of_le bs"
proof (induction k n rule: le_bytes.induct)
  case (2 k n)
  have "unat (of_nat (n mod 256) :: u8) = n mod 256" by (simp add: unsigned_of_nat take_bit_eq_mod)
  with 2 show ?case by (simp add: mod_mult2_eq algebra_simps)
qed simp

text \<open>The byte is the highest of the eight that hold the length of \<open>Buffer\<close>.\<close>

lemma set_sacked_bytes:
  "set_sacked v skb = skb\<lparr>Buffer := (Buffer skb)\<lparr>len := of_le ((le_bytes 8 (len (Buffer skb)))[7 := v])\<rparr>\<rparr>"
proof -
  have "(le_bytes 8 n)[7 := v] = le_bytes 7 n @ [v]" for n
    using le_bytes_snoc [of 7 n] by (simp add: list_update_append)
  then show ?thesis by (simp add: set_sacked_def of_le_append)
qed

end
