(* ===== verification/Print.thy ===== *)
theory Print
  imports Tcp
begin

unbundle bit_operations_syntax

text \<open>
  The \<open>String\<close> methods of the three headers, with the verbs of \<open>fmt\<close> they use: \<open>%d\<close> (\<open>show_dec\<close>), \<open>%x\<close>, \<open>%b\<close>
  and \<open>%t\<close> on numbers that are not negative and on truth values. A method called on a nil pointer
  dereferences it, save the one that tests for nil.
\<close>

section \<open>Verbs\<close>

definition hex_digit :: "nat \<Rightarrow> char" where
  "hex_digit n = (if n < 10 then digit n else char_of (87 + n))"

fun show_hex :: "nat \<Rightarrow> string" where
  "show_hex n = (if n < 16 then [hex_digit n] else show_hex (n div 16) @ [hex_digit (n mod 16)])"

fun show_bin :: "nat \<Rightarrow> string" where
  "show_bin n = (if n < 2 then [digit n] else show_bin (n div 2) @ [digit (n mod 2)])"

definition show_bool :: "bool \<Rightarrow> string" where
  "show_bool b = (if b then ''true'' else ''false'')"

declare show_hex.simps [simp del] show_bin.simps [simp del]

definition nl :: string where
  "nl = [char_of (10 :: nat)]"

section \<open>Link header\<close>

fun show_mac :: "mac \<Rightarrow> string" where
  "show_mac (MAC a b c d e f) = show_hex (unat a) @ '':'' @ show_hex (unat b) @ '':'' @ show_hex (unat c)
     @ '':'' @ show_hex (unat d) @ '':'' @ show_hex (unat e) @ '':'' @ show_hex (unat f)"

definition EthHeader_String :: "EthHeader option \<Rightarrow> string go" where
  "EthHeader_String hdr =
     (case hdr of None \<Rightarrow> panic NilDeref
      | Some hdr \<Rightarrow> ret (''Src MAC '' @ show_mac (SrcMAC hdr) @ '' Dst MAC '' @ show_mac (DstMAC hdr)
          @ '' protocol '' @ show_hex (unat (EthProtocol hdr))))"

section \<open>Network header\<close>

definition IPHeader_String :: "IPHeader option \<Rightarrow> string" where
  "IPHeader_String ipHdr =
     (case ipHdr of None \<Rightarrow> ''<nil>''
      | Some ipHdr \<Rightarrow>
          ''Version Data: '' @ show_dec (unat (GetVersion ipHdr)) @ '' '' @ nl
        @ ''Len (bytes): '' @ show_dec (unat (GetHeaderLen ipHdr)) @ nl
        @ ''DSCP: '' @ show_dec (unat (0x3F AND drop_bit 2 (Tos ipHdr))) @ nl
        @ ''ECN: '' @ show_dec (unat (0x03 AND Tos ipHdr)) @ nl
        @ ''Ident: '' @ show_dec (unat (Ident ipHdr)) @ nl
        @ ''Flags: '' @ show_dec (unat (0x7 AND drop_bit 13 (FragOff ipHdr))) @ nl
        @ ''TTL: '' @ show_dec (unat (TTL ipHdr)) @ nl
        @ ''Proto: '' @ show_dec (unat (Protocol ipHdr)) @ nl
        @ ''Source IP: '' @ Source ipHdr @ nl
        @ ''Destination IP: '' @ Destination ipHdr @ nl
        @ ''IP Proto: '' @ show_dec (unat (Protocol ipHdr)) @ nl
        @ ''P Data Length: '' @ show_dec (unat (GetTotLength ipHdr)) @ nl)"

section \<open>Transport header\<close>

definition TCPHeader_String :: "TCPHeader option \<Rightarrow> string go" where
  "TCPHeader_String hdr =
     (case hdr of None \<Rightarrow> panic NilDeref
      | Some hdr \<Rightarrow>
          let off = 4 * (drop_bit 4 (DataOffsetAndFlags hdr) AND 0x0f)
          in ret (''Source:'' @ show_dec (unat (Ntohs (SourcePort hdr)))
            @ '' Destination:'' @ show_dec (unat (Ntohs (DestPort hdr)))
            @ '' SEQ:'' @ show_dec (unat (Ntohl (Seq hdr))) @ '' ACK:'' @ show_dec (unat (Ntohl (Ack hdr)))
            @ '' SYN? '' @ show_bool (DataOffsetAndFlags hdr AND CTRL_SYN \<noteq> 0)
            @ '' ACK? '' @ show_bool (DataOffsetAndFlags hdr AND CTRL_ACK \<noteq> 0)
            @ '' PSH? '' @ show_bool (DataOffsetAndFlags hdr AND CTRL_PSH \<noteq> 0)
            @ '' FIN? '' @ show_bool (DataOffsetAndFlags hdr AND CTRL_FIN \<noteq> 0)
            @ '' Window: '' @ show_dec (unat (Window hdr)) @ '' '' @ show_hex (unat (Window hdr))
            @ '' Checksum: '' @ show_dec (unat (TCPChecksum hdr)) @ '' ('' @ show_hex (unat (TCPChecksum hdr))
            @ '') '' @ show_bin (unat (TCPChecksum hdr))
            @ '', Data Offset:'' @ show_dec (unat off)
            @ '', Options and Padding Size:'' @ show_dec (unat (off - 20))))"

section \<open>The accessors of the network header\<close>

text \<open>What the setters leave for the getters and for the printed fields; they only ever set bits.\<close>

lemma bit_less8: "bit (w :: u8) n \<Longrightarrow> n \<in> {0, 1, 2, 3, 4, 5, 6, 7}"
  using bit_imp_le_length [of w n] by (auto simp: less_Suc_eq eval_nat_numeral)

lemma u8_eqI: "(\<And>n. n \<in> {0, 1, 2, 3, 4, 5, 6, 7} \<Longrightarrow> bit (v :: u8) n = bit w n) \<Longrightarrow> v = w"
  by (rule bit_eqI) (use bit_less8 in blast)

lemma times4: "4 * (w :: u8) = push_bit 2 w"
  by (simp add: push_bit_eq_mult mult.commute)

lemma header_bytes_setters:
  "GetVersion (SetVersion v h) = GetVersion h OR (v AND 0xF)"
  "GetVersion (SetHeaderLen n h) = GetVersion h"
  "GetHeaderLen (SetVersion v h) = GetHeaderLen h"
  "GetHeaderLen (SetHeaderLen n h) = GetHeaderLen h OR (n AND 0x3C)"
  unfolding GetVersion_def SetVersion_def GetHeaderLen_def SetHeaderLen_def times4
  by (rule u8_eqI; auto simp: bit_simps numeral_2_eq_2 [symmetric] numeral_3_eq_3 [symmetric])+

lemma tos_setters:
  "0x3F AND drop_bit 2 (Tos (SetDSCP d h)) = (0x3F AND drop_bit 2 (Tos h)) OR (d AND 0xF)"
  "0x3F AND drop_bit 2 (Tos (SetECN e h)) = 0x3F AND drop_bit 2 (Tos h)"
  "0x03 AND Tos (SetDSCP d h) = 0x03 AND Tos h"
  "0x03 AND Tos (SetECN e h) = (0x03 AND Tos h) OR (e AND 0x03)"
  unfolding SetDSCP_def SetECN_def
  by (rule u8_eqI; auto simp: bit_simps)+

lemma SetNoFrag_flags: "0x7 AND drop_bit 13 (FragOff (SetNoFrag h)) = 0x7 AND drop_bit 13 (FragOff h)"
  by (rule bit_eqI) (auto simp: SetNoFrag_def bit_simps)

lemma SetNoFrag_String: "IPHeader_String (Some (SetNoFrag h)) = IPHeader_String (Some h)"
  unfolding IPHeader_String_def option.case SetNoFrag_flags
  by (simp add: SetNoFrag_def Let_def GetVersion_def GetHeaderLen_def GetTotLength_def Source_def Destination_def)

lemma SetNoFrag_wire:
  "le16 (FragOff (SetNoFrag h)) = [(le16 (FragOff h) ! 0 AND 0x0F) OR 0x40, le16 (FragOff h) ! 1]"
proof -
  have "ucast ((0xFF0F AND x) OR push_bit 5 2 :: u16) = (ucast x AND 0x0F :: u8) OR 0x40" for x :: u16
    by (rule u8_eqI) (auto simp: bit_simps)
  moreover have "ucast (drop_bit 8 ((0xFF0F AND x) OR push_bit 5 2 :: u16)) = (ucast (drop_bit 8 x) :: u8)" for x :: u16
    by (rule u8_eqI) (auto simp: bit_simps)
  ultimately show ?thesis by (simp add: SetNoFrag_def Let_def le16_def)
qed

section \<open>Printed link headers can be told apart\<close>

lemma of_char_hex_digit: "n < 16 \<Longrightarrow> of_char (hex_digit n) = (if n < 10 then 48 + n else 87 + n)"
  by (simp add: hex_digit_def take_bit_eq_mod)

lemma hex_digit_inject [simp]:
  assumes "m < 16" "n < 16"
  shows "hex_digit m = hex_digit n \<longleftrightarrow> m = n"
proof
  assume "hex_digit m = hex_digit n"
  then have "(of_char (hex_digit m) :: nat) = of_char (hex_digit n)" by simp
  then show "m = n" using assms by (simp add: of_char_hex_digit split: if_split_asm)
qed simp

lemma show_hex_chars: "c \<in> set (show_hex n) \<Longrightarrow> \<exists>d < 16. c = hex_digit d"
proof (induction n rule: show_hex.induct)
  case (1 n)
  show ?case
  proof (cases "n < 16")
    case True
    with 1(2) show ?thesis by (auto simp: show_hex.simps [of n])
  next
    case False
    with 1(2) have "c \<in> set (show_hex (n div 16)) \<or> c = hex_digit (n mod 16)" by (auto simp: show_hex.simps [of n])
    with 1(1) [OF False] show ?thesis by (metis mod_less_divisor zero_less_numeral)
  qed
qed

lemma show_hex_free [simp]: "CHR '':'' \<notin> set (show_hex n)" "CHR '' '' \<notin> set (show_hex n)"
  using show_hex_chars [of "CHR '':''" n] show_hex_chars [of "CHR '' ''" n]
  by (auto dest!: arg_cong [where f = "of_char :: char \<Rightarrow> nat"] simp: of_char_hex_digit split: if_split_asm)

lemma show_hex_not_Nil [simp]: "show_hex n \<noteq> []" "[] \<noteq> show_hex n"
  by (simp_all add: show_hex.simps)

lemma show_hex_inject: "show_hex m = show_hex n \<longleftrightarrow> m = n"
proof
  show "show_hex m = show_hex n \<Longrightarrow> m = n"
  proof (induction m arbitrary: n rule: show_hex.induct)
    case (1 m)
    have "m = n" if "m div 16 = n div 16" "m mod 16 = n mod 16"
      using that by (metis div_mult_mod_eq)
    with 1(2) 1(1) [of "n div 16"] show ?case
      by (auto simp: show_hex.simps [of m] show_hex.simps [of n] split: if_split_asm)
  qed
qed simp

lemma split_at_char: "c \<notin> set xs \<Longrightarrow> c \<notin> set xs' \<Longrightarrow> xs @ c # ys = xs' @ c # ys' \<longleftrightarrow> xs = xs' \<and> ys = ys'"
  by (auto simp: append_eq_append_conv2 append_eq_Cons_conv Cons_eq_append_conv)

lemma show_mac_inject:
  "show_mac x @ CHR '' '' # s = show_mac y @ CHR '' '' # t \<longleftrightarrow> x = y \<and> s = t"
  by (cases x; cases y) (simp add: split_at_char show_hex_inject word_unat_eq_iff)

theorem EthHeader_String_inject: "EthHeader_String (Some g) = EthHeader_String (Some h) \<longleftrightarrow> g = h"
  by (cases g; cases h) (auto simp: EthHeader_String_def show_mac_inject show_hex_inject word_unat_eq_iff)

end
