(* ===== verification/Net_Props.thy ===== *)
theory Net_Props
  imports Tcp_Data Pipeline Layout Print
begin

unbundle bit_operations_syntax

text \<open>
  The properties of the packet path: byte order and checksums, headers, sending, receiving, options,
  and the TCP server over all its runs, each followed by its application to concrete packets.
\<close>

section \<open>Concrete packets\<close>

definition L0 :: bytes where "L0 = [1, 2, 3, 4, 5, 6, 7, 8, 9, 10, 11, 12, 8, 0]"

definition iph0 :: "u32 \<Rightarrow> IPHeader" where
  "iph0 src = \<lparr>VersionIhl = 0x45, Tos = 0, TotLength = 0x2800, Ident = 0, FragOff = 0x40, TTL = 64,
     Protocol = 6, Check = 0, Saddr = src, Daddr = 0x0100000A\<rparr>"

definition th0 :: "u16 \<Rightarrow> TCPHeader" where
  "th0 flags = \<lparr>SourcePort = 0x3930, DestPort = 0x5000, Seq = 0xE8030000, Ack = 0,
     DataOffsetAndFlags = flags, Window = 0x0004, TCPChecksum = 0, UrgentPointer = 0\<rparr>"

definition s80 :: tcp_state where
  "s80 = snd (Listen (DotIP 0x0100000A) 80 Start_state)"

definition accepts_all :: "bytes \<Rightarrow> bool" where
  "accepts_all b \<longleftrightarrow> False"

lemma Htons_80 [simp]: "Htons 80 = 0x5000"
  by (simp add: Htons_def)

lemma packet0 [simp]:
  "length L0 = 14" "hdr_len (iph0 src) = 20" "Destination (iph0 src) = DotIP 0x0100000A"
  "DestPort (th0 f) = 0x5000" "Saddr (iph0 src) = src"
  by (simp_all add: L0_def iph0_def th0_def hdr_len_def Destination_def)

lemma flags0 [simp]:
  "IsSYN (th0 0x0250)" "\<not> IsACK (th0 0x0250)" "\<not> IsSYN (th0 0x1050)" "IsACK (th0 0x1050)"
  "IsSYN (th0 0x0260)" "\<not> IsACK (th0 0x0260)"
  by (simp_all add: IsSYN_def IsACK_def th0_def flag_consts)

lemma offsets0 [simp]:
  "data_offset (th0 0x0250) = 20" "data_offset (th0 0x0260) = 24" "data_offset (th0 0x1050) = 20"
  by (simp_all add: data_offset_def th0_def)

lemma s80_listens [simp]:
  "listeners s80 (listener_key (DotIP 0x0100000A) 0x5000) = Some 0"
  "lsts s80 = [\<lparr>l_localIP = 0x0100000A, l_localPort = 0x5000, connChannel = []\<rparr>]"
  "connections s80 = Map.empty" "conns s80 = []" "sent s80 = []"
  by (simp_all add: s80_def Listen_def Let_def Start_state_def Ip2long_dotted)

lemma s80_reachable: "reachable write_fails s80"
  using reachable.step [OF reachable.start tcp_step.listen] by (simp add: s80_def) (metis prod.collapse)

section \<open>The TCP server\<close>

text \<open>C2. In every reachable state, a SYN that carries no ACK and is addressed to a listening
  socket is answered with a SYN-ACK on a new connection: the segment of \<open>synack_header\<close>, with the
  sequence number after the SYN's as its acknowledgement, is framed and written, or the process
  exits because a checksum does not verify or the device refuses the frame.\<close>

theorem SYN_answered:
  assumes "reachable write_fails s" and "length L = 14" and "hdr_len iph = 20" and "54 \<le> length chunk"
    and "unat (data_offset th - 20) = length (opts_bytes xs)" and "\<forall>x \<in> set xs. wf_opt x"
    and "IsSYN th" and "\<not> IsACK th"
    and "listeners s (listener_key (Destination iph) (DestPort th)) = Some i"
  shows "bnd (receive_packet spare (wire_packet L iph th (opts_bytes xs @ payload))) (\<lambda>skbuf.
      handle_packet write_fails isn chunk skbuf s) =
    bnd (transmit write_fails (new_ip (l_localIP (lsts s ! i)) (Saddr iph) L) (chunk ! 13)
          (synack_header (answered (syn_conn (lsts s ! i) iph th L) th isn) isn (stale_flags chunk)) (sent s)) (\<lambda>out.
    ret (s\<lparr>connections := (connections s)(ident (syn_conn (lsts s ! i) iph th L) \<mapsto> length (conns s)), sent := out,
           conns := conns s @ [answered (syn_conn (lsts s ! i) iph th L) th isn]\<rparr>))"
  unfolding receive_wire [OF assms(2)] bnd_ret
  using never_found [OF reachable_ok [OF assms(1)]] by (intro handle_SYN assms)

theorem SYN_answered_witness:
  "bnd (receive_packet [] (wire_packet L0 (iph0 0x0200000A) (th0 0x0260) (opts_bytes [OMss 1460]))) (\<lambda>skbuf.
      handle_packet accepts_all 7 (replicate 54 0) skbuf s80) =
    bnd (transmit accepts_all (new_ip 0x0100000A 0x0200000A L0) 0
          (synack_header (answered (syn_conn (lsts s80 ! 0) (iph0 0x0200000A) (th0 0x0260) L0) (th0 0x0260) 7) 7 0) []) (\<lambda>out.
    ret (s80\<lparr>connections := [ident (syn_conn (lsts s80 ! 0) (iph0 0x0200000A) (th0 0x0260) L0) \<mapsto> 0], sent := out,
           conns := [answered (syn_conn (lsts s80 ! 0) (iph0 0x0200000A) (th0 0x0260) L0) (th0 0x0260) 7]\<rparr>))"
  using SYN_answered [OF s80_reachable, where L = L0 and iph = "iph0 0x0200000A" and chunk = "replicate 54 0"
      and th = "th0 0x0260" and xs = "[OMss 1460]" and i = 0 and spare = "[]" and payload = "[]"
      and write_fails = accepts_all and isn = 7]
  by (simp add: stale_flags_def rd16_def)

text \<open>C3. In every reachable state, a packet without the SYN flag makes the run loop dereference a
  nil connection: the lookup never finds one, because the table's keys hold plain numbers and the
  key looked up holds dotted addresses. No handshake completes.\<close>

theorem non_SYN_panics:
  assumes "reachable write_fails s" and "length L = 14" and "hdr_len iph = 20" and "\<not> IsSYN th"
  shows "bnd (receive_packet spare (wire_packet L iph th rest)) (\<lambda>skbuf.
    handle_packet write_fails isn chunk skbuf s) = panic NilDeref"
  unfolding receive_wire [OF assms(2)] bnd_ret handle_wire [OF assms(2,3)]
  using never_found [OF reachable_ok [OF assms(1)], of iph th] assms(4) by (simp split: option.split)

theorem non_SYN_panics_witness:
  "bnd (receive_packet [] (wire_packet L0 (iph0 0x0200000A) (th0 0x1050) [])) (\<lambda>skbuf.
    handle_packet accepts_all 7 [] skbuf s80) = panic NilDeref"
  by (rule non_SYN_panics [OF s80_reachable]) simp_all

text \<open>C18. A SYN whose last option byte is a kind other than padding or end, with the packet
  ending there, makes the option parser read the size byte one past the slice: the run loop panics.\<close>

theorem SYN_option_panics:
  assumes "reachable write_fails s" and "length L = 14" and "hdr_len iph = 20"
    and "unat (data_offset th - 20) > length (opts_bytes xs)" and "\<forall>x \<in> set xs. wf_opt x"
    and "k \<noteq> 0" and "k \<noteq> 1" and "IsSYN th"
    and "listeners s (listener_key (Destination iph) (DestPort th)) = Some i"
  shows "bnd (receive_packet spare (wire_packet L iph th (opts_bytes xs @ [k]))) (\<lambda>skbuf.
    handle_packet write_fails isn chunk skbuf s) = panic IndexRange"
proof -
  let ?skb = "parsed spare (wire_packet L iph th (opts_bytes xs @ [k])) iph th"
  let ?opt = "\<lparr>mem = opts_bytes xs @ k # spare, len = length (opts_bytes xs) + 1\<rparr>"
  obtain n where n: "unat (data_offset th - 20) = length (opts_bytes xs) + Suc n"
    using assms(4) less_iff_Suc_add by auto
  have "parse_loop True ?opt 0 (length (opts_bytes xs) + Suc n) (rx, skb) = panic IndexRange" for rx skb
    using parse_options [of ?opt "[]" xs "k # spare" True "Suc n"] assms(5)
      parse_loop_past_end [of ?opt "opts_bytes xs" k spare "Suc n"] assms(6,7) by simp
  moreover have "subslice (Buffer ?skb) 54 (len (Buffer ?skb)) = ret ?opt"
    using assms(2) by (simp add: subslice_def wire_packet_def)
  ultimately have "tcpParseOpt ?skb rx = panic IndexRange" for rx
    using parse_wire(2) [OF assms(2,3), of spare th "opts_bytes xs @ [k]"] assms(3,8) n
    by (simp add: tcpParseOpt_def Let_def)
  then show ?thesis
    unfolding receive_wire [OF assms(2)] bnd_ret handle_wire [OF assms(2,3)]
    using never_found [OF reachable_ok [OF assms(1)], of iph th] assms(8,9) by (simp add: new_conn_def Let_def)
qed

theorem SYN_option_panics_witness:
  "bnd (receive_packet [] (wire_packet L0 (iph0 0x0200000A) (th0 0x0260) [1, 1, 1, 2])) (\<lambda>skbuf.
    handle_packet accepts_all 7 [] skbuf s80) = panic IndexRange"
  using SYN_option_panics [OF s80_reachable, where L = L0 and iph = "iph0 0x0200000A" and th = "th0 0x0260"
      and xs = "[ONop, ONop, ONop]" and k = 2 and i = 0 and spare = "[]" and write_fails = accepts_all
      and isn = 7 and chunk = "[]"]
  by simp

text \<open>C22. Over all runs, no connection ever delivers a byte: whenever \<open>Read\<close> returns, it has read
  nothing.\<close>

theorem Read_delivers_nothing:
  assumes "reachable write_fails s" and "c < length (conns s)" and "Read n cap (conns s ! c) = ret (bs, conn)"
  shows "bs = []"
proof -
  have "conn_ok (conns s ! c)"
    using reachable_ok [OF assms(1)] assms(2) by (simp add: server_ok_def list_all_length)
  from Read_ok [OF this assms(3)] show ?thesis by simp
qed

definition s81 :: tcp_state where
  "s81 = s80\<lparr>connections := [ident (syn_conn (lsts s80 ! 0) (iph0 0x0200000A) (th0 0x1250) L0) \<mapsto> 0],
     conns := [established (syn_conn (lsts s80 ! 0) (iph0 0x0200000A) (th0 0x1250) L0) (th0 0x1250)],
     lsts := [\<lparr>l_localIP = 0x0100000A, l_localPort = 0x5000, connChannel = [0]\<rparr>]\<rparr>"

lemma flags1 [simp]: "IsSYN (th0 0x1250)" "IsACK (th0 0x1250)" "data_offset (th0 0x1250) = 20"
  by (simp_all add: IsSYN_def IsACK_def th0_def flag_consts data_offset_def)

lemma s81_step:
  "handle_packet write_fails isn chunk (received [] (wire_packet L0 (iph0 0x0200000A) (th0 0x1250) []) (iph0 0x0200000A)) s80 = ret s81"
  using handle_SYN_ACK [where L = L0 and iph = "iph0 0x0200000A" and th = "th0 0x1250" and xs = "[]"
      and i = 0 and spare = "[]" and payload = "[]" and s = s80] by (simp add: s81_def)

lemma s81_reachable: "reachable write_fails s81"
  by (rule reachable.step [OF s80_reachable tcp_step.packet [OF s81_step]])

theorem Read_delivers_nothing_witness:
  "Read 10 10 (conns s81 ! 0) = ret ([], conns s81 ! 0) \<and> ([] :: bytes) = []"
proof -
  have r: "Read 10 10 (conns s81 ! 0) = ret ([], conns s81 ! 0)"
    by (simp add: s81_def Read_def established_def)
  have "0 < length (conns s81)" by (simp add: s81_def)
  from Read_delivers_nothing [OF s81_reachable this r] r show ?thesis by simp
qed

text \<open>C24. A first packet with both SYN and ACK skips the handshake: in every reachable state it
  makes an established connection, which the listener's next \<open>Accept\<close> returns when its queue was
  empty.\<close>

theorem SYN_ACK_accepted:
  assumes "reachable write_fails s" and "length L = 14" and "hdr_len iph = 20"
    and "unat (data_offset th - 20) = length (opts_bytes xs)" and "\<forall>x \<in> set xs. wf_opt x"
    and "IsSYN th" and "IsACK th"
    and "listeners s (listener_key (Destination iph) (DestPort th)) = Some i" and "i < length (lsts s)"
    and "connChannel (lsts s ! i) = []"
  shows "\<exists>s' s''. bnd (receive_packet spare (wire_packet L iph th (opts_bytes xs @ payload))) (\<lambda>skbuf.
      handle_packet write_fails isn chunk skbuf s) = ret s'
    \<and> Accept i s' = ret (length (conns s), s'')
    \<and> conns s'' = conns s @ [established (syn_conn (lsts s ! i) iph th L) th] \<and> sent s'' = sent s"
proof -
  have "length (connChannel (lsts s ! i)) < 5" using assms(10) by simp
  from handle_SYN_ACK [OF assms(2-8) never_found [OF reachable_ok [OF assms(1)]] this, of write_fails isn chunk spare payload]
  show ?thesis
    unfolding receive_wire [OF assms(2)] bnd_ret using assms(9,10) by (simp add: Accept_def)
qed

theorem SYN_ACK_accepted_witness:
  "\<exists>s' s''. bnd (receive_packet [] (wire_packet L0 (iph0 0x0200000A) (th0 0x1250) [])) (\<lambda>skbuf.
      handle_packet accepts_all 7 [] skbuf s80) = ret s'
    \<and> Accept 0 s' = ret (0, s'') \<and> sent s'' = []"
  using SYN_ACK_accepted [OF s80_reachable, where L = L0 and iph = "iph0 0x0200000A" and th = "th0 0x1250"
      and xs = "[]" and i = 0 and spare = "[]" and payload = "[]" and write_fails = accepts_all and isn = 7
      and chunk = "[]"]
  by auto

text \<open>C37. On an established connection nobody is reading from, a segment is acknowledged with the
  sequence number after its payload, and everything in the buffer from the payload on is pushed into
  the reader's channel, whose next \<open>Read\<close> into a large enough slice returns all of it in order; a
  payload for which the channel has no room leaves the run loop waiting while it holds the semaphore
  that every reader needs first.\<close>

theorem established_data:
  assumes "state (conns s ! c) = STATE_ESTABLISHED" and "sem (conns s ! c) = Some 0"
    and "readChan (conns s ! c) = Some q" and "ipConn (conns s ! c) = Some ip" and "Check (ipHeader ip) = 0"
    and "54 \<le> length chunk" and "subslice (Buffer skbuf) (unat (AppIndex skbuf)) (len (Buffer skbuf)) = ret data"
    and "length (q @ contents data) \<le> n" and "n \<le> cap"
  shows "conn_step write_fails isn chunk lst th skbuf c s =
      bnd (transmit write_fails ip (chunk ! 13)
            (ack_header (acked (conns s ! c) th (PayloadLen skbuf)) (stale_flags chunk)) (sent s)) (\<lambda>out.
      if length q + length (contents data) \<le> CHAN_CAP \<or> contents data = []
      then ret (set_conn c (delivered (conns s ! c) th (PayloadLen skbuf) (q @ contents data)) (s\<lparr>sent := out\<rparr>))
      else panic Blocked)
    \<and> Read n cap (delivered (conns s ! c) th (PayloadLen skbuf) (q @ contents data)) =
      ret (q @ contents data, delivered (conns s ! c) th (PayloadLen skbuf) [])"
proof
  have "Read n cap (delivered (conns s ! c) th (PayloadLen skbuf) (q @ contents data)) =
      ret (q @ contents data, (delivered (conns s ! c) th (PayloadLen skbuf) (q @ contents data))\<lparr>readChan := Some []\<rparr>)"
    using assms(2,8,9) by (intro Read_all) (simp_all add: delivered_def acked_def)
  then show "Read n cap (delivered (conns s ! c) th (PayloadLen skbuf) (q @ contents data)) =
      ret (q @ contents data, delivered (conns s ! c) th (PayloadLen skbuf) [])"
    by (simp add: delivered_def)
qed (rule established_segment [OF assms(1-7)])

definition data_skb :: SkBuff where
  "data_skb = NewSkb\<lparr>Buffer := whole [7, 8, 9], AppIndex := 1, PayloadLen := 2\<rparr>"

theorem established_data_witness:
  "conn_step accepts_all 7 (replicate 54 0) None (th0 0x1050) data_skb 0 s81 =
      bnd (transmit accepts_all (new_ip 0x0100000A 0x0200000A L0) 0
            (ack_header (acked (conns s81 ! 0) (th0 0x1050) 2) (stale_flags (replicate 54 0))) []) (\<lambda>out.
      ret (set_conn 0 (delivered (conns s81 ! 0) (th0 0x1050) 2 [8, 9]) (s81\<lparr>sent := out\<rparr>)))
   \<and> Read 9 9 (delivered (conns s81 ! 0) (th0 0x1050) 2 [8, 9]) = ret ([8, 9], delivered (conns s81 ! 0) (th0 0x1050) 2 [])"
proof -
  have h: "state (conns s81 ! 0) = STATE_ESTABLISHED" "sem (conns s81 ! 0) = Some 0" "readChan (conns s81 ! 0) = Some []"
    "ipConn (conns s81 ! 0) = Some (new_ip 0x0100000A 0x0200000A L0)" "sent s81 = []"
    by (simp_all add: s81_def established_def syn_conn_def)
  have d: "subslice (Buffer data_skb) (unat (AppIndex data_skb)) (len (Buffer data_skb)) = ret \<lparr>mem = [8, 9], len = 2\<rparr>"
    "contents \<lparr>mem = [8, 9], len = 2\<rparr> = [8, 9]" "PayloadLen data_skb = 2"
    by (simp_all add: data_skb_def subslice_def contents_def)
  have n: "length ([] @ contents \<lparr>mem = [8, 9], len = 2\<rparr>) \<le> 9" "Check (ipHeader (new_ip 0x0100000A 0x0200000A L0)) = 0"
    "54 \<le> length (replicate 54 (0 :: u8))" by (simp_all add: d new_ip_def new_header_def)
  show ?thesis
    using established_data [OF h(1-4) n(2,3) d(1) n(1) order_refl, of accepts_all 7 None "th0 0x1050"]
    by (simp add: d h(5) CHAN_CAP_def)
qed

section \<open>Listening\<close>

text \<open>C15. After \<open>Listen\<close> on an address in dotted form, a packet for that address and port reaches
  the new listener, which holds the parsed address and the port in network order; packets for any
  other address or port reach what they reached before, as long as no port in network order is a
  surrogate code point.\<close>

theorem Listen_lookup:
  assumes "\<not> surrogate (unat (Htons port))" and "\<not> surrogate (unat p)"
    and "Listen (DotIP a) port s = (lst, s')"
  shows "listeners s' (listener_key (DotIP a') p) =
      (if a' = a \<and> p = Htons port then Some lst else listeners s (listener_key (DotIP a') p))
    \<and> lsts s' ! lst = \<lparr>l_localIP = a, l_localPort = Htons port, connChannel = []\<rparr>"
  using assms listener_key_inject [of p "Htons port" a' a]
  by (auto simp: Listen_def Let_def Ip2long_dotted)

theorem Listen_lookup_witness:
  "listeners (snd (Listen (DotIP 0x0100000A) 80 Start_state)) (listener_key (DotIP 0x0100000A) 0x5000) = Some 0
   \<and> listeners (snd (Listen (DotIP 0x0100000A) 80 Start_state)) (listener_key (DotIP 0x0100000A) 0x5100) = None"
  using Listen_lookup [of 80 "0x5000" "0x0100000A" Start_state 0 "snd (Listen (DotIP 0x0100000A) 80 Start_state)" "0x0100000A"]
    Listen_lookup [of 80 "0x5100" "0x0100000A" Start_state 0 "snd (Listen (DotIP 0x0100000A) 80 Start_state)" "0x0100000A"]
  by (simp add: surrogate_def Listen_def Let_def Start_state_def)

text \<open>Ports 216 and 472 in network order are two surrogates: a socket listening on the second
  takes the first one's packets.\<close>

theorem Listen_collision:
  "listeners (snd (Listen a 472 (snd (Listen a 216 Start_state)))) (listener_key a (Htons 216)) = Some 1
   \<and> l_localPort (lsts (snd (Listen a 472 (snd (Listen a 216 Start_state)))) ! 1) \<noteq> Htons 216"
proof -
  have "listener_key a (Htons 216) = listener_key a (Htons 472)"
    by (rule listener_key_surrogate) (simp_all add: surrogate_def Htons_def)
  then show ?thesis by (simp add: Listen_def Let_def Start_state_def Htons_def)
qed

section \<open>Segments\<close>

text \<open>C13. On a segment whose options encode a list, padding included, \<open>tcpParseOpt\<close> reads exactly
  that list, clamping the segment size to the user's and the window scale to 14, and leaves the
  packet alone.\<close>

theorem tcpParseOpt_reads_list:
  assumes "length L = 14" and "hdr_len iph = 20" and "unat (data_offset th - 20) = length (opts_bytes xs)"
    and "\<forall>x \<in> set xs. wf_opt x"
  shows "tcpParseOpt (parsed spare (wire_packet L iph th (opts_bytes xs @ payload)) iph th) rx
    = ret (apply_opts (IsSYN th) xs (rx\<lparr>saw_tstamp := 0\<rparr>), parsed spare (wire_packet L iph th (opts_bytes xs @ payload)) iph th)"
  by (rule tcpParseOpt_wire [OF assms])

theorem tcpParseOpt_reads_list_witness:
  "tcpParseOpt (parsed [] (wire_packet L0 (iph0 0) (th0 0x0260) [2, 4, 5, 0xb4]) (iph0 0) (th0 0x0260)) zero_options
    = ret (zero_options\<lparr>mss_clamp := 1460\<rparr>, parsed [] (wire_packet L0 (iph0 0) (th0 0x0260) [2, 4, 5, 0xb4]) (iph0 0) (th0 0x0260))"
proof -
  have "opts_bytes [OMss 1460] = [2, 4, 5, 0xb4]" by (simp add: le16_def Htons_def)
  then show ?thesis
    using tcpParseOpt_reads_list [of L0 "iph0 0" "th0 0x0260" "[OMss 1460]" "[]" "[]" zero_options]
    by (simp add: zero_options_def clamp_def)
qed

text \<open>C19. A SACK option after a list that permits it, its blocks whole, makes \<open>tcpParseOpt\<close> overwrite the highest
  byte of the length of the packet's own buffer: the options are read as the list says, the memory is the
  same, and the buffer's length is at least \<open>2 ^ 60\<close>, so that its bounds checks no longer protect anything.\<close>

theorem SACK_corrupts_length:
  assumes "length L = 14" and "hdr_len iph = 20"
    and "unat (data_offset th - 20) = length (opts_bytes xs) + length (sack_bytes bs)"
    and "\<forall>x \<in> set xs. wf_opt x" and "sack_ok (apply_opts (IsSYN th) xs (rx\<lparr>saw_tstamp := 0\<rparr>)) > 0"
    and "length bs = 8 * j" and "1 \<le> j" and "length (opts_bytes xs) \<le> 30" and "length bs \<le> 40"
  shows "\<exists>skb. tcpParseOpt (parsed spare (wire_packet L iph th (opts_bytes xs @ sack_bytes bs @ payload)) iph th) rx
      = ret (apply_opts (IsSYN th) xs (rx\<lparr>saw_tstamp := 0\<rparr>), skb)
    \<and> mem (Buffer skb) = wire_packet L iph th (opts_bytes xs @ sack_bytes bs @ payload) @ spare
    \<and> 2 ^ 60 \<le> len (Buffer skb)"
proof -
  let ?p = "wire_packet L iph th (opts_bytes xs @ sack_bytes bs @ payload)"
  let ?skb = "parsed spare ?p iph th"
  let ?opt = "\<lparr>mem = opts_bytes xs @ sack_bytes bs @ payload @ spare, len = length (opts_bytes xs @ sack_bytes bs @ payload)\<rparr>"
  let ?n = "length (opts_bytes xs)"
  let ?rx = "apply_opts (IsSYN th) xs (rx\<lparr>saw_tstamp := 0\<rparr>)"
  have "subslice (Buffer ?skb) 54 (len (Buffer ?skb)) = ret ?opt"
    using assms(1) by (simp add: subslice_def wire_packet_def)
  moreover have "parse_loop (IsSYN th) ?opt 0 (?n + (2 + length bs)) (rx\<lparr>saw_tstamp := 0\<rparr>, skb)
      = parse_loop (IsSYN th) ?opt ?n (2 + length bs) (?rx, skb)" for skb
    using parse_options [of ?opt "[]" xs "sack_bytes bs @ payload @ spare" "IsSYN th" "2 + length bs"] assms(4) by simp
  moreover have "parse_loop (IsSYN th) ?opt ?n (2 + length bs) (?rx, skb) = ret (?rx, set_sacked (20 + of_nat ?n) skb)" for skb
    using assms(5-9) by (intro parse_sack [where T = "payload @ spare"]) simp_all
  ultimately have "tcpParseOpt ?skb rx = ret (?rx, set_sacked (20 + of_nat ?n) ?skb)"
    using parse_wire(2) [OF assms(1,2), of spare th "opts_bytes xs @ sack_bytes bs @ payload"] assms(2,3)
    by (simp add: tcpParseOpt_def Let_def)
  then show ?thesis using sacked_length [OF assms(8), of ?skb] by simp
qed

theorem SACK_corrupts_length_witness:
  "\<exists>rx skb. tcpParseOpt (parsed [] (wire_packet L0 (iph0 0) (th0 0x02A0)
        (opts_bytes [OSackPerm] @ sack_bytes (replicate 16 0) @ [])) (iph0 0) (th0 0x02A0)) zero_options = ret (rx, skb)
    \<and> 2 ^ 60 \<le> len (Buffer skb)"
  using SACK_corrupts_length [of L0 "iph0 0" "th0 0x02A0" "[OSackPerm]" "replicate 16 0" zero_options 2 "[]" "[]"]
  by (auto simp: sack_bytes_def data_offset_def th0_def IsSYN_def CTRL_SYN_def)

text \<open>C20. The byte that \<open>TCP_SKB_CB(skbuf).sacked\<close> names lies inside \<open>SkBuff\<close> but outside \<open>CB\<close>, and is one of the
  eight bytes that hold the length of \<open>Buffer\<close>; \<open>set_sacked\<close> is the change of that byte. The struct laid over the
  40 bytes of \<open>CB\<close> is longer than they are and ends behind the whole \<open>SkBuff\<close>.\<close>

theorem TCP_SKB_CB_overlay:
  "\<exists>cb sacked buffer. offset SkBuff_fields ''CB'' = Some cb \<and> offset tcp_skb_cb_fields ''sacked'' = Some sacked
    \<and> offset SkBuff_fields ''Buffer'' = Some buffer
    \<and> 40 < size_of (struct tcp_skb_cb_fields)
    \<and> size_of (struct SkBuff_fields) < cb + size_of (struct tcp_skb_cb_fields)
    \<and> buffer + 8 \<le> cb + sacked \<and> cb + sacked < buffer + 16
    \<and> set_sacked v skb = skb\<lparr>Buffer := (Buffer skb)\<lparr>len :=
        of_le ((le_bytes 8 (len (Buffer skb)))[cb + sacked - (buffer + 8) := v])\<rparr>\<rparr>"
  by (simp add: control_block) (rule set_sacked_bytes)

text \<open>C26. \<open>sendAck\<close> sends a bare ACK of \<open>RCV.NXT\<close> with sequence number \<open>SND.NXT\<close>, or-ing its flags
  into what the chunk held, and advances \<open>SND.NXT\<close> by one although the segment takes up no
  sequence number.\<close>

theorem sendAck_sends:
  assumes "54 \<le> length chunk" and "ipConn conn = Some c" and "Check (ipHeader c) = 0"
  shows "sendAck write_fails chunk conn out =
    bnd (transmit write_fails c (chunk ! 13) (ack_header conn (stale_flags chunk)) out) (\<lambda>out.
    ret (conn\<lparr>sendNextSeq := Htonl (Ntohl (sendNextSeq conn) + 1), unacked := sendNextSeq conn\<rparr>, out))"
  by (rule sendAck_transmit [OF assms])

theorem sendAck_sends_witness:
  "sendAck accepts_all (replicate 54 0) (conns s81 ! 0) [] =
    bnd (transmit accepts_all (new_ip 0x0100000A 0x0200000A L0) 0 (ack_header (conns s81 ! 0) 0) []) (\<lambda>out.
    ret ((conns s81 ! 0)\<lparr>sendNextSeq := 0x01000000, unacked := 0\<rparr>, out))"
  using sendAck_sends [of "replicate 54 0" "conns s81 ! 0" "new_ip 0x0100000A 0x0200000A L0" accepts_all "[]"]
  by (simp add: s81_def established_def syn_conn_def new_ip_def new_header_def stale_flags_def rd16_def
      Htonl_def Ntohl_def)

section \<open>Networks and links\<close>

text \<open>C9. Sending over an IP connection rebuilds the network header from the connection's template
  with the total length of the payload and the header, stores both checksums (the second over
  network header and segment, where the segment's field was zero) and hands the frame to the link
  layer, exactly when each sum leaves no carry after one fold; otherwise the process exits.\<close>

theorem IPConn_Send_outcome:
  assumes "mem (Buffer skbuf) = A @ H @ S1 @ 0 # 0 # S2 @ R"
    and "unat (NetworkIndex skbuf) = length A" and "length H = 20"
    and "unat (DataEnd skbuf) = length A + 20 + length (S1 @ 0 # 0 # S2)"
    and "CheckPotioner skbuf = Some (length A + 20 + length S1)"
    and "even (length S1)" and "Check (ipHeader c) = 0"
  shows "IPConn_Send write_fails c skbuf out =
    (let hb = out_bytes c (PayloadLen skbuf); seg = S1 @ 0 # 0 # S2;
         seg' = store_be16 (length S1) (Checksum (hb @ seg)) seg in
     if \<not> folds_once (IPHeader_bytes (out_header c (PayloadLen skbuf)))
     then panic (Fatal ''Unable to verify IP Checksum'')
     else if \<not> folds_once (hb @ seg) then panic (Fatal ''Unable to verify TCP Checksum'')
     else EthConn_Send write_fails (conn_EthConn c)
       (skbuf\<lparr>Buffer := (Buffer skbuf)\<lparr>mem := A @ hb @ seg' @ R\<rparr>, MacIndex := 0\<rparr>) out)"
  unfolding Let_def by (rule IPConn_Send_frame [OF assms])

definition skb54 :: SkBuff where
  "skb54 = NewSkb\<lparr>Buffer := whole (replicate 54 0), NetworkIndex := 14, DataEnd := 54, PayloadLen := 20,
     CheckPotioner := Some 50\<rparr>"

theorem IPConn_Send_outcome_witness:
  "IPConn_Send accepts_all (new_ip 0x0100000A 0x0200000A L0) skb54 [] =
    (let c = new_ip 0x0100000A 0x0200000A L0; hb = out_bytes c 20; seg = replicate 20 0;
         seg' = store_be16 16 (Checksum (hb @ seg)) seg in
     if \<not> folds_once (IPHeader_bytes (out_header c 20))
     then panic (Fatal ''Unable to verify IP Checksum'')
     else if \<not> folds_once (hb @ seg) then panic (Fatal ''Unable to verify TCP Checksum'')
     else EthConn_Send accepts_all (conn_EthConn c)
       (skb54\<lparr>Buffer := (Buffer skb54)\<lparr>mem := replicate 14 0 @ hb @ seg'\<rparr>, MacIndex := 0\<rparr>) [])"
proof -
  have r: "replicate 54 (0 :: u8) = replicate 14 0 @ replicate 20 0 @ replicate 16 0 @ 0 # 0 # replicate 2 0 @ []"
    "replicate 20 (0 :: u8) = replicate 16 0 @ 0 # 0 # replicate 2 0"
    by (simp_all add: numeral_eq_Suc)
  have "mem (Buffer skb54) = replicate 14 0 @ replicate 20 0 @ replicate 16 0 @ 0 # 0 # replicate 2 0 @ []"
    by (simp only: r(1) [symmetric]) (simp add: skb54_def)
  from IPConn_Send_outcome [OF this, of "new_ip 0x0100000A 0x0200000A L0" accepts_all "[]"] show ?thesis
    unfolding Let_def r(2) by (simp add: skb54_def new_ip_def new_header_def)
qed

text \<open>One fold is not always enough: a SYN from 192.168.112.40 to the socket listening on
  10.0.0.1 port 80 makes the server exit, whatever sequence number it would answer with, because
  the network header of the answer sums to a number that still carries after the fold.\<close>

theorem SYN_kills_server:
  "bnd (receive_packet [] (wire_packet L0 (iph0 0x2870A8C0) (th0 0x0250) [])) (\<lambda>skbuf.
    handle_packet write_fails isn (replicate 54 0) skbuf s80) = panic (Fatal ''Unable to verify IP Checksum'')"
proof -
  have "IPHeader_bytes (out_header (new_ip 0x0100000A 0x2870A8C0 L0) 20)
      = [0x45, 0, 0, 0x28, 0, 0, 0x40, 0, 0x40, 6, 0, 0, 10, 0, 0, 1, 0xc0, 0xa8, 0x70, 0x28]"
    by (simp add: IPHeader_bytes_def out_header_def new_ip_def new_header_def Htons_def le16_def le32_def)
  then have "\<not> folds_once (IPHeader_bytes (out_header (new_ip 0x0100000A 0x2870A8C0 L0) 20))"
    by (simp add: folds_once_def)
  then show ?thesis
    unfolding receive_wire [OF packet0(1)] bnd_ret
    using handle_SYN [where L = L0 and iph = "iph0 0x2870A8C0" and chunk = "replicate 54 0" and th = "th0 0x0250"
      and xs = "[]" and s = s80 and i = 0 and spare = "[]" and payload = "[]" and write_fails = write_fails and isn = isn]
    by (simp add: transmit_def)
qed

text \<open>\<open>ip.receive\<close> on a captured frame of a packet with \<open>n\<close> words of header: the transport
  header is found \<open>4 n\<close> bytes after the link header, and the payload length is the total length
  less the header's, when the packet declares at least that much.\<close>

theorem ip_receive_indices:
  assumes "length L = 14"
  shows "\<exists>skbuf. receive_packet spare (wire_packet L iph th rest) = ret skbuf
    \<and> unat (TransportIndex skbuf) = 14 + 4 * (unat (VersionIhl iph) mod 16)
    \<and> (4 * (unat (VersionIhl iph) mod 16) \<le> unat (Ntohs (TotLength iph)) \<longrightarrow>
        unat (PayloadLen skbuf) = unat (Ntohs (TotLength iph)) - 4 * (unat (VersionIhl iph) mod 16))
    \<and> contents (Buffer skbuf) = wire_packet L iph th rest"
proof -
  have "(0x0F :: u8) = mask 4" by (simp add: mask_eq_exp_minus_1)
  then have m: "unat (0x0F AND VersionIhl iph) = unat (VersionIhl iph) mod 16"
    by (simp only: and.commute [of "mask 4"] take_bit_eq_mask [symmetric])
      (simp only: unsigned_take_bit_eq, simp add: take_bit_eq_mod)
  then have "unat (ucast (0x0F AND VersionIhl iph) :: u16) = unat (VersionIhl iph) mod 16"
    by (simp add: unat_ucast_le)
  moreover have "unat (VersionIhl iph) mod 16 < 16" by simp
  ultimately have h: "unat (hdr_len iph) = 4 * (unat (VersionIhl iph) mod 16)" "unat (hdr_len iph) \<le> 60"
    by (simp_all add: hdr_len_def unat_word_ariths)
  have "unat (hdr_len iph + 14) = unat (hdr_len iph) + 14" using h by (simp add: unat_word_ariths)
  moreover have "unat (x - hdr_len iph) = unat x - unat (hdr_len iph)" if "unat (hdr_len iph) \<le> unat x" for x
    using that by (simp add: unat_sub word_le_nat_alt)
  ultimately show ?thesis
    using receive_wire [OF assms, of spare iph th rest] h
    by (simp add: received_def contents_def)
qed

theorem ip_receive_indices_witness:
  "\<exists>skbuf. receive_packet [] (wire_packet L0 (iph0 0) (th0 0x0250) []) = ret skbuf
    \<and> unat (TransportIndex skbuf) = 34 \<and> unat (PayloadLen skbuf) = 20"
  using ip_receive_indices [of L0 "[]" "iph0 0" "th0 0x0250" "[]"]
  by (auto simp: iph0_def Ntohs_def)

text \<open>The header template of a new connection says version 4, twenty bytes of header, Don't
  Fragment as the wire has it (bytes \<open>40 00\<close>), TTL 64 and protocol 6, has a zero checksum and
  carries the two addresses; the link header is the received frame's.\<close>

theorem NewIPConn_template:
  assumes "MacHdr skbuf = Some 0" and "mem (Buffer skbuf) = L @ T" and "length L = 14"
  shows "\<exists>c. NewIPConn l r skbuf = ret c \<and> GetVersion (ipHeader c) = 4 \<and> GetHeaderLen (ipHeader c) = 20
    \<and> le16 (FragOff (ipHeader c)) = [0x40, 0] \<and> TTL (ipHeader c) = 64 \<and> Protocol (ipHeader c) = 6
    \<and> Check (ipHeader c) = 0 \<and> Source (ipHeader c) = DotIP l \<and> Destination (ipHeader c) = DotIP r
    \<and> Header (conn_EthConn c) = EthHeader_of L"
  using NewIPConn_new_ip [OF assms, of l r]
  by (simp add: new_ip_def new_header_def GetVersion_def GetHeaderLen_def Source_def Destination_def le16_def)

theorem NewIPConn_template_witness:
  "\<exists>c. NewIPConn 1 2 (received [] (wire_packet L0 (iph0 0) (th0 0) []) (iph0 0)) = ret c \<and> TTL (ipHeader c) = 64"
  using NewIPConn_template [of "received [] (wire_packet L0 (iph0 0) (th0 0) []) (iph0 0)" L0
      "IPHeader_bytes (iph0 0) @ TCPHeader_bytes (th0 0)" 1 2]
  by (auto simp: received_def wire_packet_def)

text \<open>Parsing the dotted form of an address gives the address back.\<close>

theorem Ip2long_DotIP: "Ip2long (DotIP a) = a"
  by (rule Ip2long_dotted)

text \<open>C23. Sending over a link writes the buffer with its link header turned round: the connection's
  source as destination, its destination as source, and \<open>8\<close> as the high byte of the type, while
  byte 13 and everything after it are the buffer's; the frame is written exactly once or the
  process exits.\<close>

theorem EthConn_Send_turns_round:
  assumes "14 \<le> len (Buffer skbuf)" and "len (Buffer skbuf) \<le> length (mem (Buffer skbuf))"
  shows "EthConn_Send write_fails ethconn skbuf out =
    (let f = mac_bytes (SrcMAC (Header ethconn)) @ mac_bytes (DstMAC (Header ethconn)) @ 8 # drop 13 (contents (Buffer skbuf)) in
     if write_fails f then panic (Fatal ''WritePacketData'')
     else ret (len (Buffer skbuf), out @ [f],
       skbuf\<lparr>Buffer := (Buffer skbuf)\<lparr>mem := frame_of ethconn (mem (Buffer skbuf))\<rparr>, MacHdr := Some 0\<rparr>))"
  using EthConn_Send_frame [OF assms] by (simp add: frame_of_def)

theorem EthConn_Send_turns_round_witness:
  "\<exists>skbuf. EthConn_Send accepts_all \<lparr>Header = EthHeader_of L0, EthHandle = None\<rparr> skb54 [] =
     ret (54, [[7, 8, 9, 10, 11, 12, 1, 2, 3, 4, 5, 6, 8] @ replicate 41 0], skbuf)"
  using EthConn_Send_turns_round [of skb54 accepts_all "\<lparr>Header = EthHeader_of L0, EthHandle = None\<rparr>" "[]"]
  by (simp add: skb54_def accepts_all_def EthHeader_of_def mac_at_def L0_def)

text \<open>The three headers are stored and read back without loss, in both directions: decoding
  the bytes of a header gives the header, and every byte string of the header's size is the
  bytes of what it decodes to.\<close>

theorem header_layouts:
  "IPHeader_of (IPHeader_bytes i) = i \<and> TCPHeader_of (TCPHeader_bytes t) = t
   \<and> EthHeader_of (EthHeader_bytes e) = e
   \<and> (length bs = 20 \<longrightarrow> IPHeader_bytes (IPHeader_of bs) = bs \<and> TCPHeader_bytes (TCPHeader_of bs) = bs)
   \<and> (length bs = 14 \<longrightarrow> EthHeader_bytes (EthHeader_of bs) = bs)"
  using ip.enc_dec [of bs] tcp.enc_dec [of bs] eth.enc_dec [of bs]
  by (simp add: ip.dec_enc tcp.dec_enc eth.dec_enc length_consts)

theorem header_layouts_witness: "EthHeader_bytes (EthHeader_of L0) = L0"
  using header_layouts [of "iph0 0" "th0 0" "EthHeader_of L0" L0] by simp

text \<open>C27. The setters of the network header only set bits, each those of its own field, so on a fresh header the getters
  and the printed fields give back the version, the length rounded down to whole words and at most 60, the
  ECN bits, but of the code point only the low four bits. The total length is read in network order.
  \<open>SetNoFrag\<close> clears the three flags and the top bit of the offset as they are on the wire and sets \<open>DF\<close>; what
  \<open>String\<close> prints as the flags are other bits, so it prints the same with and without it.\<close>

theorem IPHeader_setters:
  "GetVersion (SetVersion v h) = GetVersion h OR (v AND 0xF) \<and> GetHeaderLen (SetVersion v h) = GetHeaderLen h
   \<and> GetHeaderLen (SetHeaderLen n h) = GetHeaderLen h OR (n AND 0x3C) \<and> GetVersion (SetHeaderLen n h) = GetVersion h
   \<and> 0x3F AND drop_bit 2 (Tos (SetDSCP d h)) = (0x3F AND drop_bit 2 (Tos h)) OR (d AND 0xF)
   \<and> 0x03 AND Tos (SetECN e h) = (0x03 AND Tos h) OR (e AND 0x03)
   \<and> GetTotLength h = Ntohs (TotLength h)
   \<and> le16 (FragOff (SetNoFrag h)) = [(le16 (FragOff h) ! 0 AND 0x0F) OR 0x40, le16 (FragOff h) ! 1]
   \<and> IPHeader_String (Some (SetNoFrag h)) = IPHeader_String (Some h)"
  by (intro conjI header_bytes_setters tos_setters GetTotLength_Ntohs SetNoFrag_wire SetNoFrag_String)

section \<open>Byte order and checksums\<close>

text \<open>C17. A packet whose checksum is stored, high byte first, in a zero halfword at an even
  position verifies exactly when its sum leaves no carry after one fold.\<close>

theorem Checksum_verifies:
  assumes "length data < 65536" and "even i" and "Suc i < length data" and "data ! i = 0" and "data ! Suc i = 0"
  shows "VerifyChecksum (store_be16 i (Checksum data) data) \<longleftrightarrow> folds_once data"
  by (rule Checksum_stored_verifies [OF assms])

theorem Checksum_verifies_witness:
  "VerifyChecksum (store_be16 0 (Checksum [0, 0, 0x45, 0]) [0, 0, 0x45, 0])
   \<and> \<not> VerifyChecksum (store_be16 0 (Checksum [0, 0, 0xff, 0xff, 0xff, 0xff, 0, 1]) [0, 0, 0xff, 0xff, 0xff, 0xff, 0, 1])"
  using Checksum_verifies [of "[0, 0, 0x45, 0]" 0] Checksum_verifies [of "[0, 0, 0xff, 0xff, 0xff, 0xff, 0, 1]" 0]
  by (simp add: folds_once_def)

text \<open>C29. On data of even length \<open>Checksum\<close> is the Internet checksum of RFC 1071, or one more when a second
  fold would have been needed. A last byte at an even position, which the RFC pads with zero, does not
  count at all: packets that differ in it alone have the same checksum, and verify alike.\<close>

theorem Checksum_rfc1071:
  assumes "length data < 65536" and "even (length data)"
  shows "unat (Checksum data) = internet_checksum data + (if folds_once data then 0 else 1)
    \<and> Checksum (data @ [b]) = Checksum data \<and> (VerifyChecksum (data @ [b]) \<longleftrightarrow> VerifyChecksum data)"
  using Checksum_vs_rfc1071 [OF assms(1)] assms(2) by (simp add: internet_checksum_def Checksum_odd VerifyChecksum_def)

theorem Checksum_rfc1071_witness:
  "unat (Checksum [0x45, 0, 0, 40]) = internet_checksum [0x45, 0, 0, 40] \<and> Checksum [0x45, 0, 0, 40, 255] = Checksum [0x45, 0, 0, 40]"
  using Checksum_rfc1071 [of "[0x45, 0, 0, 40]" 255] by (simp add: folds_once_def)

text \<open>The conversions between host and network order undo each other, and the little-endian
  reads return the values whose bytes start the slice.\<close>

theorem byte_order:
  "Ntohs (Htons x) = x \<and> Htons (Ntohs x) = x \<and> Ntohl (Htonl y) = y \<and> Htonl (Ntohl y) = y
   \<and> Byte2uint16 (le16 x @ rest) = ret x \<and> Byte2int16 (le16 x @ rest) = ret (sint x)
   \<and> Byte2uint32 (le32 y @ rest) = ret y \<and> Byte2int32 (le32 y @ rest) = ret (sint y)"
  by (simp add: short.wire_host long.wire_host
      Byte2uint16_le Byte2int16_le Byte2uint32_le Byte2int32_le)

section \<open>The pipeline\<close>

text \<open>A run: the server starts and listens, a frame is captured, passed on and handled.\<close>

definition started0 :: stack where
  "started0 = \<lparr>eth_handle = Some ''eth0'', eth_filter = Some ''tcp'', eth_pool = Some (SyncPool 1500 (1500 * 1024 * 20) 2),
     tcp_pool = Some (SyncPool 1500 (1500 * 1024 * 20) 2), chans = [[], []],
     procs = [Capture 1, Network 1 0, Transport 0], tables = Some Start_state\<rparr>"

lemma started0_run:
  "\<exists>s. runs accepts_all started0 [([], wire_packet L0 (iph0 0x0200000A) (th0 0x1250) [])]
      [Listens (DotIP 0x0100000A) 80, Packet 7 (replicate 54 0)] s \<and> tables s = Some s81"
proof -
  let ?f = "wire_packet L0 (iph0 0x0200000A) (th0 0x1250) []"
  let ?s1 = "started0\<lparr>tables := Some s80\<rparr>"
  have r: "receive_packet [] ?f = ret (received [] ?f (iph0 0x0200000A))" by (rule receive_wire) simp
  then obtain skb where e: "eth_receive [] ?f = ret skb" and i: "ip_receive skb = ret (received [] ?f (iph0 0x0200000A))"
    by (auto simp: receive_packet_def bnd_eq_ret)
  have "runs accepts_all started0 [] ([] @ [Listens (DotIP 0x0100000A) 80]) ?s1"
    by (rule runs.listen [OF runs.start, where l = 0])
      (simp add: app_Listen_def started0_def s80_def split: prod.split, simp add: Listen_def Let_def Start_state_def)
  then have 1: "runs accepts_all started0 ([] @ [([], ?f)]) [Listens (DotIP 0x0100000A) 80] (put_chan 1 (chans ?s1 ! 1 @ [skb]) ?s1)"
    by (intro runs.capture e) (simp_all add: started0_def QUEUE_CAP_def)
  let ?s2 = "put_chan 1 (chans ?s1 ! 1 @ [skb]) ?s1"
  have 2: "runs accepts_all started0 ([] @ [([], ?f)]) [Listens (DotIP 0x0100000A) 80]
      (put_chan 0 (chans ?s2 ! 0 @ [received [] ?f (iph0 0x0200000A)]) (put_chan 1 [] ?s2))"
    by (rule runs.network [OF 1, of 1 0 skb "[]"]) (simp_all add: started0_def QUEUE_CAP_def put_chan_def i)
  have "runs accepts_all started0 ([] @ [([], ?f)]) ([Listens (DotIP 0x0100000A) 80] @ [Packet 7 (replicate 54 0)])
      ((put_chan 0 [] (put_chan 0 (chans ?s2 ! 0 @ [received [] ?f (iph0 0x0200000A)]) (put_chan 1 [] ?s2)))\<lparr>tables := Some s81\<rparr>)"
    by (rule runs.transport [OF 2, of 0 "received [] ?f (iph0 0x0200000A)" "[]" s80])
      (simp_all add: started0_def put_chan_def s81_step)
  then show ?thesis by auto
qed

text \<open>C5. After \<open>Start\<close>, however the goroutines and the application's calls interleave: the tables are in a reachable
  state, and they are what the same events give when every captured frame is taken through all layers at the moment
  it is handled, in the order of capture. No frame is lost, reordered or handled twice: those not yet handled are in
  the two channels, which hold at most 2048 packets each.\<close>

theorem pipeline_in_order:
  assumes "tcp_Start open_fails filter_fails device flt unstarted = ret (err, s0)"
    and "runs write_fails s0 fs es s"
  shows "\<exists>t r up down. tables s = Some t \<and> reachable write_fails t
    \<and> serve_all write_fails es (Start_state, fs) = ret (t, r)
    \<and> chans s = [up, down] \<and> queued r up down \<and> length r = length up + length down
    \<and> length up \<le> 2048 \<and> length down \<le> 2048"
proof -
  have "in_step write_fails [] [] s0"
    using assms(1) by (rule in_step_started)
  with assms(2) have "in_step write_fails fs es s" by (rule runs_in_step)
  then show ?thesis by (rule in_stepE) (auto simp: queued_length QUEUE_CAP_def)
qed

theorem pipeline_in_order_witness:
  "\<exists>t r. serve_all accepts_all [Listens (DotIP 0x0100000A) 80, Packet 7 (replicate 54 0)]
      (Start_state, [([], wire_packet L0 (iph0 0x0200000A) (th0 0x1250) [])]) = ret (t, r) \<and> t = s81"
proof -
  obtain s where s: "runs accepts_all started0 [([], wire_packet L0 (iph0 0x0200000A) (th0 0x1250) [])]
      [Listens (DotIP 0x0100000A) 80, Packet 7 (replicate 54 0)] s" "tables s = Some s81"
    using started0_run by blast
  have "tcp_Start (\<lambda>d n p t. False) (\<lambda>d f. False) ''eth0'' ''tcp'' unstarted = ret (None, started0)"
    by (simp add: tcp_Start_unstarted started0_def)
  from pipeline_in_order [OF this s(1)] s(2) show ?thesis by auto
qed

end
