(* ===== verification/Tcp_Types.thy ===== *)
theory Tcp_Types
  imports Tcp_Runs
begin

text \<open>
  The types of the server's state: what every table, queue and connection refers to exists and is in a
  state that fits. Steps preserve them (preservation), and in a well-typed state \<open>Accept\<close> and \<open>Read\<close> never
  go wrong (progress). What a handled SYN does to the tables.
\<close>

section \<open>Typing\<close>

definition conn_typed :: "TCPConn \<Rightarrow> bool" where
  "conn_typed conn \<longleftrightarrow> ipConn conn \<noteq> None
     \<and> (state conn = STATE_SYN_RECEIVED \<and> readChan conn = None \<and> sem conn = None
        \<or> state conn = STATE_ESTABLISHED \<and> readChan conn = Some [] \<and> sem conn = Some 0)"

definition queue_typed :: "TCPConn list \<Rightarrow> TCPListener \<Rightarrow> bool" where
  "queue_typed cs l \<longleftrightarrow> length (connChannel l) \<le> 5
     \<and> (\<forall>c \<in> set (connChannel l). c < length cs \<and> state (cs ! c) = STATE_ESTABLISHED)"

definition backlog :: "tcp_state \<Rightarrow> nat list" where
  "backlog s = concat (map connChannel (lsts s))"

definition server_typed :: "tcp_state \<Rightarrow> bool" where
  "server_typed s \<longleftrightarrow> list_all conn_typed (conns s) \<and> list_all (queue_typed (conns s)) (lsts s)
     \<and> distinct (backlog s)
     \<and> (\<forall>k c. connections s k = Some c \<longrightarrow> c < length (conns s) \<and> k = ident (conns s ! c))
     \<and> (\<forall>k i. listeners s k = Some i \<longrightarrow> i < length (lsts s))"

lemma server_typedI:
  assumes "list_all conn_typed (conns s)" and "list_all (queue_typed (conns s)) (lsts s)" and "distinct (backlog s)"
    and "\<And>k c. connections s k = Some c \<Longrightarrow> c < length (conns s) \<and> k = ident (conns s ! c)"
    and "\<And>k i. listeners s k = Some i \<Longrightarrow> i < length (lsts s)"
  shows "server_typed s"
  using assms unfolding server_typed_def by blast

lemma server_typedD:
  assumes "server_typed s"
  shows "list_all conn_typed (conns s)" and "list_all (queue_typed (conns s)) (lsts s)" and "distinct (backlog s)"
    and "connections s k = Some c \<Longrightarrow> c < length (conns s) \<and> k = ident (conns s ! c)"
    and "listeners s k = Some i \<Longrightarrow> i < length (lsts s)"
  using assms unfolding server_typed_def by blast+

lemma queue_typed_more: "queue_typed cs l \<Longrightarrow> queue_typed (cs @ ds) l"
  by (auto simp: queue_typed_def nth_append)

lemma backlog_bound: "list_all (queue_typed cs) (lsts s) \<Longrightarrow> c \<in> set (backlog s) \<Longrightarrow> c < length cs"
  by (auto simp: backlog_def queue_typed_def list_all_iff)

text \<open>Changing one listener's queue.\<close>

lemma concat_map_update:
  "i < length xs \<Longrightarrow> concat (map f (xs[i := x])) = concat (map f (take i xs)) @ f x @ concat (map f (drop (Suc i) xs))"
  by (simp add: upd_conv_take_nth_drop)

lemma concat_map_split:
  "i < length xs \<Longrightarrow> concat (map f xs) = concat (map f (take i xs)) @ f (xs ! i) @ concat (map f (drop (Suc i) xs))"
  using concat_map_update [of i xs f "xs ! i"] by simp

section \<open>What a packet can do\<close>

lemma sendSynAck_fields:
  "sendSynAck write_fails isn chunk conn out = ret (conn', out') \<Longrightarrow>
   \<exists>a b. conn' = conn\<lparr>sendNextSeq := a, unacked := b\<rparr>"
  by (auto simp: sendSynAck_def Let_def bnd_eq_ret)

text \<open>A connection in the handshake, after a packet: answered, or established and offered.\<close>

lemma conn_step_handshake:
  assumes "state (conns s ! c) = STATE_SYN_RECEIVED"
    and "conn_step write_fails isn chunk lst th skbuf c s = ret s'"
  obtains (Answered) conn out where "s' = set_conn c conn (s\<lparr>sent := out\<rparr>)" "ident conn = ident (conns s ! c)"
      "ipConn conn = ipConn (conns s ! c)" "state conn = STATE_SYN_RECEIVED"
      "readChan conn = readChan (conns s ! c)" "sem conn = sem (conns s ! c)"
  | (Established) conn i where "lst = Some i" "length (connChannel (lsts s ! i)) < 5"
      "s' = (set_conn c conn s)\<lparr>lsts := (lsts s)[i := (lsts s ! i)\<lparr>connChannel := connChannel (lsts s ! i) @ [c]\<rparr>]\<rparr>"
      "ident conn = ident (conns s ! c)" "ipConn conn = ipConn (conns s ! c)"
      "state conn = STATE_ESTABLISHED" "readChan conn = Some []" "sem conn = Some 0"
proof -
  let ?c = "(conns s ! c)\<lparr>recvNextSeq := Htonl (Ntohl (Seq th) + 1), recvWindow := Window th\<rparr>"
  let ?e = "?c\<lparr>state := STATE_ESTABLISHED, readChan := Some [], sem := Some 0\<rparr>"
  show thesis
  proof (cases "IsACK th")
    case True
    with assms have "offer lst c (set_conn c ?e s) = ret s'" by (simp add: conn_step_def Let_def)
    then obtain i where "lst = Some i" "length (connChannel (lsts s ! i)) < 5"
      "s' = (set_conn c ?e s)\<lparr>lsts := (lsts s)[i := (lsts s ! i)\<lparr>connChannel := connChannel (lsts s ! i) @ [c]\<rparr>]\<rparr>"
      by (auto simp: offer_def set_conn_def split: option.splits if_split_asm)
    then show thesis by (rule Established) (simp_all add: ident_def)
  next
    case False
    with assms obtain conn out where a: "sendSynAck write_fails isn chunk ?c (sent s) = ret (conn, out)"
      "s' = set_conn c conn (s\<lparr>sent := out\<rparr>)"
      by (auto simp: conn_step_def Let_def bnd_eq_ret)
    from sendSynAck_fields [OF a(1)] obtain x y where "conn = ?c\<lparr>sendNextSeq := x, unacked := y\<rparr>" by blast
    with assms(1) show thesis by (intro Answered [OF a(2)]) (simp_all add: ident_def)
  qed
qed

lemma new_conn_state:
  assumes "new_conn lst iph th skbuf s = ret (c, skbuf', s')"
  obtains conn where "c = length (conns s)" "s' = s\<lparr>conns := conns s @ [conn], connections := (connections s)(ident conn \<mapsto> c)\<rparr>"
    "state conn = STATE_SYN_RECEIVED" "readChan conn = None" "sem conn = None" "ipConn conn \<noteq> None"
proof -
  let ?conn = "\<lambda>x. \<lparr>localIP = l_localIP lst, localPort = l_localPort lst, remoteIP = Saddr iph,
    remotePort = SourcePort th, state = STATE_SYN_RECEIVED, recvWindow = 0, recvNextSeq = 0, sendNextSeq = 0,
    sendWindow = 0, unacked = 0, ipConn = Some x, readChan = None, sem = None\<rparr>"
  from assms obtain x where "c = length (conns s)"
    "s' = s\<lparr>conns := conns s @ [?conn x], connections := (connections s)(ident (?conn x) \<mapsto> c)\<rparr>"
    by (auto simp: new_conn_def Let_def bnd_eq_ret ident_def split: prod.splits)
  then show thesis by (rule that) simp_all
qed

section \<open>What a handled SYN does\<close>

text \<open>Nothing when no socket listens for it; otherwise it enters one new connection under its key, and offers
  it to the listener at once when it carries an acknowledgement.\<close>

definition SYN_handled :: "IPHeader \<Rightarrow> TCPHeader \<Rightarrow> tcp_state \<Rightarrow> tcp_state \<Rightarrow> bool" where
  "SYN_handled iph th s s' \<longleftrightarrow>
     (case listeners s (listener_key (Destination iph) (DestPort th)) of
        None \<Rightarrow> s' = s
      | Some i \<Rightarrow> \<exists>conn. conns s' = conns s @ [conn] \<and> listeners s' = listeners s
          \<and> connections s' = (connections s)(ident conn \<mapsto> length (conns s))
          \<and> localIP conn = l_localIP (lsts s ! i) \<and> localPort conn = l_localPort (lsts s ! i)
          \<and> remoteIP conn = Saddr iph \<and> remotePort conn = SourcePort th
          \<and> state conn = (if IsACK th then STATE_ESTABLISHED else STATE_SYN_RECEIVED)
          \<and> lsts s' = (if IsACK th
              then (lsts s)[i := (lsts s ! i)\<lparr>connChannel := connChannel (lsts s ! i) @ [length (conns s)]\<rparr>]
              else lsts s))"

lemma new_conn_fields:
  assumes "new_conn lst iph th skbuf s = ret (c, skbuf', s')"
  obtains conn where "c = length (conns s)" "s' = s\<lparr>conns := conns s @ [conn], connections := (connections s)(ident conn \<mapsto> c)\<rparr>"
    "state conn = STATE_SYN_RECEIVED" "localIP conn = l_localIP lst" "localPort conn = l_localPort lst"
    "remoteIP conn = Saddr iph" "remotePort conn = SourcePort th"
proof -
  let ?conn = "\<lambda>x. \<lparr>localIP = l_localIP lst, localPort = l_localPort lst, remoteIP = Saddr iph,
    remotePort = SourcePort th, state = STATE_SYN_RECEIVED, recvWindow = 0, recvNextSeq = 0, sendNextSeq = 0,
    sendWindow = 0, unacked = 0, ipConn = Some x, readChan = None, sem = None\<rparr>"
  from assms obtain x where "c = length (conns s)"
    "s' = s\<lparr>conns := conns s @ [?conn x], connections := (connections s)(ident (?conn x) \<mapsto> c)\<rparr>"
    by (auto simp: new_conn_def Let_def bnd_eq_ret ident_def split: prod.splits)
  then show thesis by (rule that) simp_all
qed

lemma conn_step_SYN:
  assumes "state (conns s ! c) = STATE_SYN_RECEIVED"
    and "conn_step write_fails isn chunk (Some i) th skbuf c s = ret s'"
  obtains conn where "conns s' = (conns s)[c := conn]" "listeners s' = listeners s" "connections s' = connections s"
    "ident conn = ident (conns s ! c)" "localIP conn = localIP (conns s ! c)" "localPort conn = localPort (conns s ! c)"
    "remoteIP conn = remoteIP (conns s ! c)" "remotePort conn = remotePort (conns s ! c)"
    "state conn = (if IsACK th then STATE_ESTABLISHED else STATE_SYN_RECEIVED)"
    "lsts s' = (if IsACK th then (lsts s)[i := (lsts s ! i)\<lparr>connChannel := connChannel (lsts s ! i) @ [c]\<rparr>] else lsts s)"
proof -
  let ?c = "(conns s ! c)\<lparr>recvNextSeq := Htonl (Ntohl (Seq th) + 1), recvWindow := Window th\<rparr>"
  let ?e = "?c\<lparr>state := STATE_ESTABLISHED, readChan := Some [], sem := Some 0\<rparr>"
  show thesis
  proof (cases "IsACK th")
    case True
    with assms have "offer (Some i) c (set_conn c ?e s) = ret s'" by (simp add: conn_step_def Let_def)
    with True show thesis
      by (intro that [of ?e]) (auto simp: offer_def set_conn_def ident_def split: if_split_asm)
  next
    case False
    with assms obtain conn out where a: "sendSynAck write_fails isn chunk ?c (sent s) = ret (conn, out)"
      "s' = set_conn c conn (s\<lparr>sent := out\<rparr>)"
      by (auto simp: conn_step_def Let_def bnd_eq_ret)
    from sendSynAck_fields [OF a(1)] obtain x y where "conn = ?c\<lparr>sendNextSeq := x, unacked := y\<rparr>" by blast
    with assms(1) a(2) False show thesis by (intro that [of conn]) (simp_all add: set_conn_def ident_def)
  qed
qed

lemma SYN_handled_packet:
  assumes "reachable write_fails s" and "length L = 14" "hdr_len iph = 20" and "IsSYN th"
    and "handle_packet write_fails isn chunk (received spare (wire_packet L iph th rest) iph) s = ret s'"
  shows "SYN_handled iph th s s'"
proof (cases "listeners s (listener_key (Destination iph) (DestPort th))")
  case None
  with assms(4,5) never_found [OF reachable_ok [OF assms(1)]] show ?thesis
    by (simp add: handle_wire [OF assms(2,3)] SYN_handled_def)
next
  case (Some i)
  with assms(4,5) never_found [OF reachable_ok [OF assms(1)]] obtain c skb s1 where
    n: "new_conn (lsts s ! i) iph th (parsed spare (wire_packet L iph th rest) iph th) s = ret (c, skb, s1)"
    and r: "conn_step write_fails isn chunk (Some i) th skb c s1 = ret s'"
    by (auto simp: handle_wire [OF assms(2,3)] bnd_eq_ret)
  from n obtain conn where c: "c = length (conns s)"
    and s1: "s1 = s\<lparr>conns := conns s @ [conn], connections := (connections s)(ident conn \<mapsto> c)\<rparr>"
    and f: "state conn = STATE_SYN_RECEIVED" "localIP conn = l_localIP (lsts s ! i)"
    "localPort conn = l_localPort (lsts s ! i)" "remoteIP conn = Saddr iph" "remotePort conn = SourcePort th"
    by (rule new_conn_fields)
  have "state (conns s1 ! c) = STATE_SYN_RECEIVED" using f by (simp add: s1 c)
  then show ?thesis
    using r by (rule conn_step_SYN) (use f Some in \<open>auto simp: SYN_handled_def s1 c\<close>)
qed

section \<open>Preservation\<close>

lemma typed_new_conn:
  assumes "server_typed s" and "conn_typed conn" and "state conn = STATE_SYN_RECEIVED"
  shows "server_typed (s\<lparr>conns := conns s @ [conn], connections := (connections s)(ident conn \<mapsto> length (conns s))\<rparr>)"
  using server_typedD [OF assms(1)] assms(2)
  by (intro server_typedI)
    (auto simp: backlog_def nth_append list_all_iff intro: queue_typed_more split: if_split_asm)

lemma typed_set_conn:
  assumes "server_typed s" and "c < length (conns s)" and "conn_typed conn" and "ident conn = ident (conns s ! c)"
    and "state (conns s ! c) = STATE_ESTABLISHED \<longrightarrow> state conn = STATE_ESTABLISHED"
  shows "server_typed (set_conn c conn s)"
proof -
  note t = server_typedD [OF assms(1)]
  have "queue_typed ((conns s)[c := conn]) l" if "l \<in> set (lsts s)" for l
    using t(2) that assms(2,5) by (auto simp: queue_typed_def list_all_iff nth_list_update)
  moreover have "list_all conn_typed ((conns s)[c := conn])"
    using t(1) assms(3) by (auto simp: list_all_iff dest: set_update_subset_insert [THEN subsetD])
  ultimately show ?thesis
    using t assms(2,4) by (intro server_typedI) (auto simp: set_conn_def backlog_def list_all_iff nth_list_update)
qed

lemma typed_offer:
  assumes "server_typed s" and "i < length (lsts s)" and "length (connChannel (lsts s ! i)) < 5"
    and "c < length (conns s)" and "state (conns s ! c) = STATE_ESTABLISHED" and "c \<notin> set (backlog s)"
  shows "server_typed (s\<lparr>lsts := (lsts s)[i := (lsts s ! i)\<lparr>connChannel := connChannel (lsts s ! i) @ [c]\<rparr>]\<rparr>)"
proof -
  note t = server_typedD [OF assms(1)]
  let ?l = "(lsts s ! i)\<lparr>connChannel := connChannel (lsts s ! i) @ [c]\<rparr>"
  have "queue_typed (conns s) (lsts s ! i)" using t(2) assms(2) by (simp add: list_all_length)
  then have "queue_typed (conns s) ?l" using assms(3-5) by (auto simp: queue_typed_def)
  then have "list_all (queue_typed (conns s)) ((lsts s)[i := ?l])"
    using t(2) by (auto simp: list_all_iff dest: set_update_subset_insert [THEN subsetD])
  moreover have "distinct (concat (map connChannel ((lsts s)[i := ?l])))"
    using t(3) assms(6) concat_map_split [OF assms(2), of connChannel]
    by (auto simp: concat_map_update [OF assms(2)] backlog_def)
  ultimately show ?thesis using t by (intro server_typedI) (auto simp: backlog_def)
qed

text \<open>A packet to a server whose tables never match it (\<open>never_found\<close>) touches at most one new connection.\<close>

lemma typed_handle_packet:
  assumes t: "server_typed s" and ok: "server_ok s"
    and h: "handle_packet write_fails isn chunk skbuf s = ret s'"
  shows "server_typed s'"
proof -
  from h never_found [OF ok] have "s' = s \<or> (\<exists>i iph th skb c s1 skb1. i < length (lsts s)
      \<and> new_conn (lsts s ! i) iph th skb s = ret (c, skb1, s1)
      \<and> conn_step write_fails isn chunk (Some i) th skb1 c s1 = ret s')"
    using server_typedD(5) [OF t]
    by (auto simp: handle_packet_def Let_def bnd_eq_ret split: option.splits if_split_asm prod.splits)
  then consider "s' = s"
    | i iph th skb c s1 skb1 where "i < length (lsts s)" "new_conn (lsts s ! i) iph th skb s = ret (c, skb1, s1)"
      "conn_step write_fails isn chunk (Some i) th skb1 c s1 = ret s'"
    by blast
  then show ?thesis
  proof cases
    case 1
    with t show ?thesis by simp
  next
    case (2 i iph th skb c s1 skb1)
    from 2(2) obtain conn where c: "c = length (conns s)"
      and s1: "s1 = s\<lparr>conns := conns s @ [conn], connections := (connections s)(ident conn \<mapsto> c)\<rparr>"
      and n: "state conn = STATE_SYN_RECEIVED" "readChan conn = None" "sem conn = None" "ipConn conn \<noteq> None"
      by (rule new_conn_state)
    have t1: "server_typed s1"
      unfolding s1 c using n by (intro typed_new_conn [OF t]) (simp_all add: conn_typed_def)
    have at: "conns s1 ! c = conn" "c < length (conns s1)" by (simp_all add: s1 c)
    have new: "c \<notin> set (backlog s1)"
      using backlog_bound [OF server_typedD(2) [OF t]] by (force simp: s1 c backlog_def)
    have "state (conns s1 ! c) = STATE_SYN_RECEIVED" by (simp add: at n)
    then show ?thesis
      using 2(3)
    proof (rule conn_step_handshake)
      fix conn' out
      assume a: "s' = set_conn c conn' (s1\<lparr>sent := out\<rparr>)" "ident conn' = ident (conns s1 ! c)"
        "ipConn conn' = ipConn (conns s1 ! c)" "state conn' = STATE_SYN_RECEIVED"
        "readChan conn' = readChan (conns s1 ! c)" "sem conn' = sem (conns s1 ! c)"
      have "server_typed (s1\<lparr>sent := out\<rparr>)"
        using t1 by (simp add: server_typed_def backlog_def)
      with a at n show "server_typed s'" unfolding a(1)
        by (intro typed_set_conn) (simp_all add: conn_typed_def state_consts)
    next
      fix conn' j
      assume a: "Some i = Some j" "length (connChannel (lsts s1 ! j)) < 5"
        "s' = (set_conn c conn' s1)\<lparr>lsts := (lsts s1)[j := (lsts s1 ! j)\<lparr>connChannel := connChannel (lsts s1 ! j) @ [c]\<rparr>]\<rparr>"
        "ident conn' = ident (conns s1 ! c)" "ipConn conn' = ipConn (conns s1 ! c)"
        "state conn' = STATE_ESTABLISHED" "readChan conn' = Some []" "sem conn' = Some 0"
      have "server_typed (set_conn c conn' s1)"
        using a at n by (intro typed_set_conn [OF t1]) (simp_all add: conn_typed_def)
      from typed_offer [OF this, of j c] show "server_typed s'"
        using a at new 2(1) by (simp add: set_conn_def backlog_def s1)
    qed
  qed
qed

lemma typed_Listen:
  assumes "server_typed s" and "Listen a port s = (l, s')"
  shows "server_typed s'"
  using server_typedD [OF assms(1)] assms(2)
  by (intro server_typedI)
    (auto simp: Listen_def Let_def backlog_def queue_typed_def split: if_split_asm
      intro: less_SucI [OF server_typedD(5) [OF assms(1)]])

lemma typed_Accept:
  assumes "server_typed s" and "l < length (lsts s)" and "Accept l s = ret (c, s')"
  shows "server_typed s'" and "c < length (conns s')" and "state (conns s' ! c) = STATE_ESTABLISHED"
    and "c \<in> set (backlog s)" and "c \<notin> set (backlog s')"
proof -
  note t = server_typedD [OF assms(1)]
  from assms(3) obtain cs where q: "connChannel (lsts s ! l) = c # cs"
    and s': "s' = s\<lparr>lsts := (lsts s)[l := (lsts s ! l)\<lparr>connChannel := cs\<rparr>]\<rparr>"
    by (auto simp: Accept_def split: list.splits)
  have l: "queue_typed (conns s) (lsts s ! l)" using t(2) assms(2) by (simp add: list_all_length)
  let ?l = "(lsts s ! l)\<lparr>connChannel := cs\<rparr>"
  have "queue_typed (conns s) ?l" using l q by (simp add: queue_typed_def)
  then have "list_all (queue_typed (conns s)) ((lsts s)[l := ?l])"
    using t(2) by (auto simp: list_all_iff dest: set_update_subset_insert [THEN subsetD])
  moreover have d: "distinct (backlog s')" "c \<in> set (backlog s)" "c \<notin> set (backlog s')"
    using t(3) q concat_map_split [OF assms(2), of connChannel]
    by (auto simp: s' backlog_def concat_map_update [OF assms(2)])
  ultimately show "server_typed s'" using t by (intro server_typedI) (auto simp: s')
  show "c \<in> set (backlog s)" "c \<notin> set (backlog s')" using d by simp_all
  show "c < length (conns s')" "state (conns s' ! c) = STATE_ESTABLISHED"
    using l q by (simp_all add: s' queue_typed_def)
qed

theorem typed_step: "tcp_step write_fails s s' \<Longrightarrow> server_typed s \<Longrightarrow> server_ok s \<Longrightarrow> server_typed s'"
proof (induction rule: tcp_step.induct)
  case (packet isn chunk skbuf s s')
  then show ?case by (blast intro: typed_handle_packet)
next
  case (listen a port s lst s')
  then show ?case by (blast intro: typed_Listen)
next
  case (accept lst s c s')
  then show ?case by (blast intro: typed_Accept(1))
next
  case (read c s n cap bs conn)
  then have "conn_ok (conns s ! c)" by (simp add: server_ok_def list_all_length)
  with read Read_ok have "conn = conns s ! c" by blast
  with read show ?case by (simp add: set_conn_def)
qed

theorem reachable_typed: "reachable write_fails s \<Longrightarrow> server_typed s"
proof (induction rule: reachable.induct)
  case start
  show ?case by (simp add: server_typed_def Start_state_def backlog_def)
next
  case (step s s')
  then show ?case by (blast intro: typed_step reachable_ok)
qed

section \<open>Progress\<close>

lemma Read_established:
  "conn_typed conn \<Longrightarrow> state conn = STATE_ESTABLISHED \<Longrightarrow> Read n cap conn = ret ([], conn)"
  by (cases conn) (auto simp: conn_typed_def Read_def state_consts)

lemma Accept_progress:
  assumes "server_typed s" and "l < length (lsts s)"
  shows "Accept l s = panic Blocked \<or> (\<exists>c s'. Accept l s = ret (c, s') \<and> c < length (conns s')
    \<and> c \<in> set (backlog s) \<and> c \<notin> set (backlog s') \<and> ipConn (conns s' ! c) \<noteq> None \<and> (\<forall>n cap. Read n cap (conns s' ! c) = ret ([], conns s' ! c)))"
proof (cases "connChannel (lsts s ! l)")
  case Nil
  then show ?thesis by (simp add: Accept_def)
next
  case (Cons c cs)
  then obtain s' where a: "Accept l s = ret (c, s')" by (simp add: Accept_def)
  note t = typed_Accept [OF assms a]
  from t(1,2) have "conn_typed (conns s' ! c)" by (simp add: server_typed_def list_all_length)
  then have "ipConn (conns s' ! c) \<noteq> None" "Read n cap (conns s' ! c) = ret ([], conns s' ! c)" for n cap
    using t(3) Read_established by (auto simp: conn_typed_def)
  with a t(2,4,5) show ?thesis by blast
qed

end
