(* ===== verification/Tcp_Wire.thy ===== *)
theory Tcp_Wire
  imports Tcp_Server
begin

unbundle bit_operations_syntax

text \<open>
  What a host that runs the same stack makes of the frames the server sends: every frame is a link header,
  a network header and a segment header again, with both checksums in place.
\<close>

lemma TCPHeader_bytes_Checksum:
  "TCPHeader_bytes (h\<lparr>TCPChecksum := Ntohs v\<rparr>) = store_be16 16 v (TCPHeader_bytes h)"
  by (simp add: TCPHeader_bytes_def store_be16_def le16_Ntohs) (simp add: le16_def le32_def)

definition sent_ip :: "IPConn \<Rightarrow> IPHeader" where
  "sent_ip c = (out_header c 20)\<lparr>Check := Ntohs (Checksum (IPHeader_bytes (out_header c 20)))\<rparr>"

definition sent_tcp :: "IPConn \<Rightarrow> TCPHeader \<Rightarrow> TCPHeader" where
  "sent_tcp c h = h\<lparr>TCPChecksum := Ntohs (Checksum (IPHeader_bytes (sent_ip c) @ TCPHeader_bytes h))\<rparr>"

definition sent_link :: "IPConn \<Rightarrow> u8 \<Rightarrow> bytes" where
  "sent_link c pad = mac_bytes (SrcMAC (Header (conn_EthConn c))) @ mac_bytes (DstMAC (Header (conn_EthConn c))) @ [8, pad]"

lemma length_sent_link [simp]: "length (sent_link c pad) = 14"
  by (simp add: sent_link_def)

lemma out_bytes_sent: "out_bytes c 20 = IPHeader_bytes (sent_ip c)"
  by (simp add: out_bytes_def sent_ip_def Let_def IPHeader_bytes_Check)

lemma frame_wire: "frame c pad h = wire_packet (sent_link c pad) (sent_ip c) (sent_tcp c h) []"
  by (simp add: frame_def wire_packet_def sent_link_def segment_def Let_def out_bytes_sent sent_tcp_def
      TCPHeader_bytes_Checksum)

lemma hdr_len_sent: "hdr_len (sent_ip c) = hdr_len (ipHeader c)"
  by (simp add: hdr_len_def sent_ip_def out_header_def)

text \<open>The checksums a sent frame carries verify at the receiver.\<close>

lemma transmit_sent:
  assumes "transmit write_fails c pad h out = ret out'" and "TCPChecksum h = 0" and "Check (ipHeader c) = 0"
  shows "out' = out @ [wire_packet (sent_link c pad) (sent_ip c) (sent_tcp c h) []]"
    and "VerifyChecksum (IPHeader_bytes (sent_ip c))"
    and "VerifyChecksum (IPHeader_bytes (sent_ip c) @ TCPHeader_bytes (sent_tcp c h))"
proof -
  from assms(1) have f: "folds_once (IPHeader_bytes (out_header c 20))" "folds_once (out_bytes c 20 @ TCPHeader_bytes h)"
    and o: "out' = out @ [frame c pad h]"
    by (auto simp: transmit_def split: if_split_asm)
  show "out' = out @ [wire_packet (sent_link c pad) (sent_ip c) (sent_tcp c h) []]" using o by (simp add: frame_wire)
  show "VerifyChecksum (IPHeader_bytes (sent_ip c))"
    using f(1) out_bytes_verify [OF assms(3), of 20] unfolding out_bytes_sent by blast
  have s: "TCPHeader_bytes (sent_tcp c h) = store_be16 (length (tcp_front h))
      (Checksum (IPHeader_bytes (sent_ip c) @ tcp_front h @ 0 # 0 # le16 (UrgentPointer h)))
      (tcp_front h @ 0 # 0 # le16 (UrgentPointer h))"
    by (simp add: sent_tcp_def TCPHeader_bytes_Checksum TCPHeader_bytes_cut [OF assms(2)])
  show "VerifyChecksum (IPHeader_bytes (sent_ip c) @ TCPHeader_bytes (sent_tcp c h))"
    using f(2) segment_verify [of "IPHeader_bytes (sent_ip c)" "tcp_front h" "le16 (UrgentPointer h)"]
    unfolding s by (simp add: out_bytes_sent TCPHeader_bytes_cut [OF assms(2)])
qed

text \<open>Flags that are or-ed in are set, whatever was there.\<close>

lemma flags_or: "IsSYN (h\<lparr>DataOffsetAndFlags := v OR CTRL_SYN OR w\<rparr>)" "IsACK (h\<lparr>DataOffsetAndFlags := v OR CTRL_ACK OR w\<rparr>)"
proof -
  have "(v OR m OR w) AND m = m" for m :: u16 by (rule bit_word_eqI) (auto simp: bit_simps)
  moreover have "CTRL_SYN \<noteq> 0" "CTRL_ACK \<noteq> 0" by (simp_all add: flag_consts)
  ultimately show "IsSYN (h\<lparr>DataOffsetAndFlags := v OR CTRL_SYN OR w\<rparr>)" "IsACK (h\<lparr>DataOffsetAndFlags := v OR CTRL_ACK OR w\<rparr>)"
    by (simp_all add: IsSYN_def IsACK_def)
qed

lemma synack_flags: "IsSYN (sent_tcp c (synack_header conn isn old))" "IsACK (sent_tcp c (synack_header conn isn old))"
  using flags_or(1) [of "old OR CTRL_ACK" "push_bit 4 5" "sent_tcp c (synack_header conn isn old)"]
    flags_or(2) [of old "CTRL_SYN OR push_bit 4 5" "sent_tcp c (synack_header conn isn old)"]
  by (simp_all add: sent_tcp_def synack_header_def or.assoc)

end
