(* ===== verification/Stack_Props.thy ===== *)
theory Stack_Props
  imports Net_Props Tcp_Types Tcp_Wire
begin

unbundle bit_operations_syntax

text \<open>
  Properties of the running stack as a whole: what a peer makes of its answers, the types of the server's
  state, the accept queue when it is full, and what the pipeline ever handles and what
  handling does.
\<close>

section \<open>The answer at its receiver\<close>

lemma EthHeader_of_sent_link:
  "DstMAC (EthHeader_of (sent_link c pad)) = SrcMAC (Header (conn_EthConn c))"
  "SrcMAC (EthHeader_of (sent_link c pad)) = DstMAC (Header (conn_EthConn c))"
  by (cases "SrcMAC (Header (conn_EthConn c))"; cases "DstMAC (Header (conn_EthConn c))";
      simp add: sent_link_def EthHeader_of_def mac_at_def)+

text \<open>C7. When a SYN for a listening socket has been answered, the last frame sent, captured by a host that runs the
  same stack, is read there as a packet whose two checksums verify: from the listener's address and port to
  the sender's, with both MAC addresses turned round, SYN and ACK set, the server's sequence number, and the
  acknowledgement one after the SYN's.\<close>

theorem answer_received:
  assumes "reachable write_fails s" and "length L = 14" and "hdr_len iph = 20" and "54 \<le> length chunk"
    and "unat (data_offset th - 20) = length (opts_bytes xs)" and "\<forall>x \<in> set xs. wf_opt x"
    and "IsSYN th" and "\<not> IsACK th"
    and "listeners s (listener_key (Destination iph) (DestPort th)) = Some i"
    and "bnd (receive_packet spare (wire_packet L iph th (opts_bytes xs @ payload)))
      (\<lambda>skbuf. handle_packet write_fails isn chunk skbuf s) = ret s'"
  shows "\<exists>L' iph' th'. sent s' = sent s @ [wire_packet L' iph' th' []]
    \<and> bnd (receive_packet mem' (wire_packet L' iph' th' [])) Parse = ret (parsed mem' (wire_packet L' iph' th' []) iph' th')
    \<and> VerifyChecksum (IPHeader_bytes iph') \<and> VerifyChecksum (IPHeader_bytes iph' @ TCPHeader_bytes th')
    \<and> DstMAC (EthHeader_of L') = SrcMAC (EthHeader_of L) \<and> SrcMAC (EthHeader_of L') = DstMAC (EthHeader_of L)
    \<and> Saddr iph' = l_localIP (lsts s ! i) \<and> Daddr iph' = Saddr iph
    \<and> SourcePort th' = l_localPort (lsts s ! i) \<and> DestPort th' = SourcePort th
    \<and> IsSYN th' \<and> IsACK th' \<and> Seq th' = isn \<and> Ntohl (Ack th') = Ntohl (Seq th) + 1"
proof -
  let ?c = "new_ip (l_localIP (lsts s ! i)) (Saddr iph) L"
  let ?conn = "answered (syn_conn (lsts s ! i) iph th L) th isn"
  let ?h = "synack_header ?conn isn (stale_flags chunk)"
  from handle_SYN [OF assms(2-9) never_found [OF reachable_ok [OF assms(1)]], of write_fails isn spare payload] assms(10)
  obtain out where t: "transmit write_fails ?c (chunk ! 13) ?h (sent s) = ret out" and s': "sent s' = out"
    by (auto simp: receive_wire [OF assms(2)] bnd_eq_ret)
  have h: "TCPChecksum ?h = 0" "Check (ipHeader ?c) = 0"
    by (simp_all add: synack_header_def new_ip_def new_header_def)
  note w = transmit_sent [OF t h]
  have len20: "hdr_len (sent_ip ?c) = 20"
    unfolding hdr_len_sent by (simp add: new_ip_def new_header_def hdr_len_def)
  have p: "bnd (receive_packet mem' (wire_packet (sent_link ?c pad) (sent_ip ?c) (sent_tcp ?c ?h) [])) Parse
      = ret (parsed mem' (wire_packet (sent_link ?c pad) (sent_ip ?c) (sent_tcp ?c ?h) []) (sent_ip ?c) (sent_tcp ?c ?h))" for pad
    using receive_wire [of "sent_link ?c pad"] parse_wire(1) [OF _ len20] by simp
  have f: "Saddr (sent_ip ?c) = l_localIP (lsts s ! i)" "Daddr (sent_ip ?c) = Saddr iph"
    "SourcePort (sent_tcp ?c ?h) = l_localPort (lsts s ! i)" "DestPort (sent_tcp ?c ?h) = SourcePort th"
    "Seq (sent_tcp ?c ?h) = isn" "Ntohl (Ack (sent_tcp ?c ?h)) = Ntohl (Seq th) + 1"
    by (simp_all add: sent_ip_def out_header_def new_ip_def new_header_def sent_tcp_def synack_header_def
        answered_def syn_conn_def)
  have m: "Header (conn_EthConn ?c) = EthHeader_of L" by (simp add: new_ip_def)
  show ?thesis
    by (intro exI [of _ "sent_link ?c (chunk ! 13)"] exI [of _ "sent_ip ?c"] exI [of _ "sent_tcp ?c ?h"] conjI
        w p f synack_flags) (simp_all add: s' w(1) EthHeader_of_sent_link m)
qed

lemma answer0:
  "\<exists>s'. bnd (receive_packet [] (wire_packet L0 (iph0 0x0200000A) (th0 0x0250) []))
    (\<lambda>skbuf. handle_packet accepts_all 7 (replicate 54 0) skbuf s80) = ret s'"
proof -
  let ?c = "new_ip 0x0100000A 0x0200000A L0"
  let ?h = "synack_header (answered (syn_conn (lsts s80 ! 0) (iph0 0x0200000A) (th0 0x0250) L0) (th0 0x0250) 7) 7 0"
  have "?h = \<lparr>SourcePort = 0x5000, DestPort = 0x3930, Seq = 7, Ack = 0xE9030000, DataOffsetAndFlags = 0x1250,
      Window = 4, TCPChecksum = 0, UrgentPointer = 0\<rparr>"
    by (simp add: synack_header_def answered_def syn_conn_def th0_def iph0_def flag_consts
        Ntohl_def Htonl_def)
  moreover have i: "IPHeader_bytes (out_header ?c 20) = [0x45, 0, 0, 0x28, 0, 0, 0x40, 0, 0x40, 6, 0, 0, 10, 0, 0, 1, 10, 0, 0, 2]"
    by (simp add: IPHeader_bytes_def out_header_def new_ip_def new_header_def Htons_def le16_def le32_def)
  moreover have "out_bytes ?c 20 = [0x45, 0, 0, 0x28, 0, 0, 0x40, 0, 0x40, 6, 0x26, 0xce, 10, 0, 0, 1, 10, 0, 0, 2]"
    by (simp add: out_bytes_def Let_def i Checksum_def store_be16_def)
  ultimately have "\<exists>out. transmit accepts_all ?c 0 ?h [] = ret out"
    by (simp add: transmit_def accepts_all_def folds_once_def TCPHeader_bytes_def le16_def le32_def)
  then show ?thesis
    unfolding receive_wire [OF packet0(1)] bnd_ret
    using handle_SYN [where L = L0 and iph = "iph0 0x0200000A" and chunk = "replicate 54 0" and th = "th0 0x0250"
      and xs = "[]" and s = s80 and i = 0 and spare = "[]" and payload = "[]" and write_fails = accepts_all and isn = 7]
    by (auto simp: stale_flags_def rd16_def)
qed

theorem answer_received_witness:
  "\<exists>s' L' iph' th'. bnd (receive_packet [] (wire_packet L0 (iph0 0x0200000A) (th0 0x0250) []))
      (\<lambda>skbuf. handle_packet accepts_all 7 (replicate 54 0) skbuf s80) = ret s'
    \<and> sent s' = [wire_packet L' iph' th' []] \<and> VerifyChecksum (IPHeader_bytes iph' @ TCPHeader_bytes th')
    \<and> Daddr iph' = 0x0200000A \<and> IsSYN th' \<and> IsACK th'"
proof -
  obtain s' where r: "bnd (receive_packet [] (wire_packet L0 (iph0 0x0200000A) (th0 0x0250) []))
      (\<lambda>skbuf. handle_packet accepts_all 7 (replicate 54 0) skbuf s80) = ret s'"
    using answer0 by blast
  with answer_received [OF s80_reachable, where L = L0 and iph = "iph0 0x0200000A" and th = "th0 0x0250" and xs = "[]"
      and i = 0 and spare = "[]" and payload = "[]" and write_fails = accepts_all and isn = 7
      and chunk = "replicate 54 0" and s' = s' and mem' = "[]"]
  show ?thesis by auto
qed

section \<open>Types\<close>

text \<open>C8. In every reachable state the server is well-typed: every connection is in the handshake, with neither
  channel made, or established, with both; the tables refer to connections and listeners that exist, a
  connection under its own key; and each queued connection is established and waits in one queue, once, with
  at most four others. So \<open>Accept\<close> either waits or returns a connection that exists and can be read from.\<close>

theorem server_types:
  assumes "reachable write_fails s"
  shows "server_typed s \<and> (\<forall>l < length (lsts s). Accept l s = panic Blocked
    \<or> (\<exists>c s'. Accept l s = ret (c, s') \<and> c < length (conns s') \<and> c \<in> set (backlog s) \<and> c \<notin> set (backlog s')
        \<and> ipConn (conns s' ! c) \<noteq> None \<and> (\<forall>n cap. Read n cap (conns s' ! c) = ret ([], conns s' ! c))))"
  using Accept_progress [OF reachable_typed [OF assms]] reachable_typed [OF assms] by blast

theorem server_types_witness: "server_typed s81 \<and> Accept 0 s81 \<noteq> panic Blocked \<and> (\<exists>c s'. Accept 0 s81 = ret (c, s') \<and> c \<notin> set (backlog s'))"
proof -
  have "0 < length (lsts s81)" "Accept 0 s81 \<noteq> panic Blocked" by (simp_all add: s81_def Accept_def)
  with server_types [OF s81_reachable [of accepts_all]] show ?thesis by blast
qed

section \<open>The accept queue\<close>

text \<open>A listener with \<open>n\<close> connections waiting.\<close>

definition waiting :: "nat \<Rightarrow> tcp_state" where
  "waiting n = s80\<lparr>connections := (if n = 0 then Map.empty
       else [ident (syn_conn (lsts s80 ! 0) (iph0 0x0200000A) (th0 0x1250) L0) \<mapsto> n - 1]),
     conns := replicate n (established (syn_conn (lsts s80 ! 0) (iph0 0x0200000A) (th0 0x1250) L0) (th0 0x1250)),
     lsts := [\<lparr>l_localIP = 0x0100000A, l_localPort = 0x5000, connChannel = [0..<n]\<rparr>]\<rparr>"

lemma waiting_reachable: "n \<le> 5 \<Longrightarrow> reachable write_fails (waiting n)"
proof (induction n)
  case 0
  have "waiting 0 = s80" by (simp add: waiting_def s80_def Listen_def Let_def Start_state_def Ip2long_dotted)
  then show ?case by (simp add: s80_reachable)
next
  case (Suc n)
  have "listeners (waiting n) (listener_key (DotIP 0x0100000A) 0x5000) = Some 0"
    by (simp add: waiting_def)
  moreover have q: "syn_conn \<lparr>l_localIP = a, l_localPort = p, connChannel = [0..<n]\<rparr> i t L
      = syn_conn \<lparr>l_localIP = a, l_localPort = p, connChannel = []\<rparr> i t L" for a p i t L
    by (simp add: syn_conn_def)
  ultimately have "handle_packet write_fails 7 [] (received [] (wire_packet L0 (iph0 0x0200000A) (th0 0x1250) (opts_bytes [] @ [])) (iph0 0x0200000A)) (waiting n)
      = ret (waiting (Suc n))"
    using Suc.prems never_found [OF reachable_ok [OF Suc.IH]]
    by (subst handle_SYN_ACK [where i = 0]) (simp_all add: waiting_def replicate_append_same q)
  with Suc show ?case by (auto intro: reachable.step tcp_step.packet)
qed

text \<open>C25. While a listener's queue holds five connections, a packet that would establish a sixth stops the run
  loop; every \<open>Accept\<close> makes room for one such packet, and the queue is full again after it.\<close>

theorem backlog_full:
  fixes spare payload :: bytes
  assumes "reachable write_fails s" and "length L = 14" and "hdr_len iph = 20"
    and "unat (data_offset th - 20) = length (opts_bytes xs)" and "\<forall>x \<in> set xs. wf_opt x"
    and "IsSYN th" and "IsACK th"
    and "listeners s (listener_key (Destination iph) (DestPort th)) = Some i"
    and "length (connChannel (lsts s ! i)) = 5"
  defines "pkt \<equiv> received spare (wire_packet L iph th (opts_bytes xs @ payload)) iph"
  shows "handle_packet write_fails isn chunk pkt s = panic Blocked
    \<and> (\<exists>c s1 s2. Accept i s = ret (c, s1) \<and> handle_packet write_fails isn chunk pkt s1 = ret s2
        \<and> connChannel (lsts s2 ! i) = tl (connChannel (lsts s ! i)) @ [length (conns s)]
        \<and> handle_packet write_fails isn chunk pkt s2 = panic Blocked)"
proof -
  have i: "i < length (lsts s)" using server_typedD(5) [OF reachable_typed [OF assms(1)] assms(8)] .
  obtain c cs where q: "connChannel (lsts s ! i) = c # cs" and l: "length cs = 4"
    using assms(9) by (cases "connChannel (lsts s ! i)") auto
  let ?s1 = "s\<lparr>lsts := (lsts s)[i := (lsts s ! i)\<lparr>connChannel := cs\<rparr>]\<rparr>"
  have a: "Accept i s = ret (c, ?s1)" using q by (simp add: Accept_def)
  have "reachable write_fails ?s1" using assms(1) i a by (blast intro: reachable.step tcp_step.accept)
  note r1 = never_found [OF reachable_ok [OF this]]
  have k1: "listeners ?s1 (listener_key (Destination iph) (DestPort th)) = Some i" using assms(8) by simp
  note h = handle_SYN_ACK_any [OF assms(2-7), of _ i write_fails isn chunk spare payload]
  obtain s2 where s2: "handle_packet write_fails isn chunk pkt ?s1 = ret s2"
    and q2: "connChannel (lsts s2 ! i) = cs @ [length (conns s)]" "listeners s2 = listeners s"
    using h [OF k1 r1] l i by (simp add: pkt_def)
  have "reachable write_fails s2"
    using \<open>reachable write_fails ?s1\<close> s2 by (blast intro: reachable.step tcp_step.packet)
  note r2 = never_found [OF reachable_ok [OF this]]
  have "handle_packet write_fails isn chunk pkt s2 = panic Blocked"
    using h [OF _ r2] assms(8) q2 l by (simp add: pkt_def)
  moreover have "handle_packet write_fails isn chunk pkt s = panic Blocked"
    using h [OF assms(8) never_found [OF reachable_ok [OF assms(1)]]] assms(9) by (simp add: pkt_def)
  ultimately show ?thesis using a s2 q q2(1) by auto
qed

theorem backlog_full_witness:
  "handle_packet accepts_all 7 [] (received [] (wire_packet L0 (iph0 0x0200000A) (th0 0x1250) []) (iph0 0x0200000A)) (waiting 5)
    = panic Blocked"
  using backlog_full [OF waiting_reachable [of 5 accepts_all], where L = L0 and iph = "iph0 0x0200000A" and th = "th0 0x1250"
      and xs = "[]" and i = 0 and isn = 7 and chunk = "[]" and spare = "[]" and payload = "[]"]
  by (simp add: waiting_def)

section \<open>What the stack handles\<close>

text \<open>C6. After \<open>Start\<close>, however goroutines and calls interleave, the frames that have been handled are the first ones
  captured, as many as there were packet events, and each of them (with a network header of 20 bytes) is a SYN: a
  packet without the flag is never among them, nor is anything captured after it. The packet event at any place of the
  run takes the next frame in a reachable state of the server. When a socket listens for it, this enters exactly one new
  connection, between the socket's and the sender's addresses and ports, and offers it at once if the frame
  carries an acknowledgement; so a SYN sent again enters another one. When no socket listens for it, the state
  does not change at all.\<close>

theorem pipeline_only_SYN:
  assumes "tcp_Start open_fails filter_fails device flt unstarted = ret (err, s0)"
    and "runs write_fails s0 fs es s"
  shows "(packets es \<le> length fs \<and> (\<forall>n < packets es. \<forall>spare L iph th rest.
    fs ! n = (spare, wire_packet L iph th rest) \<longrightarrow> length L = 14 \<longrightarrow> hdr_len iph = 20 \<longrightarrow> IsSYN th))
    \<and> (\<forall>es1 isn chunk es2. es = es1 @ Packet isn chunk # es2 \<longrightarrow> (\<exists>t t'. reachable write_fails t
        \<and> serve_all write_fails es1 (Start_state, fs) = ret (t, drop (packets es1) fs)
        \<and> serve write_fails (Packet isn chunk) (t, drop (packets es1) fs) = ret (t', drop (Suc (packets es1)) fs)
        \<and> (\<forall>spare L iph th rest. fs ! packets es1 = (spare, wire_packet L iph th rest) \<longrightarrow> length L = 14 \<longrightarrow>
            hdr_len iph = 20 \<longrightarrow> IsSYN th \<and> SYN_handled iph th t t')))"
proof (rule conjI)
  have "in_step write_fails fs es s" using assms(2) in_step_started [OF assms(1)] by (rule runs_in_step)
  then obtain hs r where h: "fs = hs @ r" "length hs = packets es" "list_all SYN_frame hs" by (rule in_stepE)
  have o: "SYN_frame (fs ! n)" if "n < packets es" for n
    using h that by (simp add: nth_append list_all_length)
  then show "packets es \<le> length fs \<and> (\<forall>n < packets es. \<forall>spare L iph th rest.
    fs ! n = (spare, wire_packet L iph th rest) \<longrightarrow> length L = 14 \<longrightarrow> hdr_len iph = 20 \<longrightarrow> IsSYN th)"
    using h(1,2) unfolding SYN_frame_def by (auto simp: le_add1) (metis snd_conv)
  show "\<forall>es1 isn chunk es2. es = es1 @ Packet isn chunk # es2 \<longrightarrow> (\<exists>t t'. reachable write_fails t
        \<and> serve_all write_fails es1 (Start_state, fs) = ret (t, drop (packets es1) fs)
        \<and> serve write_fails (Packet isn chunk) (t, drop (packets es1) fs) = ret (t', drop (Suc (packets es1)) fs)
        \<and> (\<forall>spare L iph th rest. fs ! packets es1 = (spare, wire_packet L iph th rest) \<longrightarrow> length L = 14 \<longrightarrow>
            hdr_len iph = 20 \<longrightarrow> IsSYN th \<and> SYN_handled iph th t t'))"
  proof (intro allI impI)
    fix es1 isn chunk es2
    assume e: "es = es1 @ Packet isn chunk # es2"
    from assms(2) in_step_started [OF assms(1)] obtain t t' where t: "reachable write_fails t"
      "serve_all write_fails es1 (Start_state, fs) = ret (t, drop (packets es1) fs)" "packets es1 < length fs"
      "serve write_fails (Packet isn chunk) (t, drop (packets es1) fs) = ret (t', drop (Suc (packets es1)) fs)"
      unfolding e by (rule runs_packet)
    have "IsSYN th \<and> SYN_handled iph th t t'"
      if f: "fs ! packets es1 = (spare, wire_packet L iph th rest)" "length L = 14" "hdr_len iph = 20"
      for spare L iph th rest
    proof -
      have "IsSYN th" using o [of "packets es1"] f unfolding SYN_frame_def by (fastforce simp: e)
      moreover have "handle_packet write_fails isn chunk (received spare (wire_packet L iph th rest) iph) t = ret t'"
        using t(4) unfolding Cons_nth_drop_Suc [OF t(3), symmetric] f(1)
        by (auto simp: receive_wire [OF f(2)] bnd_eq_ret)
      ultimately show ?thesis using SYN_handled_packet [OF t(1) f(2,3)] by blast
    qed
    with t show "\<exists>t t'. reachable write_fails t
        \<and> serve_all write_fails es1 (Start_state, fs) = ret (t, drop (packets es1) fs)
        \<and> serve write_fails (Packet isn chunk) (t, drop (packets es1) fs) = ret (t', drop (Suc (packets es1)) fs)
        \<and> (\<forall>spare L iph th rest. fs ! packets es1 = (spare, wire_packet L iph th rest) \<longrightarrow> length L = 14 \<longrightarrow>
            hdr_len iph = 20 \<longrightarrow> IsSYN th \<and> SYN_handled iph th t t')" by blast
  qed
qed

text \<open>The run of one SYN to a socket that listens for it: it is handled in the state \<open>s80\<close> and enters one
  connection.\<close>

theorem pipeline_only_SYN_witness:
  "\<exists>s t. \<exists>t' :: tcp_state. runs accepts_all started0 [([], wire_packet L0 (iph0 0x0200000A) (th0 0x1250) [])]
      [Listens (DotIP 0x0100000A) 80, Packet 7 (replicate 54 0)] s \<and> IsSYN (th0 0x1250)
    \<and> serve_all accepts_all [Listens (DotIP 0x0100000A) 80]
        (Start_state, [([], wire_packet L0 (iph0 0x0200000A) (th0 0x1250) [])])
      = ret (t, [([], wire_packet L0 (iph0 0x0200000A) (th0 0x1250) [])])
    \<and> length (conns t) = 0 \<and> length (conns t') = 1 \<and> remoteIP (conns t' ! 0) = 0x0200000A
    \<and> state (conns t' ! 0) = STATE_ESTABLISHED \<and> connChannel (lsts t' ! 0) = [0]"
proof -
  let ?f = "wire_packet L0 (iph0 0x0200000A) (th0 0x1250) []"
  obtain s where s: "runs accepts_all started0 [([], ?f)] [Listens (DotIP 0x0100000A) 80, Packet 7 (replicate 54 0)] s"
    using started0_run by blast
  have "tcp_Start (\<lambda>d n p t. False) (\<lambda>d f. False) ''eth0'' ''tcp'' unstarted = ret (None, started0)"
    by (simp add: tcp_Start_unstarted started0_def)
  note c = pipeline_only_SYN [OF this s]
  have l: "serve_all accepts_all [Listens (DotIP 0x0100000A) 80] (Start_state, [([], ?f)]) = ret (s80, [([], ?f)])"
    by (simp add: s80_def)
  from c [THEN conjunct2, rule_format, of "[Listens (DotIP 0x0100000A) 80]" 7 "replicate 54 0" "[]"] l
  obtain t' where "SYN_handled (iph0 0x0200000A) (th0 0x1250) s80 t'" "IsSYN (th0 0x1250)" by fastforce
  then have "length (conns t') = 1 \<and> remoteIP (conns t' ! 0) = 0x0200000A
    \<and> state (conns t' ! 0) = STATE_ESTABLISHED \<and> connChannel (lsts t' ! 0) = [0]"
    by (auto simp: SYN_handled_def)
  moreover have "length (conns s80) = 0" "IsSYN (th0 0x1250)" by simp_all
  ultimately show ?thesis using s l by blast
qed

section \<open>Addresses\<close>

text \<open>C28. The pattern of \<open>Ip2long\<close> is anchored at the start only: text after an address, as long as it does not start
  with a digit, is ignored. A socket told to listen on such a string gets the address, but is entered under the
  whole string, so no packet for that address, or any other, reaches it.\<close>

theorem Ip2long_trailing_text:
  assumes "r \<noteq> []" and "\<not> is_digit (hd r)" and "\<forall>c \<in> set r. ascii c"
  shows "Ip2long (DotIP a @ r) = a
    \<and> (\<exists>l s'. Listen (DotIP a @ r) port s = (l, s') \<and> l_localIP (lsts s' ! l) = a
        \<and> (\<forall>iph th. listeners s' (listener_key (Destination iph) (DestPort th))
              = listeners s (listener_key (Destination iph) (DestPort th))))"
proof -
  have a: "Ip2long (DotIP a @ r) = a" using assms(2) by (intro Ip2long_trailing) simp
  have "listener_key (Destination iph) q \<noteq> listener_key (DotIP a @ r) p" for iph q p
  proof
    assume "listener_key (Destination iph) q = listener_key (DotIP a @ r) p"
    then have "DotIP (Daddr iph) @ rune_string (unat q) = (DotIP a @ r) @ rune_string (unat p)"
      by (simp only: listener_key_def Destination_def)
    moreover have "\<forall>c \<in> set (DotIP a @ r). ascii c" using ascii_DotIP assms(3) by auto
    moreover have "unat q < 0x10000" "unat p < 0x10000" using unat_u16 by simp_all
    ultimately have d: "DotIP (Daddr iph) = DotIP a @ r" using key_inject [OF ascii_DotIP] by blast
    then have "Daddr iph = a" using a Ip2long_dotted [of "Daddr iph"] by simp
    with d assms(1) show False by simp
  qed
  with a show ?thesis by (auto simp: Listen_def Let_def)
qed

theorem Ip2long_trailing_text_witness:
  "Ip2long (DotIP 0x0100000A @ ''/8'') = 0x0100000A"
  by (rule Ip2long_trailing_text [THEN conjunct1]) (simp_all add: is_digit_def ascii_def)

end
