(* ===== verification/Tcp_Flags.thy ===== *)
theory Tcp_Flags
  imports Tcp
begin

unbundle bit_operations_syntax

text \<open>
  The flags as the byte of the header holds them (\<open>TCPCB_FLAG_*\<close>), and the masks for the 16-bit word that
  holds data offset and flags (\<open>CTRL_*\<close>): the comment at the former asks that they match a real header.
\<close>

definition TCPCB_FLAG_FIN :: u8 where [flag_consts]: "TCPCB_FLAG_FIN = 0x01"
definition TCPCB_FLAG_SYN :: u8 where [flag_consts]: "TCPCB_FLAG_SYN = 0x02"
definition TCPCB_FLAG_RST :: u8 where [flag_consts]: "TCPCB_FLAG_RST = 0x04"
definition TCPCB_FLAG_PSH :: u8 where [flag_consts]: "TCPCB_FLAG_PSH = 0x08"
definition TCPCB_FLAG_ACK :: u8 where [flag_consts]: "TCPCB_FLAG_ACK = 0x10"
definition TCPCB_FLAG_URG :: u8 where [flag_consts]: "TCPCB_FLAG_URG = 0x20"

lemma CTRL_FLAG:
  "CTRL_FIN = push_bit 8 (ucast TCPCB_FLAG_FIN)" "CTRL_SYN = push_bit 8 (ucast TCPCB_FLAG_SYN)"
  "CTRL_RST = push_bit 8 (ucast TCPCB_FLAG_RST)" "CTRL_PSH = push_bit 8 (ucast TCPCB_FLAG_PSH)"
  "CTRL_ACK = push_bit 8 (ucast TCPCB_FLAG_ACK)" "CTRL_URG = push_bit 8 (ucast TCPCB_FLAG_URG)"
  by (simp_all add: flag_consts)

lemma TCPHeader_bytes_flags:
  "TCPHeader_bytes h ! 12 = ucast (DataOffsetAndFlags h)"
  "TCPHeader_bytes h ! 13 = ucast (drop_bit 8 (DataOffsetAndFlags h))"
  by (simp_all add: TCPHeader_bytes_def le16_def le32_def)

text \<open>A flag in the high byte of the word, and setting it.\<close>

lemma high_byte_flag: "w AND push_bit 8 (ucast (f :: u8)) \<noteq> 0 \<longleftrightarrow> ucast (drop_bit 8 (w :: u16)) AND f \<noteq> 0"
proof -
  have "w AND push_bit 8 (ucast f) = 0 \<longleftrightarrow> (\<forall>n. \<not> (bit w (8 + n) \<and> bit f n))"
  proof (intro iffI allI notI)
    fix n
    assume z: "w AND push_bit 8 (ucast f) = 0" and b: "bit w (8 + n) \<and> bit f n"
    then have "8 + n < 16" using bit_imp_le_length [of w "8 + n"] by simp
    with b have "bit (w AND push_bit 8 (ucast f)) (8 + n)" by (simp add: bit_simps)
    with z show False by simp
  next
    assume "\<forall>n. \<not> (bit w (8 + n) \<and> bit f n)"
    then show "w AND push_bit 8 (ucast f) = 0"
      by (intro bit_word_eqI) (auto simp: bit_simps dest!: spec [of _ "_ - 8"])
  qed
  moreover have "ucast (drop_bit 8 w) AND f = 0 \<longleftrightarrow> (\<forall>n. \<not> (bit w (8 + n) \<and> bit f n))"
  proof (intro iffI allI notI)
    fix n
    assume z: "(ucast (drop_bit 8 w) :: u8) AND f = 0" and b: "bit w (8 + n) \<and> bit f n"
    then have "n < 8" using bit_imp_le_length [of f n] by simp
    with b have "bit ((ucast (drop_bit 8 w) :: u8) AND f) n" by (simp add: bit_simps)
    with z show False by simp
  next
    assume "\<forall>n. \<not> (bit w (8 + n) \<and> bit f n)"
    then show "(ucast (drop_bit 8 w) :: u8) AND f = 0" by (intro bit_word_eqI) (simp add: bit_simps)
  qed
  ultimately show ?thesis by simp
qed

text \<open>The code's tests, setter and length in terms of the bytes of the header.\<close>

theorem flags_on_wire:
  "IsSYN h \<longleftrightarrow> TCPHeader_bytes h ! 13 AND TCPCB_FLAG_SYN \<noteq> 0"
  "IsACK h \<longleftrightarrow> TCPHeader_bytes h ! 13 AND TCPCB_FLAG_ACK \<noteq> 0"
  "TCPHeader_bytes (ACK sq h) ! 13 = TCPHeader_bytes h ! 13 OR TCPCB_FLAG_ACK"
  "TCPHeader_bytes (ACK sq h) ! 12 = TCPHeader_bytes h ! 12"
  "data_offset h = 4 * ucast (drop_bit 4 (TCPHeader_bytes h ! 12))"
proof -
  show "IsSYN h \<longleftrightarrow> TCPHeader_bytes h ! 13 AND TCPCB_FLAG_SYN \<noteq> 0"
    "IsACK h \<longleftrightarrow> TCPHeader_bytes h ! 13 AND TCPCB_FLAG_ACK \<noteq> 0"
    by (simp_all only: IsSYN_def IsACK_def CTRL_FLAG high_byte_flag TCPHeader_bytes_flags)
  show "TCPHeader_bytes (ACK sq h) ! 13 = TCPHeader_bytes h ! 13 OR TCPCB_FLAG_ACK"
    unfolding TCPHeader_bytes_flags ACK_def CTRL_FLAG
    by (rule bit_word_eqI) (auto simp: bit_simps)
  show "TCPHeader_bytes (ACK sq h) ! 12 = TCPHeader_bytes h ! 12"
    unfolding TCPHeader_bytes_flags ACK_def CTRL_FLAG
    by (rule bit_word_eqI) (auto simp: bit_simps)
  have nibble: "(0x0f :: u16) = mask 4" by (simp add: mask_eq_exp_minus_1)
  have "drop_bit 4 w AND 0x0f = (ucast (drop_bit 4 (ucast w :: u8)) :: u16)" for w :: u16
    unfolding nibble by (rule bit_word_eqI) (auto simp: bit_simps)
  then show "data_offset h = 4 * ucast (drop_bit 4 (TCPHeader_bytes h ! 12))"
    by (simp add: data_offset_def TCPHeader_bytes_flags)
qed

end
