(* ===== verification/Tcp_Sem.thy ===== *)
theory Tcp_Sem
  imports Tcp_Conn "HOL-Library.Multiset"
begin

text \<open>
  One established connection, statement by statement: goroutines that call \<open>Read\<close> and the run loop pushing
  the payloads of segments one after the other, which share the channel \<open>readChan\<close> and the semaphore \<open>sem\<close>. \<open>Read\<close> asks how much there
  is before it takes the semaphore, both move one byte at a time while they hold it, and every wait on a
  channel is a goroutine that cannot advance.
\<close>

section \<open>Goroutines\<close>

record shared =
  queue :: bytes
  token :: bool

datatype phase =
    Calling nat nat          \<comment> \<open>\<open>Read\<close> into a slice of this length and capacity\<close>
  | Sized nat nat            \<comment> \<open>the amount to read is known; waiting for \<open>sem\<close>\<close>
  | Copying nat nat bytes    \<comment> \<open>so many bytes still to receive, the slice's length, what it holds\<close>
  | Returned bytes
  | Crashed                  \<comment> \<open>an index out of range: the process is gone\<close>
  | Sending "bytes list"     \<comment> \<open>the run loop with the payloads of segments to come, waiting for \<open>sem\<close>\<close>
  | Pushing bytes "bytes list"

fun read_step :: "phase \<Rightarrow> shared \<Rightarrow> (phase \<times> shared) option" where
  "read_step (Calling n cap) s = Some (Sized (min cap (length (queue s))) n, s)"
| "read_step (Sized k n) s = (if token s then None else Some (Copying k n [], s\<lparr>token := True\<rparr>))"
| "read_step (Copying (Suc k) n got) s =
     (case queue s of [] \<Rightarrow> None
      | v # q \<Rightarrow> Some (if length got < n then Copying k n (got @ [v]) else Crashed, s\<lparr>queue := q\<rparr>))"
| "read_step (Copying 0 n got) s = Some (Returned got, s\<lparr>token := False\<rparr>)"
| "read_step p s = None"

fun write_step :: "phase \<Rightarrow> shared \<Rightarrow> (phase \<times> shared) option" where
  "write_step (Sending (vs # vss)) s = (if token s then None else Some (Pushing vs vss, s\<lparr>token := True\<rparr>))"
| "write_step (Pushing (v # vs) vss) s =
     (if length (queue s) < CHAN_CAP then Some (Pushing vs vss, s\<lparr>queue := queue s @ [v]\<rparr>) else None)"
| "write_step (Pushing [] vss) s = Some (Sending vss, s\<lparr>token := False\<rparr>)"
| "write_step p s = None"

definition advance :: "phase \<Rightarrow> shared \<Rightarrow> (phase \<times> shared) option" where
  "advance p s = (case read_step p s of None \<Rightarrow> write_step p s | Some r \<Rightarrow> Some r)"

lemma advance_simps [simp]:
  "advance (Calling n cap) s = Some (Sized (min cap (length (queue s))) n, s)"
  "advance (Sized k n) s = (if token s then None else Some (Copying k n [], s\<lparr>token := True\<rparr>))"
  "advance (Copying (Suc k) n got) s =
     (case queue s of [] \<Rightarrow> None
      | v # q \<Rightarrow> Some (if length got < n then Copying k n (got @ [v]) else Crashed, s\<lparr>queue := q\<rparr>))"
  "advance (Copying 0 n got) s = Some (Returned got, s\<lparr>token := False\<rparr>)"
  "advance (Sending (vs # vss)) s = (if token s then None else Some (Pushing vs vss, s\<lparr>token := True\<rparr>))"
  "advance (Pushing (v # vs) vss) s =
     (if length (queue s) < CHAN_CAP then Some (Pushing vs vss, s\<lparr>queue := queue s @ [v]\<rparr>) else None)"
  "advance (Pushing [] vss) s = Some (Sending vss, s\<lparr>token := False\<rparr>)"
  "advance (Returned got) s = None" "advance Crashed s = None" "advance (Sending []) s = None"
  by (simp_all add: advance_def split: list.split)

text \<open>What a step pushes into the channel, and what a \<open>Read\<close> returns by it.\<close>

fun pushed :: "phase \<Rightarrow> bytes" where
  "pushed (Pushing (v # vs) vss) = [v]"
| "pushed p = []"

fun returned :: "phase \<Rightarrow> bytes list" where
  "returned (Returned got) = [got]"
| "returned p = []"

text \<open>Interleavings, with the number of steps, the bytes pushed and the results returned so far. When a
  goroutine has crashed the process is gone and nothing moves.\<close>

inductive sys :: "phase list \<Rightarrow> shared \<Rightarrow> phase list \<Rightarrow> shared \<Rightarrow> bytes \<Rightarrow> bytes list \<Rightarrow> nat \<Rightarrow> bool" for ths0 s0 where
  init: "sys ths0 s0 ths0 s0 [] [] 0"
| step: "sys ths0 s0 ths s P R k \<Longrightarrow> i < length ths \<Longrightarrow> Crashed \<notin> set ths \<Longrightarrow> advance (ths ! i) s = Some (p, s') \<Longrightarrow>
    sys ths0 s0 (ths[i := p]) s' (P @ pushed (ths ! i)) (R @ returned p) (Suc k)"

definition stuck :: "phase list \<Rightarrow> shared \<Rightarrow> bool" where
  "stuck ths s \<longleftrightarrow> (\<forall>p \<in> set ths. advance p s = None)"

text \<open>The interleaving a schedule makes: which goroutine moves next.\<close>

fun sched :: "nat list \<Rightarrow> phase list \<Rightarrow> shared \<Rightarrow> (phase list \<times> shared \<times> bytes \<times> bytes list) option" where
  "sched [] ths s = Some (ths, s, [], [])"
| "sched (i # is) ths s =
     (if i < length ths \<and> Crashed \<notin> set ths then
        (case advance (ths ! i) s of None \<Rightarrow> None
         | Some (p, s') \<Rightarrow>
             (case sched is (ths[i := p]) s' of None \<Rightarrow> None
              | Some (ths', s'', P, R) \<Rightarrow> Some (ths', s'', pushed (ths ! i) @ P, returned p @ R)))
      else None)"

lemma sched_continues:
  "sys ths0 s0 ths s P R k \<Longrightarrow> sched is ths s = Some (ths', s', P', R') \<Longrightarrow>
   sys ths0 s0 ths' s' (P @ P') (R @ R') (k + length is)"
proof (induction "is" arbitrary: ths s P R k P' R')
  case (Cons i "is")
  then obtain p t Q T where st: "i < length ths" "Crashed \<notin> set ths" "advance (ths ! i) s = Some (p, t)"
    and r: "sched is (ths[i := p]) t = Some (ths', s', Q, T)" "P' = pushed (ths ! i) @ Q" "R' = returned p @ T"
    by (auto split: if_split_asm option.splits prod.splits)
  from Cons.IH [OF sys.step [OF Cons.prems(1) st] r(1)] r(2,3) show ?case by simp
qed simp

lemma sched_sys: "sched is ths s = Some (ths', s', P, R) \<Longrightarrow> sys ths s ths' s' P R (length is)"
  using sched_continues [OF sys.init] by force

section \<open>Every interleaving ends\<close>

fun weight :: "phase \<Rightarrow> nat" where
  "weight (Calling n cap) = cap + 4"
| "weight (Sized k n) = k + 3"
| "weight (Copying k n got) = k + 2"
| "weight (Sending vss) = length (concat vss) + 2 * length vss"
| "weight (Pushing vs vss) = length vs + 1 + length (concat vss) + 2 * length vss"
| "weight p = 0"

lemma advance_weight: "advance p s = Some (p', s') \<Longrightarrow> weight p' < weight p"
proof (cases p)
  case (Copying k n got)
  moreover assume "advance p s = Some (p', s')"
  ultimately show ?thesis by (cases k) (auto split: if_split_asm list.splits)
next
  case (Pushing vs vss)
  moreover assume "advance p s = Some (p', s')"
  ultimately show ?thesis by (cases vs) (auto split: if_split_asm)
next
  case (Sending vss)
  moreover assume "advance p s = Some (p', s')"
  ultimately show ?thesis by (cases vss) (auto split: if_split_asm)
qed (auto split: if_split_asm)

lemma sum_list_update_less:
  "i < length xs \<Longrightarrow> f y < f (xs ! i) \<Longrightarrow> sum_list (map f (xs[i := y])) < (sum_list (map f xs) :: nat)"
  by (induction xs arbitrary: i) (auto split: nat.split)

section \<open>One at a time\<close>

fun critical :: "phase \<Rightarrow> bool" where
  "critical (Copying k n got) \<longleftrightarrow> True"
| "critical (Pushing vs vss) \<longleftrightarrow> True"
| "critical p \<longleftrightarrow> False"

fun got_of :: "phase \<Rightarrow> bytes" where
  "got_of (Copying k n got) = got"
| "got_of p = []"

fun fresh :: "phase \<Rightarrow> bool" where
  "fresh (Calling n cap) \<longleftrightarrow> True"
| "fresh (Sending vss) \<longleftrightarrow> True"
| "fresh p \<longleftrightarrow> False"

text \<open>The semaphore is taken exactly while some goroutine is between its two operations on it, and then by
  that one alone; the bytes that went in have come out in order, the results first, then what the holder
  has so far, then what is in the channel.\<close>

definition fair_share :: "bytes \<Rightarrow> phase list \<Rightarrow> shared \<Rightarrow> bytes \<Rightarrow> bytes list \<Rightarrow> bool" where
  "fair_share q0 ths s P R \<longleftrightarrow>
     (\<forall>i < length ths. critical (ths ! i) \<longrightarrow> token s \<and> (\<forall>j < length ths. critical (ths ! j) \<longrightarrow> j = i)
        \<and> q0 @ P = concat R @ got_of (ths ! i) @ queue s)
     \<and> (token s \<longrightarrow> (\<exists>i < length ths. critical (ths ! i)))
     \<and> (\<not> token s \<longrightarrow> q0 @ P = concat R @ queue s)"

lemma fair_shareI:
  assumes "\<And>i. i < length ths \<Longrightarrow> critical (ths ! i) \<Longrightarrow> token s \<and> (\<forall>j < length ths. critical (ths ! j) \<longrightarrow> j = i)
        \<and> q0 @ P = concat R @ got_of (ths ! i) @ queue s"
    and "token s \<Longrightarrow> \<exists>i < length ths. critical (ths ! i)"
    and "\<not> token s \<Longrightarrow> q0 @ P = concat R @ queue s"
  shows "fair_share q0 ths s P R"
  using assms unfolding fair_share_def by blast

lemma fair_share_idle:
  assumes "fair_share q0 ths s P R" and "i < length ths" and "\<not> critical (ths ! i)" and "\<not> critical p"
  shows "fair_share q0 (ths[i := p]) s P R"
proof (rule fair_shareI)
  fix j assume j: "j < length (ths[i := p])" "critical (ths[i := p] ! j)"
  then have "j \<noteq> i" using assms(2,4) by auto
  with j have "j < length ths" "critical (ths ! j)" by auto
  with assms(1) have t: "token s" "\<forall>k < length ths. critical (ths ! k) \<longrightarrow> k = j"
    "q0 @ P = concat R @ got_of (ths ! j) @ queue s" unfolding fair_share_def by blast+
  have "k = j" if "k < length (ths[i := p])" "critical (ths[i := p] ! k)" for k
    using that t(2) assms(2,4) by (cases "k = i") auto
  with t \<open>j \<noteq> i\<close> show "token s \<and> (\<forall>k < length (ths[i := p]). critical (ths[i := p] ! k) \<longrightarrow> k = j)
      \<and> q0 @ P = concat R @ got_of (ths[i := p] ! j) @ queue s" by auto
next
  assume "token s"
  with assms(1) obtain j where "j < length ths" "critical (ths ! j)" unfolding fair_share_def by blast
  moreover from this assms(3) have "j \<noteq> i" by auto
  ultimately show "\<exists>j < length (ths[i := p]). critical (ths[i := p] ! j)" by (intro exI [of _ j]) auto
next
  show "\<not> token s \<Longrightarrow> q0 @ P = concat R @ queue s" using assms(1) unfolding fair_share_def by blast
qed

text \<open>The goroutine \<open>i\<close> holds the semaphore after its step, and nobody else did before it.\<close>

lemma fair_share_hold:
  assumes "fair_share q0 ths s P R" and "i < length ths" and "critical p" and "token s'"
    and "\<And>j. j < length ths \<Longrightarrow> critical (ths ! j) \<Longrightarrow> j = i"
    and "q0 @ P' = concat R @ got_of p @ queue s'"
  shows "fair_share q0 (ths[i := p]) s' P' R"
proof (rule fair_shareI)
  fix j assume j: "j < length (ths[i := p])" "critical (ths[i := p] ! j)"
  have only: "k = i" if "k < length (ths[i := p])" "critical (ths[i := p] ! k)" for k
    using that assms(2,5) by (cases "k = i") auto
  with j have "j = i" by blast
  with only assms show "token s' \<and> (\<forall>k < length (ths[i := p]). critical (ths[i := p] ! k) \<longrightarrow> k = j)
      \<and> q0 @ P' = concat R @ got_of (ths[i := p] ! j) @ queue s'" by auto
next
  show "\<exists>j < length (ths[i := p]). critical (ths[i := p] ! j)" using assms(2,3) by (intro exI [of _ i]) simp
next
  show "\<not> token s' \<Longrightarrow> q0 @ P' = concat R @ queue s'" using assms(4) by simp
qed

lemma fair_share_enter:
  assumes "fair_share q0 ths s P R" and "i < length ths" and "\<not> token s" and "critical p" and "got_of p = []"
  shows "fair_share q0 (ths[i := p]) (s\<lparr>token := True\<rparr>) P R"
proof (rule fair_share_hold [OF assms(1,2,4)])
  show "j < length ths \<Longrightarrow> critical (ths ! j) \<Longrightarrow> j = i" for j
    using assms(1,3) unfolding fair_share_def by blast
  show "q0 @ P = concat R @ got_of p @ queue (s\<lparr>token := True\<rparr>)"
    using assms(1,3,5) unfolding fair_share_def by simp
qed simp

lemma fair_share_stay:
  assumes "fair_share q0 ths s P R" and "i < length ths" and "critical (ths ! i)" and "critical p"
    and "q0 @ P' = concat R @ got_of p @ queue s'" and "token s' = token s"
  shows "fair_share q0 (ths[i := p]) s' P' R"
proof (rule fair_share_hold [OF assms(1,2,4)])
  show "j < length ths \<Longrightarrow> critical (ths ! j) \<Longrightarrow> j = i" for j
    using assms(1-3) unfolding fair_share_def by blast
  show "token s'" using assms(1-3,6) unfolding fair_share_def by blast
qed (rule assms(5))

lemma fair_share_leave:
  assumes "fair_share q0 ths s P R" and "i < length ths" and "critical (ths ! i)" and "\<not> critical p"
    and "concat (returned p) = got_of (ths ! i)"
  shows "fair_share q0 (ths[i := p]) (s\<lparr>token := False\<rparr>) P (R @ returned p)"
proof (rule fair_shareI)
  fix j assume j: "j < length (ths[i := p])" "critical (ths[i := p] ! j)"
  have "j \<noteq> i" using j(2) assms(2,4) by auto
  moreover from this j have "j < length ths" "critical (ths ! j)" by auto
  then have "j = i" using assms(1-3) unfolding fair_share_def by blast
  ultimately show "token (s\<lparr>token := False\<rparr>) \<and> (\<forall>k < length (ths[i := p]). critical (ths[i := p] ! k) \<longrightarrow> k = j)
      \<and> q0 @ P = concat (R @ returned p) @ got_of (ths[i := p] ! j) @ queue (s\<lparr>token := False\<rparr>)" by blast
next
  have "q0 @ P = concat R @ got_of (ths ! i) @ queue s" using assms(1-3) unfolding fair_share_def by blast
  with assms(5) show "q0 @ P = concat (R @ returned p) @ queue (s\<lparr>token := False\<rparr>)" by simp
qed simp

lemma fair_share_step:
  assumes "fair_share q0 ths s P R" and "i < length ths" and "advance (ths ! i) s = Some (p, s')" and "p \<noteq> Crashed"
  shows "fair_share q0 (ths[i := p]) s' (P @ pushed (ths ! i)) (R @ returned p)"
proof -
  have held: "q0 @ P = concat R @ got_of (ths ! i) @ queue s" if "critical (ths ! i)"
    using assms(1,2) that unfolding fair_share_def by blast
  show ?thesis
  proof (cases "ths ! i")
    case (Calling n cap)
    with assms(3) have "p = Sized (min cap (length (queue s))) n" "s' = s" by auto
    with Calling fair_share_idle [OF assms(1,2), of p] show ?thesis by simp
  next
    case (Sized k n)
    with assms(3) have "\<not> token s" "p = Copying k n []" "s' = s\<lparr>token := True\<rparr>" by (auto split: if_split_asm)
    with Sized fair_share_enter [OF assms(1,2), of p] show ?thesis by simp
  next
    case c: (Copying k n got)
    show ?thesis
    proof (cases k)
      case 0
      with c assms(3) have "p = Returned got" "s' = s\<lparr>token := False\<rparr>" by auto
      with c fair_share_leave [OF assms(1,2), of p] show ?thesis by simp
    next
      case (Suc l)
      with c assms(3,4) obtain v q where "queue s = v # q" "p = Copying l n (got @ [v])" "s' = s\<lparr>queue := q\<rparr>"
        by (auto split: list.splits if_split_asm)
      with c held fair_share_stay [OF assms(1,2), of p P s'] show ?thesis by simp
    qed
  next
    case (Sending vss)
    with assms(3) obtain vs wss where "\<not> token s" "p = Pushing vs wss" "s' = s\<lparr>token := True\<rparr>"
      by (cases vss) (auto split: if_split_asm)
    with Sending fair_share_enter [OF assms(1,2), of p] show ?thesis by simp
  next
    case c: (Pushing vs vss)
    show ?thesis
    proof (cases vs)
      case Nil
      with c assms(3) have "p = Sending vss" "s' = s\<lparr>token := False\<rparr>" by auto
      with c Nil fair_share_leave [OF assms(1,2), of p] show ?thesis by simp
    next
      case (Cons v ws)
      with c assms(3) have "p = Pushing ws vss" "s' = s\<lparr>queue := queue s @ [v]\<rparr>" by (auto split: if_split_asm)
      with c Cons held fair_share_stay [OF assms(1,2), of p "P @ [v]" s'] show ?thesis by simp
    qed
  qed (use assms(3) in simp_all)
qed

lemma filter_unique:
  assumes "i < length xs" and "Q (xs ! i)" and "\<forall>j < length xs. Q (xs ! j) \<longrightarrow> j = i"
  shows "filter Q xs = [xs ! i]"
proof -
  have "\<not> Q y" if "y \<in> set (take i xs)" for y
  proof -
    from that obtain j where "j < i" "j < length xs" "xs ! j = y" by (auto simp: in_set_conv_nth)
    with assms(3) show ?thesis by (metis less_irrefl)
  qed
  moreover have "\<not> Q y" if "y \<in> set (drop (Suc i) xs)" for y
  proof -
    from that obtain j where "Suc (j + i) < length xs" "y = xs ! Suc (j + i)"
      by (fastforce simp: in_set_conv_nth less_diff_conv add.commute)
    with assms(3) show ?thesis by (metis less_add_Suc2 less_irrefl)
  qed
  ultimately have "filter Q (take i xs @ xs ! i # drop (Suc i) xs) = [xs ! i]" using assms(2) by simp
  then show ?thesis using id_take_nth_drop [OF assms(1)] by simp
qed

lemma fair_share_free:
  assumes "fair_share q0 ths s P R" and "\<not> token s"
  shows "filter critical ths = [] \<and> q0 @ P = concat R @ queue s"
proof -
  have "\<not> critical (ths ! i)" if "i < length ths" for i
    using that assms unfolding fair_share_def by blast
  then have "filter critical ths = []" by (auto simp: filter_empty_conv in_set_conv_nth)
  moreover have "q0 @ P = concat R @ queue s" using assms unfolding fair_share_def by blast
  ultimately show ?thesis ..
qed

lemma fair_share_held:
  assumes "fair_share q0 ths s P R" and "token s"
  shows "\<exists>p. filter critical ths = [p] \<and> q0 @ P = concat R @ got_of p @ queue s"
proof -
  from assms obtain i where i: "i < length ths" "critical (ths ! i)" unfolding fair_share_def by blast
  with assms(1) have "\<forall>j < length ths. critical (ths ! j) \<longrightarrow> j = i" "q0 @ P = concat R @ got_of (ths ! i) @ queue s"
    unfolding fair_share_def by blast+
  with filter_unique [of i ths critical] i show ?thesis by blast
qed

lemma sys_fair_share:
  assumes "sys ths0 s0 ths s P R k" and "\<forall>p \<in> set ths0. fresh p" and "\<not> token s0"
  shows "Crashed \<notin> set ths \<Longrightarrow> fair_share (queue s0) ths s P R"
  using assms
proof (induction rule: sys.induct)
  case init
  have "\<not> critical p" if "p \<in> set ths0" for p
    using init that by (cases p) auto
  then show ?case using init(3) unfolding fair_share_def by (auto dest: nth_mem)
next
  case (step ths s P R k i p s')
  from step.prems(1) step.hyps(2) have "p \<noteq> Crashed" by (auto dest: set_update_memI)
  with step show ?case by (blast intro: fair_share_step)
qed

lemma sys_steps: "sys ths0 s0 ths s P R k \<Longrightarrow> k + sum_list (map weight ths) \<le> sum_list (map weight ths0)"
proof (induction rule: sys.induct)
  case (step ths s P R k i p s')
  from sum_list_update_less [OF step.hyps(2) advance_weight [OF step.hyps(4)]] step.IH show ?case by simp
qed simp

text \<open>The results are what the goroutines hold that have returned.\<close>

lemma returned_before: "advance p s = Some r \<Longrightarrow> returned p = []"
  by (cases p) simp_all

lemma mset_concat_update:
  "i < length xs \<Longrightarrow> f (xs ! i) = [] \<Longrightarrow> mset (concat (map f (xs[i := y]))) = mset (concat (map f xs)) + mset (f y)"
  by (induction xs arbitrary: i) (auto split: nat.split)

lemma sys_results: "sys ths0 s0 ths s P R k \<Longrightarrow> \<forall>p \<in> set ths0. fresh p \<Longrightarrow> mset (concat (map returned ths)) = mset R"
proof (induction rule: sys.induct)
  case init
  then have "returned p = []" if "p \<in> set ths0" for p using that by (cases p) auto
  then show ?case by simp
next
  case (step ths s P R k i p s')
  then show ?case by (simp add: mset_concat_update returned_before)
qed

section \<open>One reader\<close>

text \<open>With one reader and a payload that fits, what is still to be moved is always there to be moved, and
  there is room for it; the reader gets \<open>m\<close> bytes at least, as many as there were for it at the start.\<close>

fun reader_ok :: "nat \<Rightarrow> phase \<Rightarrow> bytes \<Rightarrow> bool" where
  "reader_ok m (Calling n cap) q \<longleftrightarrow> cap = n \<and> m \<le> n \<and> m \<le> length q"
| "reader_ok m (Sized k n) q \<longleftrightarrow> m \<le> k \<and> k \<le> n \<and> k \<le> length q"
| "reader_ok m (Copying k n got) q \<longleftrightarrow> m \<le> length got + k \<and> length got + k \<le> n \<and> k \<le> length q"
| "reader_ok m (Returned got) q \<longleftrightarrow> m \<le> length got"
| "reader_ok m p q \<longleftrightarrow> False"

fun writer_ok :: "phase \<Rightarrow> bytes \<Rightarrow> bool" where
  "writer_ok (Sending vss) q \<longleftrightarrow> length q + length (concat vss) \<le> CHAN_CAP"
| "writer_ok (Pushing vs vss) q \<longleftrightarrow> length q + length vs + length (concat vss) \<le> CHAN_CAP"
| "writer_ok p q \<longleftrightarrow> False"

fun unsent :: "phase \<Rightarrow> bytes" where
  "unsent (Sending vss) = concat vss"
| "unsent (Pushing vs vss) = vs @ concat vss"
| "unsent p = []"

lemma reader_moves:
  assumes "reader_ok m r (queue s)" and "writer_ok w (queue s)" and "advance r s = Some (p, s')"
  shows "reader_ok m p (queue s') \<and> writer_ok w (queue s') \<and> pushed r = []"
proof (cases r)
  case c: (Copying k n got)
  show ?thesis
  proof (cases k)
    case (Suc l)
    with assms c show ?thesis by (cases w) (auto split: list.splits if_split_asm)
  qed (use assms c in auto)
qed (use assms in \<open>auto split: if_split_asm\<close>)

lemma writer_moves:
  assumes "reader_ok m r (queue s)" and "writer_ok w (queue s)" and "advance w s = Some (p, s')"
  shows "reader_ok m r (queue s') \<and> writer_ok p (queue s') \<and> unsent w = pushed w @ unsent p"
proof (cases w)
  case c: (Pushing vs vss)
  show ?thesis
  proof (cases vs)
    case (Cons v ws)
    with assms c show ?thesis by (cases r) (auto split: if_split_asm)
  qed (use assms c in auto)
next
  case (Sending vss)
  with assms show ?thesis by (cases vss) (auto split: if_split_asm)
qed (use assms in \<open>auto split: if_split_asm\<close>)

lemma sys_one_reader:
  assumes "sys [Calling n n, Sending vss] s0 ths s P R k" and "length (queue s0) + length (concat vss) \<le> CHAN_CAP"
  obtains r w where "ths = [r, w]" "reader_ok (min n (length (queue s0))) r (queue s)" "writer_ok w (queue s)"
    "P @ unsent w = concat vss"
proof -
  let ?m = "min n (length (queue s0))"
  from assms have "\<exists>r w. ths = [r, w] \<and> reader_ok ?m r (queue s) \<and> writer_ok w (queue s) \<and> P @ unsent w = concat vss"
  proof (induction rule: sys.induct)
    case (step ths s P R k i p s')
    then obtain r w where t: "ths = [r, w]" "reader_ok ?m r (queue s)" "writer_ok w (queue s)" "P @ unsent w = concat vss"
      by blast
    with step.hyps(2) have "i = 0 \<or> i = 1" by auto
    then show ?case
    proof
      assume "i = 0"
      with t step.hyps(4) reader_moves [OF t(2,3), of p s'] show ?thesis by simp
    next
      assume "i = 1"
      with t step.hyps(4) writer_moves [OF t(2,3), of p s'] show ?thesis by auto
    qed
  qed simp
  then show thesis using that by blast
qed

text \<open>A goroutine that cannot move then either is done or waits for the semaphore.\<close>

lemma reader_stuck:
  "reader_ok m r (queue s) \<Longrightarrow> advance r s = None \<Longrightarrow> (\<exists>got. r = Returned got) \<or> token s \<and> \<not> critical r"
proof (induction r)
  case (Copying k n got)
  then show ?case by (cases k) (auto split: list.splits)
qed (auto split: if_split_asm)

lemma writer_stuck: "writer_ok w (queue s) \<Longrightarrow> advance w s = None \<Longrightarrow> w = Sending [] \<or> token s \<and> \<not> critical w"
proof (induction w)
  case (Pushing vs vss)
  then show ?case by (cases vs) (auto split: if_split_asm)
next
  case (Sending vss)
  then show ?case by (cases vss) (auto split: if_split_asm)
qed (auto split: if_split_asm)

lemma one_reader_done:
  assumes "sys [Calling n n, Sending vss] \<lparr>queue = q, token = False\<rparr> ths s P R k"
    and "length q + length (concat vss) \<le> CHAN_CAP" and "stuck ths s"
  obtains got where "ths = [Returned got, Sending []]" "R = [got]" "got @ queue s = q @ concat vss" "min n (length q) \<le> length got"
proof -
  from sys_one_reader [OF assms(1)] assms(2) obtain r w where
    t: "ths = [r, w]" "reader_ok (min n (length q)) r (queue s)" "writer_ok w (queue s)" "P @ unsent w = concat vss" by auto
  then have "Crashed \<notin> set ths" by auto
  with sys_fair_share [OF assms(1)] have f: "fair_share q [r, w] s P R" by (simp add: t(1))
  have n: "advance r s = None" "advance w s = None" using assms(3) by (simp_all add: stuck_def t(1))
  have "\<not> token s"
  proof
    assume "token s"
    with f have "critical r \<or> critical w" unfolding fair_share_def by (auto simp: less_Suc_eq)
    with reader_stuck [OF t(2) n(1)] writer_stuck [OF t(3) n(2)] show False by auto
  qed
  with reader_stuck [OF t(2) n(1)] writer_stuck [OF t(3) n(2)] obtain got where g: "r = Returned got" "w = Sending []"
    by blast
  with sys_results [OF assms(1)] t(1) have "R = [got]" by simp
  moreover from this f \<open>\<not> token s\<close> t(4) g have "got @ queue s = q @ concat vss" unfolding fair_share_def by simp
  ultimately show thesis using that t g by simp
qed

section \<open>Uninterrupted calls\<close>

text \<open>A goroutine that is alone for a while: a reader takes what it counted, a writer pushes what fits.\<close>

lemma sys_copies:
  "sys ths0 s0 ths \<lparr>queue = q @ q', token = True\<rparr> P R k \<Longrightarrow> i < length ths \<Longrightarrow> Crashed \<notin> set ths \<Longrightarrow>
   ths ! i = Copying (length q) n got \<Longrightarrow> length got + length q \<le> n \<Longrightarrow>
   \<exists>k'. sys ths0 s0 (ths[i := Copying 0 n (got @ q)]) \<lparr>queue = q', token = True\<rparr> P R k'"
proof (induction q arbitrary: ths got k)
  case Nil
  then have "ths[i := Copying 0 n (got @ [])] = ths" using list_update_id [of ths i] by simp
  with Nil show ?case by auto
next
  case (Cons v q)
  let ?p = "Copying (length q) n (got @ [v])"
  from Cons.prems sys.step [OF Cons.prems(1-3), of ?p "\<lparr>queue = q @ q', token = True\<rparr>"]
  have "sys ths0 s0 (ths[i := ?p]) \<lparr>queue = q @ q', token = True\<rparr> P R (Suc k)" by simp
  moreover have "Crashed \<notin> set (ths[i := ?p])"
    using Cons.prems(3) set_update_subset_insert [of ths i ?p] by auto
  ultimately show ?case using Cons.IH [of "ths[i := ?p]" "Suc k" "got @ [v]"] Cons.prems(2,5) by simp
qed

lemma sys_pushes:
  "sys ths0 s0 [Pushing vs []] \<lparr>queue = q, token = True\<rparr> P R k \<Longrightarrow> push_all q vs = ret q' \<Longrightarrow>
   \<exists>k'. sys ths0 s0 [Pushing [] []] \<lparr>queue = q', token = True\<rparr> (P @ vs) R k'"
proof (induction vs arbitrary: q P k)
  case (Cons v vs)
  from Cons.prems(2) have "length q < CHAN_CAP" "push_all (q @ [v]) vs = ret q'" by (simp_all split: if_split_asm)
  with Cons.IH [of "q @ [v]" "P @ [v]" "Suc k"] sys.step [OF Cons.prems(1), of 0 "Pushing vs []" "\<lparr>queue = q @ [v], token = True\<rparr>"]
  show ?case by simp
qed auto

text \<open>\<open>Read\<close> and the run loop's push as the other theories have them, in one go, are such interleavings.\<close>

lemma Read_is_interleaving:
  assumes "Read n cap conn = ret (got, conn')" and "readChan conn = Some q"
  shows "\<exists>q' k. readChan conn' = Some q'
    \<and> sys [Calling n cap] \<lparr>queue = q, token = False\<rparr> [Returned got] \<lparr>queue = q', token = False\<rparr> [] [got] k"
proof -
  let ?a = "min cap (length q)"
  from assms have r: "got = take ?a q" "readChan conn' = Some (drop ?a q)" "?a \<le> n"
    by (auto simp: Read_def Let_def split: option.splits if_split_asm)
  have "sched [0, 0] [Calling n cap] \<lparr>queue = q, token = False\<rparr>
      = Some ([Copying (length got) n []], \<lparr>queue = got @ drop ?a q, token = True\<rparr>, [], [])"
    by (simp add: r(1))
  from sys_copies [OF sched_sys [OF this], of 0 n "[]"] r obtain k where
    "sys [Calling n cap] \<lparr>queue = q, token = False\<rparr> [Copying 0 n got] \<lparr>queue = drop ?a q, token = True\<rparr> [] [] k"
    by auto
  from sched_continues [OF this, of "[0]"] r(2) show ?thesis by auto
qed

lemma push_all_is_interleaving:
  assumes "push_all q vs = ret q'"
  shows "\<exists>k. sys [Sending [vs]] \<lparr>queue = q, token = False\<rparr> [Sending []] \<lparr>queue = q', token = False\<rparr> vs [] k"
proof -
  have "sched [0] [Sending [vs]] \<lparr>queue = q, token = False\<rparr> = Some ([Pushing vs []], \<lparr>queue = q, token = True\<rparr>, [], [])" by simp
  from sys_pushes [OF sched_sys [OF this] assms] obtain k where
    "sys [Sending [vs]] \<lparr>queue = q, token = False\<rparr> [Pushing [] []] \<lparr>queue = q', token = True\<rparr> vs [] k" by auto
  from sched_continues [OF this, of "[0]"] show ?thesis by auto
qed

section \<open>One run loop\<close>

text \<open>The run loop is one goroutine: what it has pushed is the beginning of the payloads, in their order.\<close>

fun reader :: "phase \<Rightarrow> bool" where
  "reader (Sending vss) \<longleftrightarrow> False"
| "reader (Pushing vs vss) \<longleftrightarrow> False"
| "reader p \<longleftrightarrow> True"

lemma advance_reader: "reader r \<Longrightarrow> advance r s = Some (p, s') \<Longrightarrow> reader p \<and> pushed r = []"
proof (cases r)
  case (Copying k n got)
  moreover assume "advance r s = Some (p, s')"
  ultimately show ?thesis by (cases k) (auto split: if_split_asm list.splits)
qed (auto split: if_split_asm)

lemma advance_writer:
  "\<not> reader w \<Longrightarrow> advance w s = Some (p, s') \<Longrightarrow> \<not> reader p \<and> unsent w = pushed w @ unsent p"
proof (cases w)
  case (Pushing vs vss)
  moreover assume "advance w s = Some (p, s')"
  ultimately show ?thesis by (cases vs) (auto split: if_split_asm)
next
  case (Sending vss)
  moreover assume "advance w s = Some (p, s')"
  ultimately show ?thesis by (cases vss) (auto split: if_split_asm)
qed simp_all

lemma sys_one_writer:
  assumes "sys (w0 # rs0) s0 ths s P R k" and "\<not> reader w0" and "\<forall>r \<in> set rs0. reader r"
  shows "\<exists>w rs. ths = w # rs \<and> \<not> reader w \<and> (\<forall>r \<in> set rs. reader r) \<and> P @ unsent w = unsent w0"
  using assms
proof (induction rule: sys.induct)
  case (step ths s P R k i p s')
  then obtain w rs where t: "ths = w # rs" "\<not> reader w" "\<forall>r \<in> set rs. reader r" "P @ unsent w = unsent w0" by blast
  show ?case
  proof (cases i)
    case 0
    with t step.hyps(4) advance_writer [of w s p s'] show ?thesis by auto
  next
    case (Suc j)
    with t step.hyps(2) have "reader (rs ! j)" by simp
    with Suc t step.hyps(4) advance_reader [of "rs ! j" s p s'] show ?thesis
      by (auto dest: set_update_subset_insert [THEN subsetD])
  qed
qed simp

section \<open>Properties\<close>

text \<open>C38. The run loop with the payloads of any number of segments, and any number of goroutines in \<open>Read\<close> on the
  same connection, interleaved in any order: as long as no reader has indexed past its slice, at most one goroutine is
  between its two operations on \<open>sem\<close>, and exactly one when \<open>sem\<close> is taken. What the run loop has pushed is the
  beginning of the payloads; the bytes that were in the channel and those pushed since come out in order and
  each once: the results of the reads in the order they return, then what the reader holding \<open>sem\<close> has, then
  the channel. The results are what the readers return.\<close>

theorem reads_share_stream:
  assumes "sys (Sending vss # map (\<lambda>(n, cap). Calling n cap) bufs) \<lparr>queue = q, token = False\<rparr> ths s P R k"
    and "Crashed \<notin> set ths"
  shows "length (filter critical ths) = (if token s then 1 else 0)
    \<and> P @ unsent (hd ths) = concat vss
    \<and> q @ P = concat R @ concat (map got_of (filter critical ths)) @ queue s
    \<and> mset R = mset (concat (map returned ths))"
proof -
  have fresh: "\<forall>p \<in> set (Sending vss # map (\<lambda>(n, cap). Calling n cap) bufs). fresh p" by auto
  have f: "fair_share q ths s P R" using sys_fair_share [OF assms(1) fresh] assms(2) by simp
  have "mset R = mset (concat (map returned ths))" using sys_results [OF assms(1) fresh] by simp
  moreover have "P @ unsent (hd ths) = concat vss" using sys_one_writer [OF assms(1)] by (auto simp: case_prod_beta)
  ultimately show ?thesis
    using fair_share_free [OF f] fair_share_held [OF f] by (cases "token s") auto
qed

theorem reads_share_stream_witness:
  "\<exists>P k. sys [Sending [[7], [8]], Calling 2 2, Calling 1 1] \<lparr>queue = [5, 6], token = False\<rparr>
     [Sending [[8]], Copying 1 2 [5], Sized 1 1] \<lparr>queue = [6, 7], token = True\<rparr> P [] k \<and> [5, 6] @ P = [5, 6, 7]"
proof -
  have "sys (Sending [[7], [8]] # map (\<lambda>(n, cap). Calling n cap) [(2, 2), (1, 1)]) \<lparr>queue = [5, 6], token = False\<rparr>
     [Sending [[8]], Copying 1 2 [5], Sized 1 1] \<lparr>queue = [6, 7], token = True\<rparr> [7] [] (length [1, 2, 0, 0, 0, 1, 1 :: nat])"
    by (rule sched_sys) (simp add: numeral_2_eq_2 CHAN_CAP_def)
  moreover from reads_share_stream [OF this] have "[5, 6] @ [7] = [5, 6, 7 :: u8]" by simp
  ultimately show ?thesis by auto
qed

text \<open>C39. One goroutine in \<open>Read\<close>, and the run loop with payloads that fit together: every interleaving ends,
  after at most as many steps as there are bytes, two for each payload and a constant, and it ends with \<open>Read\<close>
  returned and everything pushed. The read returns at least what was there when it was called, up to the
  length of its slice, and returned and remaining bytes make up the stream.\<close>

theorem one_reader_returns:
  assumes "sys [Calling n n, Sending vss] \<lparr>queue = q, token = False\<rparr> ths s P R k"
    and "length q + length (concat vss) \<le> CHAN_CAP"
  shows "k \<le> n + 4 + length (concat vss) + 2 * length vss
    \<and> (stuck ths s \<longrightarrow> (\<exists>got. ths = [Returned got, Sending []] \<and> R = [got] \<and> got @ queue s = q @ concat vss
        \<and> min n (length q) \<le> length got))"
proof
  show "k \<le> n + 4 + length (concat vss) + 2 * length vss" using sys_steps [OF assms(1)] by simp
  show "stuck ths s \<longrightarrow> (\<exists>got. ths = [Returned got, Sending []] \<and> R = [got] \<and> got @ queue s = q @ concat vss
      \<and> min n (length q) \<le> length got)"
    using one_reader_done [OF assms] by metis
qed

theorem one_reader_returns_witness:
  "\<exists>k. sys [Calling 2 2, Sending [[7], [8]]] \<lparr>queue = [5], token = False\<rparr>
     [Returned [5], Sending []] \<lparr>queue = [7, 8], token = False\<rparr> [7, 8] [[5]] k \<and> k \<le> 12"
proof -
  have "sys [Calling 2 2, Sending [[7], [8]]] \<lparr>queue = [5], token = False\<rparr>
     [Returned [5], Sending []] \<lparr>queue = [7, 8], token = False\<rparr> [7, 8] [[5]] (length [0, 1, 1, 1, 0, 0, 0, 1, 1, 1 :: nat])"
    by (rule sched_sys) (simp add: CHAN_CAP_def)
  moreover from one_reader_returns [OF this] have "length [0, 1, 1, 1, 0, 0, 0, 1, 1, 1 :: nat] \<le> 12"
    by (simp add: CHAN_CAP_def)
  ultimately show ?thesis by blast
qed

text \<open>C40. Two goroutines in \<open>Read\<close> and bytes in the channel for both to see: there is an interleaving in which
  both find the same bytes, the first takes them, and the second waits for bytes while it holds \<open>sem\<close>. The run
  loop, with the next payload, waits for \<open>sem\<close>: nobody ever moves again.\<close>

theorem readers_deadlock:
  assumes "q \<noteq> []" and "length q \<le> n" and "length q \<le> n'"
  shows "\<exists>P k. sys [Calling n n, Calling n' n', Sending (vs # vss)] \<lparr>queue = q, token = False\<rparr>
      [Returned q, Copying (length q) n' [], Sending (vs # vss)] \<lparr>queue = [], token = True\<rparr> P [q] k
    \<and> stuck [Returned q, Copying (length q) n' [], Sending (vs # vss)] \<lparr>queue = [], token = True\<rparr>"
proof -
  let ?w = "Sending (vs # vss)"
  let ?ths = "[Calling n n, Calling n' n', ?w]" and ?s = "\<lparr>queue = q, token = False\<rparr>"
  have "sched [0, 1, 0] ?ths ?s
      = Some ([Copying (length q) n [], Sized (length q) n', ?w], \<lparr>queue = q @ [], token = True\<rparr>, [], [])"
    using assms by simp
  from sys_copies [OF sched_sys [OF this], of 0 n "[]"] assms obtain k where
    "sys ?ths ?s [Copying 0 n q, Sized (length q) n', ?w] \<lparr>queue = [], token = True\<rparr> [] [] k" by auto
  from sched_continues [OF this, of "[0, 1]"]
  have "sys ?ths ?s [Returned q, Copying (length q) n' [], ?w] \<lparr>queue = [], token = True\<rparr> [] [q] (k + 2)" by simp
  moreover have "stuck [Returned q, Copying (length q) n' [], ?w] \<lparr>queue = [], token = True\<rparr>"
    using assms(1) by (cases q) (simp_all add: stuck_def)
  ultimately show ?thesis by blast
qed

theorem readers_deadlock_witness:
  "\<exists>P k. sys [Calling 4 4, Calling 2 2, Sending [[9]]] \<lparr>queue = [1, 2], token = False\<rparr>
      [Returned [1, 2], Copying 2 2 [], Sending [[9]]] \<lparr>queue = [], token = True\<rparr> P [[1, 2]] k
    \<and> stuck [Returned [1, 2], Copying 2 2 [], Sending [[9]]] \<lparr>queue = [], token = True\<rparr>"
  using readers_deadlock [of "[1, 2]" 4 2 "[9]" "[]"] by (simp add: numeral_2_eq_2)

end
