(* ===== verification/Protocol.thy ===== *)
theory Protocol
  imports RB_Walk Ethernet
begin

unbundle bit_operations_syntax

text \<open>
  \<open>net/protocol\<close> and \<open>stack\<close>: protocols registered in one tree per layer and served round-robin.
  Protocols are pointers (numbers) into a table of records; the trees of all layers share the node
  store of \<open>RB_Node\<close>, and a tree is a position in the list of roots. The packages \<open>constant\<close> (layer
  numbers) and the queue part of \<open>skb\<close> (\<open>SkBuffHead\<close>, \<open>SkbQueueEmpty\<close>, \<open>SkbDeQueue\<close>) are not
  under \<open>src/\<close>, and a protocol's processing functions are values it carries: all of them are
  fields of \<open>env\<close>, a parameter. The code reads the tree's \<open>Root\<close> and \<open>KeyValue\<close>, which
  \<open>rbtree.go\<close> declares as \<open>root\<close> and \<open>keyValue\<close>.
\<close>

section \<open>Data\<close>

definition LOOP_DIR_IN :: int where "LOOP_DIR_IN = 1"
definition LOOP_DIR_OUT :: int where "LOOP_DIR_OUT = 2"

record 'q ZBProtocol =
  Name :: string
  Hash :: u32
  Layer :: u8
  ProtoNumber :: u16
  QueueIn :: "'q option"
  QueueOut :: "'q option"

type_synonym 'q protos = "nat \<Rightarrow> 'q ZBProtocol"

record 'q env =
  ZB_LAYER_DATALINK :: u8
  ZB_LAYER_NETWORK :: u8
  ZB_LAYER_TRANSPORT :: u8
  ZB_LAYER_SOCKET :: u8
  SkbQueueEmpty :: "'q \<Rightarrow> bool"
  SkbDeQueue :: "'q \<Rightarrow> SkBuff option \<times> 'q"
  ProcessIn :: "nat \<Rightarrow> SkBuff \<Rightarrow> 'q protos \<Rightarrow> (int \<times> 'q protos) go"
  ProcessOut :: "nat \<Rightarrow> SkBuff \<Rightarrow> 'q protos \<Rightarrow> (int \<times> 'q protos) go"

text \<open>The four global variables \<open>ProtoRR...\<close>; a tree pointer may be nil, and so may the nodes.\<close>

datatype rr_name = ProtoRRDatalink | ProtoRRNetwork | ProtoRRTransport | ProtoRRSocket

record ZBProtoRR =
  rbtree :: "nat option"
  nodeIn :: nptr
  nodeOut :: nptr

record 'q proto_state =
  pstore :: "nat RBtree"
  roots :: "nptr list"
  protos :: "'q protos"
  rrs :: "rr_name \<Rightarrow> ZBProtoRR"

definition init_state :: "'q protos \<Rightarrow> 'q proto_state" where
  "init_state ps = \<lparr>pstore = init_store, roots = [], protos = ps,
     rrs = (\<lambda>_. \<lparr>rbtree = None, nodeIn = NilP, nodeOut = NilP\<rparr>)\<rparr>"

section \<open>Header tests\<close>

text \<open>The argument is an interface: anything but a packet buffer that is not nil gives false.\<close>

definition IS_IPV6 :: "SkBuff option \<Rightarrow> bool go" where
  "IS_IPV6 v = (case v of None \<Rightarrow> ret False
     | Some s \<Rightarrow> bnd (at_index (Buffer s) (unat (NetworkIndex s))) (\<lambda>b. ret (b AND 0xf0 = 0x60)))"

definition IS_IPV4 :: "SkBuff option \<Rightarrow> bool go" where
  "IS_IPV4 v = (case v of None \<Rightarrow> ret False
     | Some s \<Rightarrow> bnd (at_index (Buffer s) (unat (NetworkIndex s))) (\<lambda>b. ret (b AND 0xf0 = 0x40)))"

section \<open>Registration\<close>

text \<open>\<open>crc32.NewIEEE\<close>: the reflected polynomial \<open>0xEDB88320\<close>, bit by bit.\<close>

fun crc_bits :: "nat \<Rightarrow> u32 \<Rightarrow> u32" where
  "crc_bits 0 c = c"
| "crc_bits (Suc n) c = crc_bits n (if odd (unat c) then drop_bit 1 c XOR 0xEDB88320 else drop_bit 1 c)"

definition crc32 :: "string \<Rightarrow> u32" where
  "crc32 s = NOT (foldl (\<lambda>c x. crc_bits 8 (c XOR of_nat (of_char x))) (NOT 0) s)"

text \<open>A key that is not a \<open>*ZBProtocol\<close> leaves a nil pointer, whose \<open>Hash\<close> cannot be read.\<close>

definition protocmp :: "'q protos \<Rightarrow> nat compare_func" where
  "protocmp ps ka kb =
     (case ka of None \<Rightarrow> panic NilDeref | Some a \<Rightarrow>
     (case kb of None \<Rightarrow> panic NilDeref | Some b \<Rightarrow>
      if Hash (ps a) < Hash (ps b) then ret (-1)
      else if Hash (ps a) > Hash (ps b) then ret (-1) else ret 0))"

text \<open>\<open>tree.Insert(p)\<close> on the tree at position \<open>t\<close>, with the chunk \<open>a\<close> from the pool.\<close>

definition tree_insert :: "nat \<Rightarrow> nat \<Rightarrow> nat \<Rightarrow> 'q proto_state \<Rightarrow> 'q proto_state go" where
  "tree_insert t a p s =
     bnd (Insert (protocmp (protos s)) a (Some p) ((pstore s)\<lparr>root := roots s ! t\<rparr>)) (\<lambda>(r, m).
     ret (s\<lparr>pstore := m, roots := (roots s)[t := root m]\<rparr>))"

definition set_tree :: "rr_name \<Rightarrow> nat \<Rightarrow> 'q proto_state \<Rightarrow> 'q proto_state" where
  "set_tree x t s = s\<lparr>rrs := (rrs s)(x := (rrs s x)\<lparr>rbtree := Some t\<rparr>)\<rparr>"

definition reset_nodes :: "rr_name \<Rightarrow> 'q proto_state \<Rightarrow> 'q proto_state" where
  "reset_nodes x s = s\<lparr>rrs := (rrs s)(x := (rrs s x)\<lparr>nodeIn := NilP, nodeOut := NilP\<rparr>)\<rparr>"

definition ProtocolInit :: "'q env \<Rightarrow> nat \<Rightarrow> nat option \<Rightarrow> 'q proto_state \<Rightarrow> 'q proto_state go" where
  "ProtocolInit e a q s =
     (case q of None \<Rightarrow> ret s | Some p \<Rightarrow>
      let n = length (roots s);
          s = s\<lparr>roots := roots s @ map root [InitTree (pstore s), InitTree (pstore s), InitTree (pstore s), InitTree (pstore s)]\<rparr>;
          s = set_tree ProtoRRDatalink n s;
          s = set_tree ProtoRRNetwork (n + 1) s;
          s = set_tree ProtoRRTransport (n + 2) s;
          s = set_tree ProtoRRTransport (n + 3) s;
          s = s\<lparr>protos := (protos s)(p := (protos s p)\<lparr>Hash := crc32 (Name (protos s p))\<rparr>)\<rparr>;
          l = Layer (protos s p) in
      if l = ZB_LAYER_DATALINK e then bnd (tree_insert n a p s) (\<lambda>s. ret (reset_nodes ProtoRRDatalink s))
      else if l = ZB_LAYER_NETWORK e then bnd (tree_insert (n + 1) a p s) (\<lambda>s. ret (reset_nodes ProtoRRNetwork s))
      else if l = ZB_LAYER_TRANSPORT e then bnd (tree_insert (n + 2) a p s) (\<lambda>s. ret (reset_nodes ProtoRRTransport s))
      else if l = ZB_LAYER_SOCKET e then bnd (tree_insert (n + 3) a p s) (\<lambda>s. ret (reset_nodes ProtoRRSocket s))
      else ret s)"

definition InitStack :: "'q env \<Rightarrow> nat \<Rightarrow> nat \<Rightarrow> nat option \<Rightarrow> nat option \<Rightarrow> 'q proto_state \<Rightarrow> 'q proto_state go" where
  "InitStack e a b ipv4 tcp s =
     bnd (ProtocolInit e a ipv4 s) (\<lambda>s. ProtocolInit e b tcp s)"

section \<open>Serving one protocol\<close>

partial_function (option) protoLoopIn ::
  "'q env \<Rightarrow> nat \<Rightarrow> int \<Rightarrow> 'q protos \<Rightarrow> (int \<times> 'q protos) go" where
  "protoLoopIn e p score ps =
     (if score > 0 then
        (case QueueIn (ps p) of None \<Rightarrow> ret (score, ps)
         | Some x \<Rightarrow>
             if SkbQueueEmpty e x then ret (score, ps) else
             let ps = ps(p := (ps p)\<lparr>QueueIn := Some (snd (SkbDeQueue e x))\<rparr>) in
             (case fst (SkbDeQueue e x) of None \<Rightarrow> protoLoopIn e p score ps
              | Some s \<Rightarrow> bnd (ProcessIn e p s ps) (\<lambda>r.
                  protoLoopIn e p (if fst r > 0 then score - 1 else score) (snd r))))
      else ret (score, ps))"

partial_function (option) protoLoopOut ::
  "'q env \<Rightarrow> nat \<Rightarrow> int \<Rightarrow> 'q protos \<Rightarrow> (int \<times> 'q protos) go" where
  "protoLoopOut e p score ps =
     (if score > 0 then
        (case QueueOut (ps p) of None \<Rightarrow> ret (score, ps)
         | Some x \<Rightarrow>
             if SkbQueueEmpty e x then ret (score, ps) else
             let ps = ps(p := (ps p)\<lparr>QueueOut := Some (snd (SkbDeQueue e x))\<rparr>) in
             (case fst (SkbDeQueue e x) of None \<Rightarrow> protoLoopOut e p score ps
              | Some s \<Rightarrow> bnd (ProcessOut e p s ps) (\<lambda>r.
                  protoLoopOut e p (if fst r > 0 then score - 1 else score) (snd r))))
      else ret (score, ps))"

definition protoLoop :: "'q env \<Rightarrow> nat \<Rightarrow> int \<Rightarrow> int \<Rightarrow> 'q protos \<Rightarrow> (int \<times> 'q protos) go" where
  "protoLoop e p score direction ps =
     (if direction = LOOP_DIR_IN then protoLoopIn e p score ps
      else if direction = LOOP_DIR_OUT then protoLoopOut e p score ps
      else ret (score, ps))"

section \<open>Serving a layer\<close>

definition tree_root :: "'q proto_state \<Rightarrow> ZBProtoRR \<Rightarrow> nptr go" where
  "tree_root s rr = (case rbtree rr of None \<Rightarrow> panic NilDeref | Some t \<Rightarrow> ret (roots s ! t))"

definition roundrobinInit :: "'q proto_state \<Rightarrow> ZBProtoRR \<Rightarrow> int \<Rightarrow> (nptr \<times> ZBProtoRR) go" where
  "roundrobinInit s rr direction =
     bnd (if nodeIn rr = NilP
          then bnd (tree_root s rr) (\<lambda>r. bnd (TreeFirstNode (pstore s) r) (\<lambda>f. ret (rr\<lparr>nodeIn := f\<rparr>)))
          else ret rr) (\<lambda>rr.
     bnd (if nodeOut rr = NilP
          then bnd (tree_root s rr) (\<lambda>r. bnd (TreeFirstNode (pstore s) r) (\<lambda>f. ret (rr\<lparr>nodeOut := f\<rparr>)))
          else ret rr) (\<lambda>rr.
     ret (if direction = LOOP_DIR_IN then nodeIn rr else nodeOut rr, rr)))"

definition roundrobinEnd :: "ZBProtoRR \<Rightarrow> int \<Rightarrow> nptr \<Rightarrow> ZBProtoRR" where
  "roundrobinEnd rr direction last_node =
     (if direction = LOOP_DIR_IN then rr\<lparr>nodeIn := last_node\<rparr> else rr\<lparr>nodeOut := last_node\<rparr>)"

text \<open>The round-robin loop over the store \<open>m\<close> and the tree with root \<open>r\<close>: the score left, the
  protocols, and the node the next round starts from.\<close>

partial_function (option) rr_loop ::
  "'q env \<Rightarrow> nat RBtree \<Rightarrow> nptr go \<Rightarrow> int \<Rightarrow> nat item \<Rightarrow> int \<Rightarrow> nptr \<Rightarrow> nat item \<Rightarrow> 'q protos
   \<Rightarrow> (int \<times> 'q protos \<times> nptr) go" where
  "rr_loop e m r direction start score node next ps =
     (case next of None \<Rightarrow> ret (score, ps, node)
      | Some p \<Rightarrow>
          if score > 1 then
            bnd (protoLoop e p score direction ps) (\<lambda>sp.
            bnd (TreeNext m node) (\<lambda>node.
            bnd (ld m node keyValue) (\<lambda>next.
            bnd (if next = None
                 then bnd r (\<lambda>r. bnd (TreeFirstNode m r) (\<lambda>node. bnd (ld m node keyValue) (\<lambda>next. ret (node, next))))
                 else ret (node, next)) (\<lambda>nn.
            if snd nn = start then ret (fst sp, snd sp, fst nn)
            else rr_loop e m r direction start (fst sp) (fst nn) (snd nn) (snd sp)))))
          else ret (score, ps, node))"

definition ZBProtocolGenericLoop ::
  "'q env \<Rightarrow> rr_name \<Rightarrow> int \<Rightarrow> int \<Rightarrow> 'q proto_state \<Rightarrow> (int \<times> 'q proto_state) go" where
  "ZBProtocolGenericLoop e x loopScore direction s =
     bnd (roundrobinInit s (rrs s x) direction) (\<lambda>(nextNode, rr).
     let s = s\<lparr>rrs := (rrs s)(x := rr)\<rparr> in
     if nextNode = NilP then ret (loopScore, s) else
     bnd (ld (pstore s) nextNode keyValue) (\<lambda>start.
     bnd (rr_loop e (pstore s) (tree_root s rr) direction start loopScore nextNode start (protos s)) (\<lambda>(score, ps, node).
     ret (score, s\<lparr>protos := ps, rrs := (rrs s)(x := roundrobinEnd rr direction node)\<rparr>))))"

definition DataLinkProtocol :: u8 where [simp]: "DataLinkProtocol = 0"
definition NetworkProtocol :: u8 where [simp]: "NetworkProtocol = 1"
definition TransportProtocol :: u8 where [simp]: "TransportProtocol = 2"
definition SocketProtocol :: u8 where [simp]: "SocketProtocol = 3"

definition ProtocolLoop :: "'q env \<Rightarrow> int \<Rightarrow> int \<Rightarrow> u8 \<Rightarrow> 'q proto_state \<Rightarrow> (int \<times> 'q proto_state) go" where
  "ProtocolLoop e loop_score direction layer s =
     (if layer = DataLinkProtocol then ZBProtocolGenericLoop e ProtoRRDatalink loop_score direction s
      else if layer = NetworkProtocol then ZBProtocolGenericLoop e ProtoRRNetwork loop_score direction s
      else if layer = TransportProtocol then ZBProtocolGenericLoop e ProtoRRTransport loop_score direction s
      else if layer = SocketProtocol then ZBProtocolGenericLoop e ProtoRRSocket loop_score direction s
      else ret (-1, s))"

end
