(* ===== verification/Protocol_Ring.thy ===== *)
theory Protocol_Ring
  imports Protocol
begin

text \<open>
  The round-robin loop as a walk once round a ring: walks do not read the root of the store, one step
  of the loop is one step along the keys in order, a call serves a stretch of the ring that starts at
  the layer's cursor, and successive calls serve successive stretches.
\<close>

section \<open>Loads and walks do not read the root\<close>

lemma deref_root [simp]: "deref (m\<lparr>root := r\<rparr>) p = deref m p"
  by (cases p) simp_all

lemma ld_root [simp]: "ld (m\<lparr>root := r\<rparr>) p f = ld m p f"
  by (simp add: ld_def)

lemma child_root [simp]:
  "AM_I_LEFT_CHILD (m\<lparr>root := r\<rparr>) p = AM_I_LEFT_CHILD m p"
  "AM_I_RIGHT_CHILD (m\<lparr>root := r\<rparr>) p = AM_I_RIGHT_CHILD m p"
  by (simp_all add: AM_I_LEFT_CHILD_def AM_I_RIGHT_CHILD_def)

lemma TreeFirstNode_root_Some: "TreeFirstNode m p = Some y \<Longrightarrow> TreeFirstNode (m\<lparr>root := r\<rparr>) p = Some y"
proof (induction m p y arbitrary: r rule: TreeFirstNode.raw_induct [rotated, consumes 1])
  case (1 f m p y)
  from "1"(2) show ?case
  proof (cases rule: bnd_SomeE)
    case (Panic e)
    then show ?thesis by (subst TreeFirstNode.simps) (simp add: panic_def [symmetric])
  next
    case (Ret l)
    then show ?thesis using "1"(1) [of m l y r] by (subst TreeFirstNode.simps) (simp split: if_split_asm)
  qed
qed

lemma option_eqI: "(\<And>y. a = Some y \<Longrightarrow> b = Some y) \<Longrightarrow> (\<And>y. b = Some y \<Longrightarrow> a = Some y) \<Longrightarrow> a = b"
  by (cases a; cases b) auto

lemma TreeFirstNode_root [simp]: "TreeFirstNode (m\<lparr>root := r\<rparr>) p = TreeFirstNode m p"
proof (rule option_eqI)
  fix y
  show "TreeFirstNode m p = Some y" if "TreeFirstNode (m\<lparr>root := r\<rparr>) p = Some y"
    using TreeFirstNode_root_Some [OF that, of "root m"] by simp
qed (rule TreeFirstNode_root_Some)

lemma next_climb_root_Some: "next_climb m p = Some y \<Longrightarrow> next_climb (m\<lparr>root := r\<rparr>) p = Some y"
proof (induction m p y arbitrary: r rule: next_climb.raw_induct [rotated, consumes 1])
  case (1 f m p y)
  from "1"(2) show ?case
  proof (cases rule: bnd_SomeE)
    case (Panic e)
    then show ?thesis by (subst next_climb.simps) (simp add: panic_def [symmetric])
  next
    case (Ret l)
    from Ret(2) show ?thesis
    proof (cases rule: bnd_SomeE)
      case (Panic e)
      then show ?thesis
        using Ret(1) by (subst next_climb.simps) (auto simp: panic_def [symmetric] split: if_split_asm)
    next
      case (Ret up)
      then show ?thesis
        using \<open>ld m p parent = ret l\<close> "1"(1) [of m l y r]
        by (subst next_climb.simps) (auto split: if_split_asm)
    qed
  qed
qed

lemma next_climb_root [simp]: "next_climb (m\<lparr>root := r\<rparr>) p = next_climb m p"
proof (rule option_eqI)
  fix y
  show "next_climb m p = Some y" if "next_climb (m\<lparr>root := r\<rparr>) p = Some y"
    using next_climb_root_Some [OF that, of "root m"] by simp
qed (rule next_climb_root_Some)

lemma TreeNext_root [simp]: "TreeNext (m\<lparr>root := r\<rparr>) p = TreeNext m p"
  unfolding TreeNext_def ld_root TreeFirstNode_root child_root next_climb_root by (rule refl)

section \<open>Once round the ring\<close>

text \<open>One step of the loop: the next node in key order, or the first one after the last.\<close>

definition ring_step :: "nat RBtree \<Rightarrow> nptr go \<Rightarrow> nptr \<Rightarrow> (nptr \<times> nat item) go" where
  "ring_step m r node =
     bnd (TreeNext m node) (\<lambda>node.
     bnd (ld m node keyValue) (\<lambda>next.
     if next = None
     then bnd r (\<lambda>r. bnd (TreeFirstNode m r) (\<lambda>node. bnd (ld m node keyValue) (\<lambda>next. ret (node, next))))
     else ret (node, next)))"

lemma rr_loop_step:
  "rr_loop e m r d start score node (Some p) ps =
     (if score > 1 then
        bnd (protoLoop e p score d ps) (\<lambda>sp.
        bnd (ring_step m r node) (\<lambda>nn.
        if snd nn = start then ret (fst sp, snd sp, fst nn)
        else rr_loop e m r d start (fst sp) (fst nn) (snd nn) (snd sp)))
      else ret (score, ps, node))"
  by (subst rr_loop.simps) (simp add: ring_step_def bnd_assoc)

lemma ld_nodes:
  "stored (heap m) p t \<Longrightarrow> (a, k) \<in> set (nodes t) \<Longrightarrow> ld m (Ref a) keyValue = ret (Some k)"
  by (induction t arbitrary: p) auto

lemma TreeNext_nodes:
  assumes "is_tree m t" "nodes t = xs @ (a, k) # ys"
  shows "TreeNext m (Ref a) = ret (first_ptr ys)"
proof -
  from assms obtain fs l c r where t: "t = plug fs (Nd l a c k r)" "nodes r @ nright fs = ys"
    using focus_exists [of t xs a k ys] by (auto simp: is_tree_iff)
  with assms(1) have "rep m fs (Nd l a c k r)" by (simp add: rep_plug)
  from TreeNext_rep [OF this] t(2) show ?thesis by simp
qed

lemma ring_step_nodes:
  assumes t: "is_tree (m\<lparr>root := r\<rparr>) t" and c: "c < length (nodes t)"
  shows "ring_step m (ret r) (Ref (fst (nodes t ! c))) =
    (let y = nodes t ! ((c + 1) mod length (nodes t)) in ret (Ref (fst y), Some (snd y)))"
proof -
  let ?N = "nodes t"
  have st: "stored (heap m) LEAF t" "leaf m = LEAF_node" "r = ptr_of t"
    using t by (simp_all add: is_tree_iff)
  obtain a k where ak: "?N ! c = (a, k)" by force
  have "?N = take c ?N @ (a, k) # drop (Suc c) ?N" using c ak by (metis id_take_nth_drop)
  with TreeNext_nodes [OF t] have n: "TreeNext m (Ref a) = ret (first_ptr (drop (Suc c) ?N))" by simp
  show ?thesis
  proof (cases "Suc c < length ?N")
    case True
    obtain b j where bj: "?N ! Suc c = (b, j)" by force
    with True have "(b, j) \<in> set ?N" by (metis nth_mem)
    from ld_nodes [OF st(1) this] True bj n ak show ?thesis
      by (simp add: ring_step_def Cons_nth_drop_Suc [symmetric])
  next
    case False
    with c have l: "length ?N = Suc c" by simp
    then obtain b j ns where bj: "?N = (b, j) # ns" by (cases ?N) auto
    then have "ld m (Ref b) keyValue = ret (Some j)" using ld_nodes [OF st(1)] by simp
    moreover have "t \<noteq> Lf" using bj by auto
    ultimately show ?thesis
      using TreeFirstNode_nodes [OF st(1)] n ak l bj st by (simp add: ring_step_def)
  qed
qed

text \<open>The specification: the protocols of a list are served in order while the score is above one;
  the result names the node of the first one not served, or \<open>fin\<close> when all were.\<close>

fun ring_serve ::
  "'q env \<Rightarrow> int \<Rightarrow> nat \<Rightarrow> (nat \<times> nat) list \<Rightarrow> int \<Rightarrow> 'q protos \<Rightarrow> (int \<times> 'q protos \<times> nptr) go" where
  "ring_serve e d fin [] score ps = ret (score, ps, Ref fin)"
| "ring_serve e d fin ((a, k) # rest) score ps =
     (if score > 1 then bnd (protoLoop e k score d ps) (\<lambda>sp. ring_serve e d fin rest (fst sp) (snd sp))
      else ret (score, ps, Ref a))"

lemma ring_serve_Cons:
  "ring_serve e d fin (x # rest) score ps =
     (if score > 1
      then bnd (protoLoop e (snd x) score d ps) (\<lambda>sp. ring_serve e d fin rest (fst sp) (snd sp))
      else ret (score, ps, Ref (fst x)))"
  by (cases x) simp

lemma mod_moves: "i < n \<Longrightarrow> Suc j < n \<Longrightarrow> (i + Suc j) mod n \<noteq> (i::nat)"
  by (cases "i + Suc j < n") (simp_all add: le_mod_geq)

lemma rr_loop_ring:
  assumes t: "is_tree (m\<lparr>root := r\<rparr>) t" and dk: "distinct (inorder t)"
    and i: "i < length (nodes t)"
  shows "j < length (nodes t) \<Longrightarrow>
    rr_loop e m (ret r) d (Some (snd (nodes t ! i))) score (Ref (fst (rotate i (nodes t) ! j)))
      (Some (snd (rotate i (nodes t) ! j))) ps
    = ring_serve e d (fst (nodes t ! i)) (drop j (rotate i (nodes t))) score ps"
proof (induction "length (nodes t) - j" arbitrary: j score ps)
  case 0
  then show ?case by simp
next
  case (Suc x)
  let ?N = "nodes t" and ?n = "length (nodes t)"
  let ?R = "rotate i ?N" and ?c = "(i + j) mod length (nodes t)"
  let ?y = "?N ! ((?c + 1) mod ?n)"
  have n: "0 < ?n" using i by linarith
  have c: "?c < ?n" using n by simp
  have R: "?R ! j' = ?N ! ((i + j') mod ?n)" if "j' < ?n" for j' using that by (simp add: nth_rotate add.commute)
  have dr: "drop j ?R = ?R ! j # drop (Suc j) ?R"
    using Suc.prems by (simp add: Cons_nth_drop_Suc)
  have step: "ring_step m (ret r) (Ref (fst (?R ! j))) = ret (Ref (fst ?y), Some (snd ?y))"
    using ring_step_nodes [OF t c] R [OF Suc.prems] by (simp add: Let_def)
  have dm: "distinct (map snd ?N)" using dk by simp
  show ?case
  proof (cases "Suc j < ?n")
    case True
    have y: "?y = ?R ! Suc j" using R [OF True] by (simp add: mod_Suc_eq)
    have "(i + Suc j) mod ?n \<noteq> i"
      using mod_moves [OF i True] by simp
    then have "snd ?y \<noteq> snd (?N ! i)"
      using i n R [OF True] y nth_eq_iff_index_eq [OF dm, of "(i + Suc j) mod ?n" i]
      by (simp del: map_snd_nodes)
    moreover have "rr_loop e m (ret r) d (Some (snd (?N ! i))) sc (Ref (fst (?R ! Suc j))) (Some (snd (?R ! Suc j))) qs
        = ring_serve e d (fst (?N ! i)) (drop (Suc j) ?R) sc qs" for sc qs
      using Suc.hyps True by simp
    ultimately show ?thesis
      using y step by (subst rr_loop_step, subst dr) (simp add: ring_serve_Cons)
  next
    case False
    then have j: "?n = Suc j" using Suc.prems by simp
    have "(?c + 1) mod ?n = i" using i j by (simp add: mod_Suc_eq) (metis add_Suc_right mod_add_self2 mod_less)
    with step j show ?thesis by (subst rr_loop_step, subst dr) (simp add: ring_serve_Cons)
  qed
qed

section \<open>Whole calls\<close>

definition cursor :: "int \<Rightarrow> ZBProtoRR \<Rightarrow> nptr" where
  "cursor d rr = (if d = LOOP_DIR_IN then nodeIn rr else nodeOut rr)"

text \<open>The layer \<open>x\<close> has a tree, and the next call in direction \<open>d\<close> starts at its node \<open>i\<close>.\<close>

definition layer_ring :: "rr_name \<Rightarrow> int \<Rightarrow> nat rbt \<Rightarrow> nat \<Rightarrow> 'q proto_state \<Rightarrow> bool" where
  "layer_ring x d t i s \<longleftrightarrow> (\<exists>tr. rbtree (rrs s x) = Some tr \<and> is_tree ((pstore s)\<lparr>root := roots s ! tr\<rparr>) t)
     \<and> distinct (inorder t) \<and> i < length (nodes t)
     \<and> (cursor d (rrs s x) = Ref (fst (nodes t ! i)) \<or> cursor d (rrs s x) = NilP \<and> i = 0)"

definition fill_nodes :: "nat rbt \<Rightarrow> ZBProtoRR \<Rightarrow> ZBProtoRR" where
  "fill_nodes t rr = (let f = first_ptr (nodes t) in
     rr\<lparr>nodeIn := (if nodeIn rr = NilP then f else nodeIn rr),
        nodeOut := (if nodeOut rr = NilP then f else nodeOut rr)\<rparr>)"

lemma fill_nodes_rbtree [simp]: "rbtree (fill_nodes t rr) = rbtree rr"
  by (simp add: fill_nodes_def Let_def)

lemma first_ptr_hd: "xs \<noteq> [] \<Longrightarrow> first_ptr xs = Ref (fst (xs ! 0))"
  by (cases xs) simp_all

lemma roundrobinInit_ring:
  assumes "layer_ring x d t i s"
  shows "roundrobinInit s (rrs s x) d = ret (Ref (fst (nodes t ! i)), fill_nodes t (rrs s x))"
proof -
  from assms obtain tr where tr: "rbtree (rrs s x) = Some tr" "is_tree ((pstore s)\<lparr>root := roots s ! tr\<rparr>) t"
    by (auto simp: layer_ring_def)
  have ne: "t \<noteq> Lf" using assms by (auto simp: layer_ring_def)
  then have "TreeFirstNode (pstore s) (roots s ! tr) = ret (first_ptr (nodes t))"
    using tr(2) TreeFirstNode_nodes [of "pstore s" LEAF t] by (simp add: is_tree_iff)
  moreover have "first_ptr (nodes t) = Ref (fst (nodes t ! 0))"
    using ne by (simp add: first_ptr_hd)
  ultimately show ?thesis
    using tr(1) assms
    by (cases "nodeIn (rrs s x) = NilP"; cases "nodeOut (rrs s x) = NilP")
      (auto simp: roundrobinInit_def tree_root_def fill_nodes_def layer_ring_def cursor_def Let_def split: if_split_asm)
qed

theorem GenericLoop_ring:
  assumes l: "layer_ring x d t i s"
  shows "ZBProtocolGenericLoop e x score d s =
    bnd (ring_serve e d (fst (nodes t ! i)) (rotate i (nodes t)) score (protos s)) (\<lambda>(score, ps, node).
      ret (score, s\<lparr>protos := ps, rrs := (rrs s)(x := roundrobinEnd (fill_nodes t (rrs s x)) d node)\<rparr>))"
proof -
  from l obtain tr where tr: "rbtree (rrs s x) = Some tr" "is_tree ((pstore s)\<lparr>root := roots s ! tr\<rparr>) t"
    by (auto simp: layer_ring_def)
  have i: "i < length (nodes t)" "distinct (inorder t)" using l by (simp_all add: layer_ring_def)
  obtain a k where ak: "nodes t ! i = (a, k)" by force
  then have "(a, k) \<in> set (nodes t)" using i by (metis nth_mem)
  then have "ld (pstore s) (Ref a) keyValue = ret (Some k)"
    using tr(2) ld_nodes [of "pstore s" LEAF t] by (simp add: is_tree_iff)
  moreover have ne: "t \<noteq> Lf" using i by auto
  moreover have "rotate i (nodes t) ! 0 = (a, k)"
    using i ak ne nth_rotate [of 0 "nodes t" i] by simp
  ultimately show ?thesis
    using rr_loop_ring [OF tr(2) i(2,1), of 0 e d score "protos s"] i ak tr(1)
    by (auto simp: ZBProtocolGenericLoop_def roundrobinInit_ring [OF l] tree_root_def split_beta Let_def)
qed

section \<open>Fairness\<close>

fun serve_all :: "'q env \<Rightarrow> int \<Rightarrow> nat list \<Rightarrow> int \<Rightarrow> 'q protos \<Rightarrow> (int \<times> 'q protos) go" where
  "serve_all e d [] score ps = ret (score, ps)"
| "serve_all e d (k # ks) score ps =
     bnd (protoLoop e k score d ps) (\<lambda>sp. serve_all e d ks (fst sp) (snd sp))"

lemma ring_serve_prefix:
  "ring_serve e d fin xs score ps = ret (score', ps', node) \<Longrightarrow>
   \<exists>j \<le> length xs. (1 < score \<longrightarrow> xs \<noteq> [] \<longrightarrow> 0 < j) \<and> (1 < score' \<longrightarrow> j = length xs)
     \<and> node = (if j < length xs then Ref (fst (xs ! j)) else Ref fin)
     \<and> serve_all e d (map snd (take j xs)) score ps = ret (score', ps')"
proof (induction xs arbitrary: score ps)
  case Nil
  then show ?case by simp
next
  case (Cons x xs)
  show ?case
  proof (cases "1 < score")
    case False
    with Cons.prems show ?thesis by (intro exI [of _ 0]) (auto simp: ring_serve_Cons)
  next
    case True
    with Cons.prems obtain sp where sp: "protoLoop e (snd x) score d ps = ret sp"
      "ring_serve e d fin xs (fst sp) (snd sp) = ret (score', ps', node)"
      by (auto simp: ring_serve_Cons bnd_eq_ret)
    from Cons.IH [OF sp(2)] obtain j where "j \<le> length xs" "1 < score' \<longrightarrow> j = length xs"
      "node = (if j < length xs then Ref (fst (xs ! j)) else Ref fin)"
      "serve_all e d (map snd (take j xs)) (fst sp) (snd sp) = ret (score', ps')" by blast
    with sp(1) show ?thesis by (intro exI [of _ "Suc j"]) simp
  qed
qed

lemma cursor_End [simp]: "cursor d (roundrobinEnd rr d node) = node"
  by (simp add: cursor_def roundrobinEnd_def)

lemma rbtree_End [simp]: "rbtree (roundrobinEnd rr d node) = rbtree rr"
  by (simp add: roundrobinEnd_def)

lemma GenericLoop_advances:
  assumes l: "layer_ring x d t i s" and r: "ZBProtocolGenericLoop e x score d s = ret (score', s')"
  shows "\<exists>j \<le> length (nodes t). (1 < score \<longrightarrow> 0 < j) \<and> (1 < score' \<longrightarrow> j = length (nodes t))
    \<and> layer_ring x d t ((i + j) mod length (nodes t)) s'
    \<and> serve_all e d (map (\<lambda>m. snd (nodes t ! ((i + m) mod length (nodes t)))) [0..<j]) score (protos s)
        = ret (score', protos s')"
proof -
  let ?N = "nodes t" and ?n = "length (nodes t)"
  have i: "i < ?n" using l by (simp add: layer_ring_def)
  from r obtain ps node where rs:
    "ring_serve e d (fst (?N ! i)) (rotate i ?N) score (protos s) = ret (score', ps, node)"
    and s': "s' = s\<lparr>protos := ps, rrs := (rrs s)(x := roundrobinEnd (fill_nodes t (rrs s x)) d node)\<rparr>"
    by (auto simp: GenericLoop_ring [OF l] bnd_eq_ret split_beta)
  from ring_serve_prefix [OF rs] i obtain j where j: "j \<le> ?n" "1 < score \<longrightarrow> 0 < j" "1 < score' \<longrightarrow> j = ?n"
    "node = (if j < ?n then Ref (fst (rotate i ?N ! j)) else Ref (fst (?N ! i)))"
    "serve_all e d (map snd (take j (rotate i ?N))) score (protos s) = ret (score', ps)" by auto
  have "node = Ref (fst (?N ! ((i + j) mod ?n)))"
    using j(1,4) i by (auto simp: nth_rotate add.commute)
  moreover have "map snd (take j (rotate i ?N)) = map (\<lambda>m. snd (?N ! ((i + m) mod ?n))) [0..<j]"
    using j(1) by (intro nth_equalityI) (auto simp: nth_rotate add.commute)
  moreover have "(i + j) mod ?n < ?n" using i by (intro mod_less_divisor) linarith
  ultimately show ?thesis
    using j l s' by (intro exI [of _ j]) (auto simp: layer_ring_def)
qed


text \<open>Successive calls with the scores of a list, all for one layer and direction.\<close>

fun call_rounds :: "'q env \<Rightarrow> rr_name \<Rightarrow> int \<Rightarrow> int list \<Rightarrow> 'q proto_state \<Rightarrow> 'q proto_state go" where
  "call_rounds e x d [] s = ret s"
| "call_rounds e x d (score # scores) s =
     bnd (ZBProtocolGenericLoop e x score d s) (\<lambda>r. call_rounds e x d scores (snd r))"

fun serve_rounds :: "'q env \<Rightarrow> int \<Rightarrow> (int \<times> nat list) list \<Rightarrow> 'q protos \<Rightarrow> 'q protos go" where
  "serve_rounds e d [] ps = ret ps"
| "serve_rounds e d ((score, ks) # rs) ps =
     bnd (serve_all e d ks score ps) (\<lambda>r. serve_rounds e d rs (snd r))"

lemma ring_upt:
  "map (\<lambda>m. f ((i + m) mod n)) [0..<j] @ map (\<lambda>m. f (((i + j) mod n + m) mod n)) [0..<k]
   = map (\<lambda>m. f ((i + m) mod n)) [0..<j + k]" for n :: nat
proof -
  have "map (\<lambda>m. f (((i + j) mod n + m) mod n)) [0..<k] = map (\<lambda>m. f ((i + m) mod n)) [j..<j + k]"
    by (intro nth_equalityI) (auto simp: mod_add_left_eq add.assoc)
  then show ?thesis by (metis map_append upt_add_eq_append zero_le)
qed

lemma ring_covers:
  fixes n :: nat
  assumes "i < n" "n \<le> j"
  shows "(\<lambda>m. f ((i + m) mod n)) ` {0..<j} = f ` {0..<n}"
proof
  show "f ` {0..<n} \<subseteq> (\<lambda>m. f ((i + m) mod n)) ` {0..<j}"
  proof
    fix y assume "y \<in> f ` {0..<n}"
    then obtain c where c: "c < n" "y = f c" by auto
    let ?m = "if i \<le> c then c - i else c + n - i"
    have "(i + ?m) mod n = c" "?m < j" using assms c(1) by auto
    with c(2) show "y \<in> (\<lambda>m. f ((i + m) mod n)) ` {0..<j}"
      by (intro image_eqI [of _ _ ?m]) simp_all
  qed
qed (use assms in auto)

lemma call_rounds_fair:
  assumes "layer_ring x d t i s" "\<forall>score \<in> set scores. 1 < score" "call_rounds e x d scores s = ret s'"
  shows "\<exists>kss. length kss = length scores \<and> [] \<notin> set kss
    \<and> serve_rounds e d (zip scores kss) (protos s) = ret (protos s')
    \<and> concat kss = map (\<lambda>m. snd (nodes t ! ((i + m) mod length (nodes t)))) [0..<length (concat kss)]"
  using assms
proof (induction scores arbitrary: i s)
  case Nil
  then show ?case by simp
next
  case (Cons score scores)
  let ?f = "\<lambda>m. snd (nodes t ! m)" and ?n = "length (nodes t)"
  from Cons.prems(3) obtain score' s1 where s1: "ZBProtocolGenericLoop e x score d s = ret (score', s1)"
    "call_rounds e x d scores s1 = ret s'" by (auto simp: bnd_eq_ret)
  from GenericLoop_advances [OF Cons.prems(1) s1(1)] Cons.prems(2) obtain j where j: "0 < j"
    "layer_ring x d t ((i + j) mod ?n) s1"
    "serve_all e d (map (\<lambda>m. ?f ((i + m) mod ?n)) [0..<j]) score (protos s) = ret (score', protos s1)" by auto
  from Cons.IH [OF j(2) _ s1(2)] Cons.prems(2) obtain kss where kss: "length kss = length scores" "[] \<notin> set kss"
    "serve_rounds e d (zip scores kss) (protos s1) = ret (protos s')"
    "concat kss = map (\<lambda>m. ?f (((i + j) mod ?n + m) mod ?n)) [0..<length (concat kss)]" by auto
  let ?ks = "map (\<lambda>m. ?f ((i + m) mod ?n)) [0..<j]"
  have "concat (?ks # kss) = map (\<lambda>m. ?f ((i + m) mod ?n)) [0..<length (concat (?ks # kss))]"
    using ring_upt [of ?f i ?n j "length (concat kss)"] kss(4) by simp
  with kss j show ?case by (intro exI [of _ "?ks # kss"]) simp
qed

lemma length_concat_ge: "[] \<notin> set kss \<Longrightarrow> length kss \<le> length (concat kss)"
proof (induction kss)
  case (Cons ks kss)
  then show ?case by (cases ks) auto
qed simp

end
