(* ===== verification/Protocol_Return.thy ===== *)
theory Protocol_Return
  imports Protocol_Ring
begin

text \<open>
  When the serving loops return, and with what score: by induction on the size of the queue being
  served, for queues that shrink when dequeued and processing functions that return without adding to
  that queue. A call for a whole layer then returns too.
\<close>

fun queue_size :: "('q \<Rightarrow> nat) \<Rightarrow> 'q option \<Rightarrow> nat" where
  "queue_size \<mu> None = 0"
| "queue_size \<mu> (Some x) = \<mu> x"

text \<open>Dequeuing from a queue that is not empty shrinks it, and processing a packet returns without
  adding to the queue being served.\<close>

definition drains :: "'q env \<Rightarrow> ('q \<Rightarrow> nat) \<Rightarrow> nat \<Rightarrow> int \<Rightarrow> bool" where
  "drains e \<mu> p d \<longleftrightarrow>
     (\<forall>x. \<not> SkbQueueEmpty e x \<longrightarrow> \<mu> (snd (SkbDeQueue e x)) < \<mu> x) \<and>
     (d = LOOP_DIR_IN \<longrightarrow> (\<forall>s ps. \<exists>r ps'. ProcessIn e p s ps = ret (r, ps')
        \<and> queue_size \<mu> (QueueIn (ps' p)) \<le> queue_size \<mu> (QueueIn (ps p)))) \<and>
     (d = LOOP_DIR_OUT \<longrightarrow> (\<forall>s ps. \<exists>r ps'. ProcessOut e p s ps = ret (r, ps')
        \<and> queue_size \<mu> (QueueOut (ps' p)) \<le> queue_size \<mu> (QueueOut (ps p))))"

definition queue_of :: "int \<Rightarrow> 'q ZBProtocol \<Rightarrow> 'q option" where
  "queue_of d p = (if d = LOOP_DIR_IN then QueueIn p else QueueOut p)"

definition served :: "'q env \<Rightarrow> int \<Rightarrow> nat \<Rightarrow> int \<Rightarrow> 'q protos \<Rightarrow> bool" where
  "served e d p score ps \<longleftrightarrow> score \<le> 0 \<or>
     (case queue_of d (ps p) of None \<Rightarrow> True | Some x \<Rightarrow> SkbQueueEmpty e x)"

lemma LOOP_DIR_neq [simp]: "LOOP_DIR_IN \<noteq> LOOP_DIR_OUT" "LOOP_DIR_OUT \<noteq> LOOP_DIR_IN"
  by (simp_all add: LOOP_DIR_IN_def LOOP_DIR_OUT_def)

lemma protoLoopIn_returns:
  "drains e \<mu> p LOOP_DIR_IN \<Longrightarrow> \<exists>score' ps'. protoLoopIn e p score ps = ret (score', ps')
     \<and> score - int (queue_size \<mu> (QueueIn (ps p))) \<le> score' \<and> score' \<le> score \<and> (0 \<le> score \<longrightarrow> 0 \<le> score')
     \<and> served e LOOP_DIR_IN p score' ps'"
proof (induction "queue_size \<mu> (QueueIn (ps p))" arbitrary: score ps rule: less_induct)
  case less
  show ?case
  proof (cases "score > 0 \<and> (\<exists>x. QueueIn (ps p) = Some x \<and> \<not> SkbQueueEmpty e x)")
    case False
    then show ?thesis
      by (subst protoLoopIn.simps) (auto simp: served_def queue_of_def split: option.splits)
  next
    case True
    then obtain x where x: "0 < score" "QueueIn (ps p) = Some x" "\<not> SkbQueueEmpty e x" by auto
    let ?ps = "ps(p := (ps p)\<lparr>QueueIn := Some (snd (SkbDeQueue e x))\<rparr>)"
    have lt: "\<mu> (snd (SkbDeQueue e x)) < \<mu> x" using less.prems x(3) by (simp add: drains_def)
    show ?thesis
    proof (cases "fst (SkbDeQueue e x)")
      case None
      with less.hyps [of ?ps score] less.prems lt x show ?thesis
        by (subst protoLoopIn.simps) (force simp: Let_def)
    next
      case (Some s)
      from less.prems obtain r ps2 where r: "ProcessIn e p s ?ps = ret (r, ps2)"
        "queue_size \<mu> (QueueIn (ps2 p)) \<le> queue_size \<mu> (QueueIn (?ps p))"
        unfolding drains_def by blast
      then have lt2: "queue_size \<mu> (QueueIn (ps2 p)) < queue_size \<mu> (QueueIn (ps p))"
        using lt x(2) by simp
      from less.hyps [of ps2 "if r > 0 then score - 1 else score"] less.prems r(1) x Some lt2 show ?thesis
        by (subst protoLoopIn.simps) (force simp: Let_def)
    qed
  qed
qed

lemma protoLoopOut_returns:
  "drains e \<mu> p LOOP_DIR_OUT \<Longrightarrow> \<exists>score' ps'. protoLoopOut e p score ps = ret (score', ps')
     \<and> score - int (queue_size \<mu> (QueueOut (ps p))) \<le> score' \<and> score' \<le> score \<and> (0 \<le> score \<longrightarrow> 0 \<le> score')
     \<and> served e LOOP_DIR_OUT p score' ps'"
proof (induction "queue_size \<mu> (QueueOut (ps p))" arbitrary: score ps rule: less_induct)
  case less
  show ?case
  proof (cases "score > 0 \<and> (\<exists>x. QueueOut (ps p) = Some x \<and> \<not> SkbQueueEmpty e x)")
    case False
    then show ?thesis
      by (subst protoLoopOut.simps) (auto simp: served_def queue_of_def split: option.splits)
  next
    case True
    then obtain x where x: "0 < score" "QueueOut (ps p) = Some x" "\<not> SkbQueueEmpty e x" by auto
    let ?ps = "ps(p := (ps p)\<lparr>QueueOut := Some (snd (SkbDeQueue e x))\<rparr>)"
    have lt: "\<mu> (snd (SkbDeQueue e x)) < \<mu> x" using less.prems x(3) by (simp add: drains_def)
    show ?thesis
    proof (cases "fst (SkbDeQueue e x)")
      case None
      with less.hyps [of ?ps score] less.prems lt x show ?thesis
        by (subst protoLoopOut.simps) (force simp: Let_def)
    next
      case (Some s)
      from less.prems obtain r ps2 where r: "ProcessOut e p s ?ps = ret (r, ps2)"
        "queue_size \<mu> (QueueOut (ps2 p)) \<le> queue_size \<mu> (QueueOut (?ps p))"
        unfolding drains_def by blast
      then have lt2: "queue_size \<mu> (QueueOut (ps2 p)) < queue_size \<mu> (QueueOut (ps p))"
        using lt x(2) by simp
      from less.hyps [of ps2 "if r > 0 then score - 1 else score"] less.prems r(1) x Some lt2 show ?thesis
        by (subst protoLoopOut.simps) (force simp: Let_def)
    qed
  qed
qed

lemma protoLoop_returns:
  assumes "drains e \<mu> p d" "d = LOOP_DIR_IN \<or> d = LOOP_DIR_OUT"
  shows "\<exists>score' ps'. protoLoop e p score d ps = ret (score', ps')
     \<and> score - int (queue_size \<mu> (queue_of d (ps p))) \<le> score' \<and> score' \<le> score \<and> (0 \<le> score \<longrightarrow> 0 \<le> score')
     \<and> served e d p score' ps'"
  using assms protoLoopIn_returns [of e \<mu> p score ps] protoLoopOut_returns [of e \<mu> p score ps]
  by (auto simp: protoLoop_def queue_of_def)

lemma ring_serve_returns:
  assumes "\<forall>x \<in> set xs. drains e \<mu> (snd x) d" "d = LOOP_DIR_IN \<or> d = LOOP_DIR_OUT"
  shows "\<exists>score' ps' node. ring_serve e d fin xs score ps = ret (score', ps', node) \<and> score' \<le> score
    \<and> (0 \<le> score \<longrightarrow> 0 \<le> score')"
  using assms(1)
proof (induction xs arbitrary: score ps)
  case Nil
  then show ?case by simp
next
  case (Cons x xs)
  from Cons.prems have d: "drains e \<mu> (snd x) d" by simp
  from protoLoop_returns [OF d assms(2), of score ps] obtain sc ps1 where
    1: "protoLoop e (snd x) score d ps = ret (sc, ps1)" "sc \<le> score" "0 \<le> score \<longrightarrow> 0 \<le> sc" by auto
  have "\<forall>x \<in> set xs. drains e \<mu> (snd x) d" using Cons.prems by simp
  from Cons.IH [OF this, of sc ps1] 1 show ?case
    by (force simp: ring_serve_Cons)
qed

lemma GenericLoop_returns:
  assumes l: "layer_ring x d t i s" and "\<forall>k \<in> set (inorder t). drains e \<mu> k d" "d = LOOP_DIR_IN \<or> d = LOOP_DIR_OUT"
  shows "\<exists>score' s'. ZBProtocolGenericLoop e x score d s = ret (score', s') \<and> score' \<le> score
    \<and> (0 \<le> score \<longrightarrow> 0 \<le> score')"
proof -
  have "set (rotate i (nodes t)) = set (nodes t)" by simp
  moreover have "snd ` set (nodes t) = set (inorder t)" by (metis map_snd_nodes set_map)
  ultimately have "\<forall>y \<in> set (rotate i (nodes t)). drains e \<mu> (snd y) d" using assms(2) by force
  from ring_serve_returns [OF this assms(3), of "fst (nodes t ! i)" score "protos s"]
  show ?thesis by (auto simp: GenericLoop_ring [OF l])
qed

end
