(* ===== verification/Protocol_Init.thy ===== *)
theory Protocol_Init
  imports Protocol_Return
begin

text \<open>
  Registration: what \<open>ProtocolInit\<close> leaves in the four trees, what \<open>InitStack\<close> makes of two
  registrations, and what a comparison that always says "less" does to a tree of protocols.
\<close>

section \<open>Insertion into an empty tree\<close>

lemma insert_search_LEAF: "insert_search cmp m key lst LEAF = ret lst"
  by (subst insert_search.simps) simp

lemma constant_comparator: "comparator (\<lambda>_ _. ret 0) (\<lambda>_ _. 0)"
  by unfold_locales auto

text \<open>Into an empty tree, insertion calls no comparison function.\<close>

lemma Insert_empty_any: "root m = LEAF \<Longrightarrow> Insert cmp a key m = Insert cmp' a key m"
  apply (simp add: Insert_def)
  apply (unfold insert_search_LEAF bnd_ret IS_LEAF_def if_True simp_thms)
  apply (rule TrueI)
  done

lemma Insert_empty:
  assumes "leaf m = LEAF_node" "root m = LEAF"
  shows "\<exists>m'. Insert cmp a (Some k) m = ret (ReplyNil, m') \<and> is_tree m' (Nd Lf a Black k Lf)
    \<and> same_outside {a} m m'"
proof -
  have t: "is_tree m Lf" using assms by (simp add: is_tree_iff)
  from comparator.Insert_absent [OF constant_comparator t, of k a] show ?thesis
    by (simp add: ins_tree_def key_in_def Insert_empty_any [OF assms(2), of cmp a _ "\<lambda>_ _. ret 0"])
qed

section \<open>Registration\<close>

text \<open>The tree a layer number selects, by its position among the four.\<close>

definition slot :: "'q env \<Rightarrow> u8 \<Rightarrow> nat option" where
  "slot e l = (if l = ZB_LAYER_DATALINK e then Some 0 else if l = ZB_LAYER_NETWORK e then Some 1
     else if l = ZB_LAYER_TRANSPORT e then Some 2 else if l = ZB_LAYER_SOCKET e then Some 3 else None)"

definition slot_name :: "nat \<Rightarrow> rr_name" where
  "slot_name j = [ProtoRRDatalink, ProtoRRNetwork, ProtoRRTransport, ProtoRRSocket] ! j"

definition new_roots :: "nptr list" where
  "new_roots = [LEAF, LEAF, LEAF, LEAF]"

lemma length_new_roots [simp]: "length new_roots = 4"
  by (simp add: new_roots_def)

lemma nth_new_roots [simp]: "j < 4 \<Longrightarrow> new_roots ! j = LEAF"
  by (auto simp: new_roots_def less_Suc_eq numeral_eq_Suc)

text \<open>What every registration does before it inserts: four new trees, three of them stored, the
  last one over the third.\<close>

definition fresh_trees :: "nat \<Rightarrow> 'q proto_state \<Rightarrow> 'q proto_state" where
  "fresh_trees p s = (let n = length (roots s) in
     s\<lparr>roots := roots s @ new_roots,
       rrs := (rrs s)(ProtoRRDatalink := (rrs s ProtoRRDatalink)\<lparr>rbtree := Some n\<rparr>,
                      ProtoRRNetwork := (rrs s ProtoRRNetwork)\<lparr>rbtree := Some (n + 1)\<rparr>,
                      ProtoRRTransport := (rrs s ProtoRRTransport)\<lparr>rbtree := Some (n + 3)\<rparr>),
       protos := (protos s)(p := (protos s p)\<lparr>Hash := crc32 (Name (protos s p))\<rparr>)\<rparr>)"

lemma ProtocolInit_slot:
  "ProtocolInit e a (Some p) s =
     (case slot e (Layer (protos s p)) of None \<Rightarrow> ret (fresh_trees p s)
      | Some j \<Rightarrow> bnd (tree_insert (length (roots s) + j) a p (fresh_trees p s))
                   (\<lambda>s. ret (reset_nodes (slot_name j) s)))"
  by (simp add: ProtocolInit_def Let_def fresh_trees_def slot_def slot_name_def set_tree_def InitTree_def new_roots_def fun_upd_twist)

lemma tree_insert_fresh:
  assumes "leaf (pstore s) = LEAF_node" "j < 4"
  shows "\<exists>m. tree_insert (length (roots s) + j) a p (fresh_trees p s) =
      ret ((fresh_trees p s)\<lparr>pstore := m, roots := roots s @ new_roots[j := Ref a]\<rparr>)
    \<and> is_tree (m\<lparr>root := Ref a\<rparr>) (Nd Lf a Black p Lf) \<and> same_outside {a} (pstore s) m"
proof -
  let ?s = "fresh_trees p s"
  have root: "roots ?s ! (length (roots s) + j) = LEAF"
    using assms(2) by (simp add: fresh_trees_def Let_def nth_append)
  have "leaf ((pstore ?s)\<lparr>root := LEAF\<rparr>) = LEAF_node" using assms(1) by (simp add: fresh_trees_def Let_def)
  from Insert_empty [OF this, of "protocmp (protos ?s)" a p] obtain m where
    m: "Insert (protocmp (protos ?s)) a (Some p) ((pstore ?s)\<lparr>root := LEAF\<rparr>) = ret (ReplyNil, m)"
       "is_tree m (Nd Lf a Black p Lf)" "same_outside {a} ((pstore ?s)\<lparr>root := LEAF\<rparr>) m" by auto
  then have "root m = Ref a" by (simp add: is_tree_iff)
  moreover have "is_tree (m\<lparr>root := Ref a\<rparr>) (Nd Lf a Black p Lf)" using m(2) by (simp add: is_tree_iff)
  moreover have "(roots s @ new_roots)[length (roots s) + j := Ref a]
      = roots s @ new_roots[j := Ref a]" by (simp add: list_update_append)
  ultimately show ?thesis
    using m root by (intro exI [of _ m])
      (auto simp: tree_insert_def fresh_trees_def Let_def same_outside_def)
qed

text \<open>The tree at position \<open>n + j\<close> after registering \<open>p\<close>.\<close>

definition slot_tree :: "'q env \<Rightarrow> nat \<Rightarrow> nat \<Rightarrow> u8 \<Rightarrow> nat \<Rightarrow> nat rbt" where
  "slot_tree e a p l j = (if slot e l = Some j then Nd Lf a Black p Lf else Lf)"

lemma slot_less: "slot e l = Some j \<Longrightarrow> j < 4"
  by (auto simp: slot_def split: if_split_asm)

lemma ProtocolInit_outcome:
  assumes lf: "leaf (pstore s) = LEAF_node"
  shows "\<exists>s'. ProtocolInit e a (Some p) s = ret s' \<and> length (roots s') = length (roots s) + 4
    \<and> leaf (pstore s') = LEAF_node
    \<and> (\<forall>j < 4. is_tree ((pstore s')\<lparr>root := roots s' ! (length (roots s) + j)\<rparr>)
         (slot_tree e a p (Layer (protos s p)) j))
    \<and> rbtree (rrs s' ProtoRRDatalink) = Some (length (roots s))
    \<and> rbtree (rrs s' ProtoRRNetwork) = Some (length (roots s) + 1)
    \<and> rbtree (rrs s' ProtoRRTransport) = Some (length (roots s) + 3)
    \<and> rbtree (rrs s' ProtoRRSocket) = rbtree (rrs s ProtoRRSocket)
    \<and> (\<forall>x. nodeIn (rrs s' x) = (if map_option slot_name (slot e (Layer (protos s p))) = Some x then NilP else nodeIn (rrs s x))
         \<and> nodeOut (rrs s' x) = (if map_option slot_name (slot e (Layer (protos s p))) = Some x then NilP else nodeOut (rrs s x)))
    \<and> protos s' = (protos s)(p := (protos s p)\<lparr>Hash := crc32 (Name (protos s p))\<rparr>)"
proof (cases "slot e (Layer (protos s p))")
  case None
  then show ?thesis
    using lf by (auto simp: ProtocolInit_slot fresh_trees_def Let_def is_tree_iff slot_tree_def
      nth_append)
next
  case (Some i)
  note i = slot_less [OF Some]
  from tree_insert_fresh [OF lf i, of a p] obtain m where
    m: "tree_insert (length (roots s) + i) a p (fresh_trees p s) =
      ret ((fresh_trees p s)\<lparr>pstore := m, roots := roots s @ new_roots[i := Ref a]\<rparr>)"
      "is_tree (m\<lparr>root := Ref a\<rparr>) (Nd Lf a Black p Lf)" "same_outside {a} (pstore s) m" by auto
  have leaf: "leaf m = LEAF_node" using m(3) lf by (simp add: same_outside_def)
  have r: "new_roots[i := Ref a] ! j = (if i = j then Ref a else LEAF)" if "j < 4" for j
    using that i by (simp add: nth_list_update)
  show ?thesis
    using m(1,2) leaf Some i
    by (auto simp: ProtocolInit_slot reset_nodes_def is_tree_iff slot_tree_def nth_append r
      fresh_trees_def Let_def slot_name_def)
qed

section \<open>Start-up\<close>

lemma roundrobinInit_empty:
  assumes "rbtree rr = None \<or> (\<exists>t. rbtree rr = Some t \<and> is_tree ((pstore s)\<lparr>root := roots s ! t\<rparr>) Lf)"
    and "nodeIn rr = NilP"
  shows "roundrobinInit s rr d = panic NilDeref"
  using assms TreeFirstNode_LEAF [of "pstore s"]
  by (auto simp: roundrobinInit_def tree_root_def is_tree_iff)

lemma GenericLoop_empty:
  assumes "rbtree (rrs s x) = None \<or> (\<exists>t. rbtree (rrs s x) = Some t \<and> is_tree ((pstore s)\<lparr>root := roots s ! t\<rparr>) Lf)"
    and "nodeIn (rrs s x) = NilP"
  shows "ZBProtocolGenericLoop e x score d s = panic NilDeref"
  by (simp add: ZBProtocolGenericLoop_def roundrobinInit_empty [OF assms])

lemma InitStack_useless_aux:
  assumes "ZB_LAYER_TRANSPORT e \<notin> {ZB_LAYER_DATALINK e, ZB_LAYER_NETWORK e}"
    and "Layer (ps tcp) = ZB_LAYER_TRANSPORT e"
  shows "\<exists>s. InitStack e a b (Some ipv4) (Some tcp) (init_state ps) = ret s
    \<and> (\<forall>layer score d. ProtocolLoop e score d layer s = (if layer < 4 then panic NilDeref else ret (-1, s)))"
proof -
  let ?s0 = "init_state ps" and ?n = "length (roots (init_state ps)) + 4"
  have lf: "leaf (pstore ?s0) = LEAF_node" by (simp add: init_state_def init_store_def)
  from ProtocolInit_outcome [OF lf, of e a ipv4] obtain s1 where s1: "ProtocolInit e a (Some ipv4) ?s0 = ret s1"
    "leaf (pstore s1) = LEAF_node" "rbtree (rrs s1 ProtoRRSocket) = rbtree (rrs ?s0 ProtoRRSocket)"
    "\<And>x. nodeIn (rrs s1 x) = NilP" "Layer (protos s1 tcp) = Layer (ps tcp)"
    by (auto simp: init_state_def)
  have sl: "slot e (Layer (protos s1 tcp)) = Some 2" using assms s1(5) by (simp add: slot_def)
  from ProtocolInit_outcome [OF s1(2), of e b tcp] obtain s2 where s2: "ProtocolInit e b (Some tcp) s1 = ret s2"
    "\<forall>j < 4. is_tree ((pstore s2)\<lparr>root := roots s2 ! (length (roots s1) + j)\<rparr>)
         (slot_tree e b tcp (Layer (protos s1 tcp)) j)"
    "rbtree (rrs s2 ProtoRRDatalink) = Some (length (roots s1))"
    "rbtree (rrs s2 ProtoRRNetwork) = Some (length (roots s1) + 1)"
    "rbtree (rrs s2 ProtoRRTransport) = Some (length (roots s1) + 3)"
    "rbtree (rrs s2 ProtoRRSocket) = rbtree (rrs s1 ProtoRRSocket)"
    "\<And>x. nodeIn (rrs s2 x) = NilP" using s1(4) by auto
  have e: "is_tree ((pstore s2)\<lparr>root := roots s2 ! (length (roots s1) + j)\<rparr>) Lf" if "j < 4" "j \<noteq> 2" for j
    using s2(2) that sl by (auto simp: slot_tree_def)
  have "ZBProtocolGenericLoop e x score d s2 = panic NilDeref" for x score d
    using s2(3-7) s1(3) e [of 0] e [of 1] e [of 3]
    by (intro GenericLoop_empty; cases x) (auto simp: init_state_def)
  moreover have "layer < 4 \<longleftrightarrow> layer = 0 \<or> layer = 1 \<or> layer = 2 \<or> layer = 3" for layer :: u8
    by (auto simp: word_less_nat_alt word_unat_eq_iff)
  ultimately show ?thesis
    using s1(1) s2(1) by (intro exI [of _ s2]) (auto simp: InitStack_def ProtocolLoop_def)
qed

section \<open>The comparison of protocols\<close>

lemma protocmp_less:
  "Hash (ps k) \<noteq> Hash (ps j) \<Longrightarrow> protocmp ps (Some k) (Some j) = ret (-1)"
  by (auto simp: protocmp_def)

lemma protocmp_eq: "Hash (ps k) = Hash (ps j) \<Longrightarrow> protocmp ps (Some k) (Some j) = ret 0"
  by (simp add: protocmp_def)

lemma FindKey_right_spine:
  assumes "is_tree m (Nd l a c k Lf)" "cmp (Some k) key = ret (-1)"
  shows "FindKey cmp m key = ret None"
  using assms
  by (simp add: FindKey_def is_tree_iff) (subst FindLoop.simps, simp, subst FindLoop.simps, simp)

lemma Insert_left_of_root:
  assumes t: "is_tree m (Nd Lf a Black k Lf)" and "a \<noteq> b"
    and c: "cmp (Some k) (Some j) = ret (-1)" "cmp (Some j) (Some k) = ret (-1)"
  shows "\<exists>m'. Insert cmp b (Some j) m = ret (ReplyNil, m') \<and> is_tree m' (Nd (Nd Lf b Red j Lf) a Black k Lf)"
proof -
  let ?m1 = "m\<lparr>heap := (heap m)(b := Some (mk_node b LEAF LEAF LEAF Red j))\<rparr>"
  let ?m2 = "m\<lparr>heap := (heap m)(b := Some (mk_node b (Ref a) LEAF LEAF Red j),
    a := Some (mk_node a LEAF (Ref b) LEAF Black k))\<rparr>"
  have st: "heap m a = Some (mk_node a LEAF LEAF LEAF Black k)" "root m = Ref a" "leaf m = LEAF_node"
    using t by (simp_all add: is_tree_iff)
  have l: "link_node cmp ?m1 (Ref b) (Ref a) (Some j) = ret ?m2"
    using st assms by (simp add: link_node_def store_defs fun_upd_twist)
  have s: "insert_search cmp ?m1 (Some j) LEAF (Ref a) = ret (Ref a)"
    using st assms by (subst insert_search.simps) (simp add: insert_search_LEAF)
  have "rep ?m2 [LFr a Black k Lf] (Nd Lf b Red j Lf)"
    using st assms by (simp add: rep_LFr is_tree_def [symmetric] is_tree_iff)
  from fixInsertCollisions_rep [OF this] obtain m3 where
    "fixInsertCollisions ?m2 (Ref b) = ret m3" "is_tree m3 (Nd (Nd Lf b Red j Lf) a Black k Lf)" by auto
  then show ?thesis
    using FindKey_right_spine [OF t, of cmp "Some j"] c l s st
    by (simp add: Insert_link_node createNode_eq)
qed

lemma protocmp_forgets:
  assumes h: "Hash (ps k) \<noteq> Hash (ps j)" and m: "leaf m = LEAF_node" "root m = LEAF" and "a \<noteq> b"
  shows "\<exists>m1 m2. Insert (protocmp ps) a (Some k) m = ret (ReplyNil, m1)
    \<and> Insert (protocmp ps) b (Some j) m1 = ret (ReplyNil, m2)
    \<and> inorder (Nd (Nd Lf b Red j Lf) a Black k Lf) = [j, k]
    \<and> is_tree m2 (Nd (Nd Lf b Red j Lf) a Black k Lf)
    \<and> FindKey (protocmp ps) m2 (Some j) = ret None"
proof -
  note c = protocmp_less [OF h] protocmp_less [OF h [symmetric]]
  from Insert_empty [OF m, of "protocmp ps" a k] obtain m1 where
    m1: "Insert (protocmp ps) a (Some k) m = ret (ReplyNil, m1)" "is_tree m1 (Nd Lf a Black k Lf)" by auto
  from Insert_left_of_root [OF m1(2) assms(4) c] obtain m2 where
    m2: "Insert (protocmp ps) b (Some j) m1 = ret (ReplyNil, m2)"
      "is_tree m2 (Nd (Nd Lf b Red j Lf) a Black k Lf)" by auto
  with m1 FindKey_right_spine [OF m2(2), of "protocmp ps" "Some j"] c(1) show ?thesis by auto
qed

end
