(* ===== verification/Funcmap.thy ===== *)
theory Funcmap
  imports Prelude "HOL-Library.Multiset"
begin

text \<open>
  \<open>funcmap/funcmap.go\<close>: a table of functions called by name. An interface value is the nil
  interface, a value that is no function, or a function: for each parameter the test whether a value
  may be passed for it, and the body (\<open>None\<close> for a nil function). A parameter of \<open>Call\<close> is an
  interface, \<open>None\<close> when nil. The size given to \<open>NewFuncs\<close> is a hint for the allocator.
\<close>

section \<open>Model\<close>

datatype ('p, 'r) iface =
    NilInterface
  | NoFunction
  | Function "('p \<Rightarrow> bool) list" "('p list \<Rightarrow> 'r list go) option"

datatype call_error = not_callable string | does_not_exist string | ErrParamsNotAdapted

type_synonym ('p, 'r) Funcs = "string \<Rightarrow> ('p, 'r) iface option"

definition NewFuncs :: "int \<Rightarrow> ('p, 'r) Funcs" where
  "NewFuncs n = Map.empty"

text \<open>\<open>v.Type().NumIn()\<close>: the zero value of a nil interface has no type, and only function types have
  parameters.\<close>

definition NumIn :: "('p, 'r) iface \<Rightarrow> nat go" where
  "NumIn v = (case v of Function ps b \<Rightarrow> ret (length ps) | _ \<Rightarrow> panic NotCallable)"

text \<open>The deferred function turns any panic into an error.\<close>

definition Bind :: "string \<Rightarrow> ('p, 'r) iface \<Rightarrow> ('p, 'r) Funcs \<Rightarrow> call_error option \<times> ('p, 'r) Funcs" where
  "Bind name v f =
     (if panic_of (NumIn v) \<noteq> None then (Some (not_callable name), f) else (None, f(name \<mapsto> v)))"

text \<open>\<open>Value.Call\<close>: the zero value of a nil interface cannot be passed, nor a value of a type that
  is not assignable to the parameter's.\<close>

definition reflect_call :: "('p, 'r) iface \<Rightarrow> 'p option list \<Rightarrow> 'r list go" where
  "reflect_call v args =
     (case v of
        Function ps (Some b) \<Rightarrow>
          if length args = length ps \<and> list_all2 (\<lambda>ok a. case a of None \<Rightarrow> False | Some x \<Rightarrow> ok x) ps args
          then b (map the args) else panic NotCallable
      | _ \<Rightarrow> panic NotCallable)"

definition Call :: "string \<Rightarrow> 'p option list \<Rightarrow> ('p, 'r) Funcs \<Rightarrow> (call_error + 'r list) go" where
  "Call name params f =
     (case f name of None \<Rightarrow> ret (Inl (does_not_exist name))
      | Some v \<Rightarrow>
          bnd (NumIn v) (\<lambda>n.
          if length params \<noteq> n then ret (Inl ErrParamsNotAdapted)
          else bnd (reflect_call v params) (\<lambda>result. ret (Inr result))))"

section \<open>Tables built by binding\<close>

definition binds :: "(string \<times> ('p, 'r) iface) list \<Rightarrow> ('p, 'r) Funcs \<Rightarrow> ('p, 'r) Funcs" where
  "binds bs f = foldl (\<lambda>f b. snd (Bind (fst b) (snd b) f)) f bs"

definition callable :: "('p, 'r) iface \<Rightarrow> bool" where
  "callable v \<longleftrightarrow> (case v of Function ps b \<Rightarrow> True | _ \<Rightarrow> False)"

lemma callable_simps [simp]:
  "callable (Function ps b)" "\<not> callable NilInterface" "\<not> callable NoFunction"
  by (simp_all add: callable_def)

lemma panic_of_NumIn [simp]: "panic_of (NumIn v) = (if callable v then None else Some NotCallable)"
  by (cases v) (simp_all add: NumIn_def)

lemma Bind_eq:
  "Bind name v f = (if callable v then (None, f(name \<mapsto> v)) else (Some (not_callable name), f))"
  by (simp add: Bind_def)

text \<open>The binding that counts is the last one of a function under the name.\<close>

lemma binds_lookup:
  "binds bs f name =
     (case filter (\<lambda>b. fst b = name \<and> callable (snd b)) (rev bs) of [] \<Rightarrow> f name | b # _ \<Rightarrow> Some (snd b))"
proof (induction bs rule: rev_induct)
  case Nil
  then show ?case by (simp add: binds_def)
next
  case (snoc b bs)
  have "binds (bs @ [b]) f = snd (Bind (fst b) (snd b) (binds bs f))" by (simp add: binds_def)
  with snoc show ?case by (auto simp: Bind_eq)
qed

lemma binds_callable: "binds bs Map.empty name = Some v \<Longrightarrow> callable v"
  by (auto simp: binds_lookup split: list.splits dest: filter_eq_ConsD)

lemma Call_function:
  "f name = Some (Function ps b) \<Longrightarrow>
   Call name params f = (if length params = length ps
     then bnd (reflect_call (Function ps b) params) (\<lambda>r. ret (Inr r)) else ret (Inl ErrParamsNotAdapted))"
  by (simp add: Call_def NumIn_def)

section \<open>The repository's tests\<close>

text \<open>\<open>funcmap_test.go\<close>. A test is the list of the errors it reports, by the name they print; what the functions
  print is left out. The order of the loop over the map of test cases is the order of the list.\<close>

datatype go_value = GoInt "64 word" | GoString string

fun is_int :: "go_value \<Rightarrow> bool" where
  "is_int (GoInt n) \<longleftrightarrow> True"
| "is_int (GoString s) \<longleftrightarrow> False"

fun int_of :: "go_value \<Rightarrow> 64 word" where
  "int_of (GoInt n) = n"
| "int_of (GoString s) = 0"

definition testcases :: "(string \<times> (go_value, go_value) iface) list" where
  "testcases =
    [(''hello'', Function [] (Some (\<lambda>_. ret []))),
     (''foobar'', Function [is_int, is_int, is_int] (Some (\<lambda>as. ret [GoInt (sum_list (map int_of as))]))),
     (''mytest'', Function [Not \<circ> is_int, Not \<circ> is_int, Not \<circ> is_int] (Some (\<lambda>_. ret []))),
     (''errstring'', NoFunction),
     (''errnumeric'', NoFunction)]"

fun TestBind ::
  "(string \<times> ('p, 'r) iface) list \<Rightarrow> ('p, 'r) Funcs \<Rightarrow> (string list \<times> ('p, 'r) Funcs) go" where
  "TestBind [] f = ret ([], f)"
| "TestBind ((k, v) # cs) f =
     (let (err, f) = Bind k v f in
      if length k < 3 then panic IndexRange else
      bnd (TestBind cs f) (\<lambda>(errors, f).
      ret ((if (take 3 k = ''err'') = (err = None) then [k] else []) @ errors, f)))"

definition fails :: "call_error + 'r \<Rightarrow> bool" where
  "fails r \<longleftrightarrow> (case r of Inl e \<Rightarrow> True | Inr x \<Rightarrow> False)"

definition TestCall :: "(go_value, go_value) Funcs \<Rightarrow> string list go" where
  "TestCall f =
     bnd (Call ''foobar'' [] f) (\<lambda>r1.
     bnd (Call ''foobar'' [Some (GoInt 0), Some (GoInt 1), Some (GoInt 2)] f) (\<lambda>r2.
     bnd (Call ''mytest'' [Some (GoString ''hello''), Some (GoString ''jxr''), Some (GoString ''I love you'')] f) (\<lambda>r3.
     bnd (Call ''errstring'' [Some (GoInt 0), Some (GoInt 1), Some (GoInt 2)] f) (\<lambda>r4.
     ret ((if fails r1 then [] else [''foobar'']) @ (if fails r2 then [''foobar''] else [])
        @ (if fails r3 then [''foobar''] else []) @ (if fails r4 then [] else [''errstring'']))))))"

lemma TestBind_ok:
  "\<forall>(k, v) \<in> set cs. 3 \<le> length k \<and> (take 3 k = ''err'') = (\<not> callable v) \<Longrightarrow> TestBind cs f = ret ([], binds cs f)"
proof (induction cs arbitrary: f)
  case (Cons c cs)
  then show ?case by (cases c) (auto simp: Bind_eq binds_def)
qed (simp add: binds_def)

text \<open>Names that occur once are looked up alike whatever the order of binding.\<close>

lemma mset_short: "mset ys = mset xs \<Longrightarrow> length xs \<le> 1 \<Longrightarrow> ys = xs"
  by (cases xs) (auto simp: Suc_le_eq)

lemma binds_any_order:
  assumes "mset cs = mset ds" and "filter (\<lambda>b. fst b = name \<and> callable (snd b)) ds = xs" and "length xs \<le> 1"
  shows "binds cs f name = (case xs of [] \<Rightarrow> f name | b # _ \<Rightarrow> Some (snd b))"
proof -
  let ?P = "\<lambda>b. fst b = name \<and> callable (snd b)"
  have "mset (filter ?P (rev cs)) = mset (filter ?P ds)" by (simp add: assms(1))
  then have "mset (filter ?P (rev cs)) = mset xs" by (simp add: assms(2))
  then have "filter ?P (rev cs) = xs" using assms(3) by (rule mset_short)
  then show ?thesis by (simp add: binds_lookup)
qed

theorem funcmap_tests_pass:
  assumes "mset cs = mset testcases"
  shows "\<exists>f. TestBind cs (NewFuncs 100) = ret ([], f) \<and> TestCall f = ret []"
proof -
  have s: "set cs = set testcases" using assms by (metis set_mset_mset)
  have "TestBind cs (NewFuncs 100) = ret ([], binds cs (NewFuncs 100))"
    by (rule TestBind_ok) (auto simp: s testcases_def)
  moreover have "TestCall (binds cs (NewFuncs 100)) = ret []"
    using binds_any_order [OF assms, of "''foobar''"] binds_any_order [OF assms, of "''mytest''"]
      binds_any_order [OF assms, of "''errstring''"]
    by (simp add: TestCall_def Call_def NumIn_def reflect_call_def NewFuncs_def fails_def testcases_def)
  ultimately show ?thesis by blast
qed

end
