(* ===== verification/Sched_Props.thy ===== *)
theory Sched_Props
  imports Protocol_Init Funcmap
begin

text \<open>
  The properties of registration, of the round-robin scheduler and of the function table, each
  followed by its application to concrete queues of packets, trees and functions.
\<close>

section \<open>Concrete queues\<close>

text \<open>Queues as lists of packets, protocols that accept every packet and change nothing.\<close>

definition list_env :: "SkBuff list env" where
  "list_env = \<lparr>ZB_LAYER_DATALINK = 2, ZB_LAYER_NETWORK = 3, ZB_LAYER_TRANSPORT = 4, ZB_LAYER_SOCKET = 5,
     SkbQueueEmpty = (\<lambda>xs. xs = []),
     SkbDeQueue = (\<lambda>xs. case xs of [] \<Rightarrow> (None, []) | x # xs \<Rightarrow> (Some x, xs)),
     ProcessIn = (\<lambda>p s ps. ret (1, ps)), ProcessOut = (\<lambda>p s ps. ret (1, ps))\<rparr>"

definition proto :: "string \<Rightarrow> u32 \<Rightarrow> u8 \<Rightarrow> SkBuff list \<Rightarrow> SkBuff list ZBProtocol" where
  "proto n h l xs = \<lparr>Name = n, Hash = h, Layer = l, ProtoNumber = 0, QueueIn = Some xs, QueueOut = None\<rparr>"

definition two_protos :: "SkBuff list protos" where
  "two_protos = (\<lambda>p. if p = 7 then proto ''ipv4'' 1 3 [NewSkb, NewSkb] else proto ''tcp'' 2 4 [NewSkb])"

definition ring_tree :: "nat rbt" where
  "ring_tree = Nd (Nd Lf 1 Red 7 Lf) 0 Black 8 Lf"

definition ring_state :: "SkBuff list proto_state" where
  "ring_state = \<lparr>pstore = \<lparr>heap = [0 \<mapsto> mk_node 0 LEAF (Ref 1) LEAF Black 8, 1 \<mapsto> mk_node 1 (Ref 0) LEAF LEAF Red 7],
       leaf = LEAF_node, root = Ref 0, freed = []\<rparr>,
     roots = [Ref 0], protos = two_protos,
     rrs = (\<lambda>_. \<lparr>rbtree = Some 0, nodeIn = Ref 0, nodeOut = NilP\<rparr>)\<rparr>"

lemma ring_facts:
  "layer_ring x LOOP_DIR_IN ring_tree 1 ring_state" "nodes ring_tree = [(1, 7), (0, 8)]"
  "inorder ring_tree = [7, 8]" "rrs ring_state x = \<lparr>rbtree = Some 0, nodeIn = Ref 0, nodeOut = NilP\<rparr>"
  "protos ring_state = two_protos"
  by (simp_all add: layer_ring_def ring_state_def ring_tree_def is_tree_iff cursor_def)

lemma list_env_drains: "drains list_env length p d"
  by (auto simp: drains_def list_env_def split: list.splits)

lemma protoLoopIn_idle: "score \<le> 0 \<or> QueueIn (ps p) = Some [] \<Longrightarrow> protoLoopIn list_env p score ps = ret (score, ps)"
  by (subst protoLoopIn.simps) (auto simp: list_env_def)

lemma protoLoopIn_packet:
  "0 < score \<Longrightarrow> QueueIn (ps p) = Some (x # xs) \<Longrightarrow>
   protoLoopIn list_env p score ps = protoLoopIn list_env p (score - 1) (ps(p := (ps p)\<lparr>QueueIn := Some xs\<rparr>))"
  by (subst protoLoopIn.simps) (simp add: list_env_def)

section \<open>The scheduler\<close>

text \<open>C30. One call of \<open>ZBProtocolGenericLoop\<close> for a layer whose tree holds different protocols serves
  them in key order, beginning with the one at the layer's cursor and wrapping round after the last,
  each at most once, as long as more than one unit of score is left; it leaves the cursor at the first
  protocol not served, or where it was after a whole round. Both cursors that were nil are set to the
  first node, the tree is not touched.\<close>

theorem round_serves_ring:
  assumes "layer_ring x d t i s"
  shows "ZBProtocolGenericLoop e x score d s =
    bnd (ring_serve e d (fst (nodes t ! i)) (rotate i (nodes t)) score (protos s)) (\<lambda>(score, ps, node).
      ret (score, s\<lparr>protos := ps, rrs := (rrs s)(x := roundrobinEnd (fill_nodes t (rrs s x)) d node)\<rparr>))"
  by (rule GenericLoop_ring [OF assms])

theorem round_serves_ring_witness:
  "\<exists>s. ZBProtocolGenericLoop list_env ProtoRRNetwork 2 LOOP_DIR_IN ring_state = ret (1, s)
     \<and> nodeIn (rrs s ProtoRRNetwork) = Ref 1 \<and> nodeOut (rrs s ProtoRRNetwork) = Ref 1
     \<and> QueueIn (protos s 8) = Some [] \<and> QueueIn (protos s 7) = Some [NewSkb, NewSkb]"
  using round_serves_ring [OF ring_facts(1), of list_env ProtoRRNetwork 2]
  by (simp add: ring_facts protoLoop_def protoLoopIn_idle protoLoopIn_packet two_protos_def proto_def
    roundrobinEnd_def fill_nodes_def)

text \<open>C31. Fairness: successive calls for one layer and direction, each with a score above one, serve
  successive stretches of the ring of its protocols, none of them empty, so that as many calls as
  there are protocols serve every protocol.\<close>

theorem rounds_fair:
  assumes "layer_ring x d t i s" and "\<forall>score \<in> set scores. 1 < score"
    and "call_rounds e x d scores s = ret s'"
  shows "\<exists>kss. length kss = length scores \<and> [] \<notin> set kss
    \<and> serve_rounds e d (zip scores kss) (protos s) = ret (protos s')
    \<and> concat kss = map (\<lambda>m. snd (nodes t ! ((i + m) mod length (nodes t)))) [0..<length (concat kss)]
    \<and> (length (nodes t) \<le> length scores \<longrightarrow> set (concat kss) = set (inorder t))"
proof -
  from call_rounds_fair [OF assms] obtain kss where kss: "length kss = length scores" "[] \<notin> set kss"
    "serve_rounds e d (zip scores kss) (protos s) = ret (protos s')"
    "concat kss = map (\<lambda>m. snd (nodes t ! ((i + m) mod length (nodes t)))) [0..<length (concat kss)]" by blast
  let ?f = "\<lambda>m. snd (nodes t ! m)" and ?n = "length (nodes t)"
  have i: "i < ?n" using assms(1) by (simp add: layer_ring_def)
  have "set (concat kss) = set (inorder t)" if "?n \<le> length scores"
  proof -
    have "?n \<le> length (concat kss)" using that kss(1) length_concat_ge [OF kss(2)] by linarith
    from ring_covers [OF i this, of ?f] have "set (concat kss) = ?f ` {0..<?n}" by (subst kss(4)) simp
    also have "\<dots> = snd ` set (nodes t)"
      by (simp add: image_image [symmetric] nth_image [of "?n" "nodes t", simplified])
    also have "\<dots> = set (inorder t)" by (metis map_snd_nodes set_map)
    finally show ?thesis .
  qed
  with kss show ?thesis by blast
qed

theorem rounds_fair_witness:
  "\<exists>s' kss. call_rounds list_env ProtoRRNetwork LOOP_DIR_IN [2, 2] ring_state = ret s' \<and> length kss = 2
    \<and> serve_rounds list_env LOOP_DIR_IN (zip [2, 2] kss) two_protos = ret (protos s') \<and> set (concat kss) = {7, 8}"
proof -
  obtain n s1 where 1: "ZBProtocolGenericLoop list_env ProtoRRNetwork 2 LOOP_DIR_IN ring_state = ret (n, s1)"
    using GenericLoop_returns [OF ring_facts(1), of list_env length ProtoRRNetwork 2] list_env_drains by auto
  obtain j where "layer_ring ProtoRRNetwork LOOP_DIR_IN ring_tree j s1"
    using GenericLoop_advances [OF ring_facts(1) 1] by blast
  then obtain n' s2 where 2: "ZBProtocolGenericLoop list_env ProtoRRNetwork 2 LOOP_DIR_IN s1 = ret (n', s2)"
    using GenericLoop_returns [of ProtoRRNetwork LOOP_DIR_IN ring_tree j s1 list_env length 2] list_env_drains
    by auto
  from 1 2 have "call_rounds list_env ProtoRRNetwork LOOP_DIR_IN [2, 2] ring_state = ret s2" by simp
  with rounds_fair [OF ring_facts(1) _ this] show ?thesis
    by (auto simp: ring_facts numeral_2_eq_2)
qed

text \<open>C32. A call returns, with a score between zero and the one given, whenever dequeuing shrinks a
  queue that is not empty and the processing functions of the layer's protocols return without adding
  to the queue they are served from. For a single protocol the score falls by at most the number of
  packets queued, and when the call returns the score is used up or the queue is empty.\<close>

theorem rounds_return:
  assumes "layer_ring x d t i s" and "\<forall>k \<in> set (inorder t). drains e \<mu> k d"
    and "d = LOOP_DIR_IN \<or> d = LOOP_DIR_OUT"
  shows "(\<exists>score' s'. ZBProtocolGenericLoop e x score d s = ret (score', s') \<and> score' \<le> score
      \<and> (0 \<le> score \<longrightarrow> 0 \<le> score'))
    \<and> (\<forall>k \<in> set (inorder t). \<exists>score' ps'. protoLoop e k score d ps = ret (score', ps')
      \<and> score - int (queue_size \<mu> (queue_of d (ps k))) \<le> score' \<and> score' \<le> score
      \<and> (0 \<le> score \<longrightarrow> 0 \<le> score') \<and> served e d k score' ps')"
proof (intro conjI ballI)
  show "\<exists>score' s'. ZBProtocolGenericLoop e x score d s = ret (score', s') \<and> score' \<le> score
      \<and> (0 \<le> score \<longrightarrow> 0 \<le> score')" by (rule GenericLoop_returns [OF assms])
  fix k assume "k \<in> set (inorder t)"
  with assms(2) have "drains e \<mu> k d" by blast
  from protoLoop_returns [OF this assms(3)] show "\<exists>score' ps'. protoLoop e k score d ps = ret (score', ps')
      \<and> score - int (queue_size \<mu> (queue_of d (ps k))) \<le> score' \<and> score' \<le> score
      \<and> (0 \<le> score \<longrightarrow> 0 \<le> score') \<and> served e d k score' ps'" .
qed

theorem rounds_return_witness:
  "\<exists>score' s'. ZBProtocolGenericLoop list_env ProtoRRNetwork 9 LOOP_DIR_IN ring_state = ret (score', s')
    \<and> score' \<le> 9 \<and> 0 \<le> score'"
  using rounds_return [OF ring_facts(1), of list_env length ProtoRRNetwork 9] list_env_drains by auto

section \<open>Registration\<close>

text \<open>C33. \<open>ProtocolInit\<close> makes four new trees on every call and drops the old ones: afterwards the
  tree of the protocol's own layer holds that protocol alone and the other three are empty. The
  transport cursor is given the socket tree (the fourth one), so a transport protocol is registered in a
  tree no cursor points to, and the socket cursor keeps what it had. The positions in the ring, in both
  directions, are reset to nil in the cursor of the protocol's own layer and in no other: the other cursors keep
  theirs, also where their tree has been replaced.\<close>

theorem ProtocolInit_trees:
  assumes "leaf (pstore s) = LEAF_node"
  shows "\<exists>s'. ProtocolInit e a (Some p) s = ret s' \<and> length (roots s') = length (roots s) + 4
    \<and> leaf (pstore s') = LEAF_node
    \<and> (\<forall>j < 4. is_tree ((pstore s')\<lparr>root := roots s' ! (length (roots s) + j)\<rparr>)
         (if slot e (Layer (protos s p)) = Some j then Nd Lf a Black p Lf else Lf))
    \<and> rbtree (rrs s' ProtoRRDatalink) = Some (length (roots s))
    \<and> rbtree (rrs s' ProtoRRNetwork) = Some (length (roots s) + 1)
    \<and> rbtree (rrs s' ProtoRRTransport) = Some (length (roots s) + 3)
    \<and> rbtree (rrs s' ProtoRRSocket) = rbtree (rrs s ProtoRRSocket)
    \<and> (\<forall>x. nodeIn (rrs s' x)
            = (if map_option slot_name (slot e (Layer (protos s p))) = Some x then NilP else nodeIn (rrs s x))
         \<and> nodeOut (rrs s' x)
            = (if map_option slot_name (slot e (Layer (protos s p))) = Some x then NilP else nodeOut (rrs s x)))
    \<and> protos s' = (protos s)(p := (protos s p)\<lparr>Hash := crc32 (Name (protos s p))\<rparr>)"
  using ProtocolInit_outcome [OF assms, of e a p] unfolding slot_tree_def by blast

text \<open>Registered while every cursor stands at a node.\<close>

definition mid_ring :: "SkBuff list proto_state" where
  "mid_ring = (init_state two_protos)\<lparr>rrs := \<lambda>_. \<lparr>rbtree = None, nodeIn = Ref 3, nodeOut = Ref 4\<rparr>\<rparr>"

theorem ProtocolInit_trees_witness:
  "\<exists>s'. ProtocolInit list_env 5 (Some 8) mid_ring = ret s'
    \<and> is_tree ((pstore s')\<lparr>root := roots s' ! 2\<rparr>) (Nd Lf 5 Black 8 Lf)
    \<and> is_tree ((pstore s')\<lparr>root := roots s' ! 3\<rparr>) Lf \<and> rbtree (rrs s' ProtoRRTransport) = Some 3
    \<and> nodeIn (rrs s' ProtoRRTransport) = NilP \<and> nodeOut (rrs s' ProtoRRTransport) = NilP
    \<and> nodeIn (rrs s' ProtoRRNetwork) = Ref 3 \<and> nodeOut (rrs s' ProtoRRNetwork) = Ref 4"
proof -
  have s: "leaf (pstore mid_ring) = LEAF_node" "roots mid_ring = []"
    "slot list_env (Layer (protos mid_ring 8)) = Some 2"
    "nodeIn (rrs mid_ring x) = Ref 3" "nodeOut (rrs mid_ring x) = Ref 4" for x
    by (simp_all add: mid_ring_def init_state_def init_store_def slot_def list_env_def two_protos_def proto_def)
  from ProtocolInit_trees [OF s(1), of list_env 5 8] obtain s' where s':
    "ProtocolInit list_env 5 (Some 8) mid_ring = ret s'"
    "\<forall>j < 4. is_tree ((pstore s')\<lparr>root := roots s' ! j\<rparr>) (if j = 2 then Nd Lf 5 Black 8 Lf else Lf)"
    "rbtree (rrs s' ProtoRRTransport) = Some 3"
    "\<forall>x. nodeIn (rrs s' x) = (if slot_name 2 = x then NilP else Ref 3)
      \<and> nodeOut (rrs s' x) = (if slot_name 2 = x then NilP else Ref 4)" unfolding s by auto
  with s'(2) [rule_format, of 2] s'(2) [rule_format, of 3] show ?thesis by (auto simp: slot_name_def)
qed

text \<open>C34. After \<open>InitStack\<close> no layer can be served: with a transport protocol registered last, every
  tree a cursor points to is empty, and \<open>ProtocolLoop\<close> follows the nil child of the sentinel for each of
  its four layer numbers, whatever the score and the direction; other layer numbers give \<open>-1\<close>.\<close>

theorem InitStack_useless:
  assumes "ZB_LAYER_TRANSPORT e \<notin> {ZB_LAYER_DATALINK e, ZB_LAYER_NETWORK e}"
    and "Layer (ps tcp) = ZB_LAYER_TRANSPORT e"
  shows "\<exists>s. InitStack e a b (Some ipv4) (Some tcp) (init_state ps) = ret s
    \<and> (\<forall>layer score d. ProtocolLoop e score d layer s = (if layer < 4 then panic NilDeref else ret (-1, s)))"
  using assms by (rule InitStack_useless_aux)

theorem InitStack_useless_witness:
  "\<exists>s. InitStack list_env 0 1 (Some 7) (Some 8) (init_state two_protos) = ret s
    \<and> ProtocolLoop list_env 100 LOOP_DIR_IN 1 s = panic NilDeref \<and> ProtocolLoop list_env 100 LOOP_DIR_IN 4 s = ret (-1, s)"
proof -
  have "ZB_LAYER_TRANSPORT list_env \<notin> {ZB_LAYER_DATALINK list_env, ZB_LAYER_NETWORK list_env}"
    "Layer (two_protos 8) = ZB_LAYER_TRANSPORT list_env"
    by (simp_all add: list_env_def two_protos_def proto_def)
  then have "\<exists>s. InitStack list_env 0 1 (Some 7) (Some 8) (init_state two_protos) = ret s
    \<and> (\<forall>layer score d. ProtocolLoop list_env score d layer s = (if layer < 4 then panic NilDeref else ret (-1, s)))"
    by (rule InitStack_useless)
  then obtain s where s: "InitStack list_env 0 1 (Some 7) (Some 8) (init_state two_protos) = ret s"
    "\<And>layer score d. ProtocolLoop list_env score d layer s = (if layer < 4 then panic NilDeref else ret (-1, s))"
    by blast
  from s(2) [of 100 LOOP_DIR_IN 1] s(2) [of 100 LOOP_DIR_IN 4] s(1) show ?thesis by auto
qed

text \<open>C35. \<open>protocmp\<close> answers \<open>-1\<close> for two protocols with different hashes in either order, so a tree
  of protocols does not find what was put in: of two protocols inserted into an empty tree, the second
  is stored but looked up in vain.\<close>

theorem protocmp_loses_second:
  assumes "Hash (ps k) \<noteq> Hash (ps j)" and "leaf m = LEAF_node" "root m = LEAF" and "a \<noteq> b"
  shows "protocmp ps (Some k) (Some j) = ret (-1) \<and> protocmp ps (Some j) (Some k) = ret (-1)
    \<and> (\<exists>m1 m2. Insert (protocmp ps) a (Some k) m = ret (ReplyNil, m1)
      \<and> Insert (protocmp ps) b (Some j) m1 = ret (ReplyNil, m2)
      \<and> is_tree m2 (Nd (Nd Lf b Red j Lf) a Black k Lf) \<and> FindKey (protocmp ps) m2 (Some j) = ret None)"
  using protocmp_less [OF assms(1)] protocmp_less [OF assms(1) [symmetric]] protocmp_forgets [OF assms] by blast

theorem protocmp_loses_second_witness:
  "\<exists>m1 m2. Insert (protocmp two_protos) 0 (Some 7) (InitTree init_store) = ret (ReplyNil, m1)
     \<and> Insert (protocmp two_protos) 1 (Some 8) m1 = ret (ReplyNil, m2)
     \<and> is_tree m2 (Nd (Nd Lf 1 Red 8 Lf) 0 Black 7 Lf) \<and> FindKey (protocmp two_protos) m2 (Some 8) = ret None"
  using protocmp_loses_second [of two_protos 7 8 "InitTree init_store" 0 1]
  by (simp add: two_protos_def proto_def InitTree_def init_store_def)

section \<open>The function table\<close>

text \<open>C36. After any sequence of \<open>Bind\<close>s on a new table, \<open>Call\<close> runs the function bound last under the
  name when the number of parameters is right; with another number it returns \<open>ErrParamsNotAdapted\<close>, and
  for a name under which no function was bound the error that it does not exist. Values that are no
  functions are refused and change nothing. \<open>Call\<close> itself panics only where the function does not take
  the parameters' types, is nil, or panics itself.\<close>

theorem Call_after_Binds:
  "Call name params (binds bs (NewFuncs n)) =
    (case filter (\<lambda>b. fst b = name \<and> callable (snd b)) (rev bs) of
       [] \<Rightarrow> ret (Inl (does_not_exist name))
     | b # _ \<Rightarrow> (case snd b of Function ps body \<Rightarrow>
           if length params \<noteq> length ps then ret (Inl ErrParamsNotAdapted)
           else bnd (reflect_call (Function ps body) params) (\<lambda>r. ret (Inr r))))
   \<and> fst (Bind name v f) = (if callable v then None else Some (not_callable name))"
proof
  let ?bs = "filter (\<lambda>b. fst b = name \<and> callable (snd b)) (rev bs)"
  show "Call name params (binds bs (NewFuncs n)) =
    (case ?bs of [] \<Rightarrow> ret (Inl (does_not_exist name))
     | b # _ \<Rightarrow> (case snd b of Function ps body \<Rightarrow>
           if length params \<noteq> length ps then ret (Inl ErrParamsNotAdapted)
           else bnd (reflect_call (Function ps body) params) (\<lambda>r. ret (Inr r))))"
  proof (cases ?bs)
    case Nil
    then show ?thesis by (simp add: Call_def binds_lookup NewFuncs_def)
  next
    case (Cons b cs)
    then have "callable (snd b)" by (auto dest: filter_eq_ConsD)
    then obtain ps body where "snd b = Function ps body" by (cases "snd b") auto
    with Cons show ?thesis by (simp add: Call_function binds_lookup NewFuncs_def)
  qed
qed (simp add: Bind_eq)

end
