(* ===== verification/Spec2Isabelle.thy ===== *)
theory Spec2Isabelle
  imports RB_Run_Props Stack_Props Tcp_Flags Tcp_Sem Sched_Props
begin

text \<open>
  A verification development for \<^verbatim>\<open>gotcpip\<close>, a TCP/IP stack in user space written in Go
  (\<open>src/gotcpip/src\<close>). This theory imports the others and holds no definition of its own.

  The program. Frames are captured by the link layer (\<open>tcpip/net/ethernet\<close>), which strips nothing but
  records where the network header starts and passes a packet buffer (\<open>tcpip/net/skb\<close>) up a channel; the
  network layer (\<open>tcpip/net/ip\<close>) finds the transport header and passes the buffer on; the run loop of
  \<open>tcpip/net/tcp\<close> looks up a connection or a listener, parses the options of a SYN, makes connections and
  answers through \<open>IPConn.Send\<close> and \<open>EthConn.Send\<close>. Byte order, the checksum and address parsing are in
  \<open>tcpip/util\<close>. Beside this path there is a scheduler that serves protocols round-robin out of red-black
  trees (\<open>tcpip/net/protocol\<close>, set up by \<open>tcpip/stack\<close>), the red-black tree with its explicit node pool
  (\<open>rbtree\<close>, of which \<open>tcpip/rbtree\<close> is a copy), and a table of functions called by name
  (\<open>tcpip/funcmap\<close>).

  How code becomes definitions. A Go computation is a value of \<open>'a go\<close> (\<open>Prelude\<close>): \<open>None\<close> when it never
  returns, otherwise a panic (nil dereference, index out of range, process exit, a channel operation with
  nobody to complete it) or a result. State is passed explicitly and returned. Integers are words of their
  width; byte slices carry their memory beyond their length (\<open>Slice\<close>), because headers are overlaid on
  buffers by pointer casts. Loops over pointer structures, which may be cyclic, are
  \<open>partial_function (option)\<close>, so that spinning is the value \<open>None\<close> and no fuel is needed anywhere; every
  theorem about them says that they return or panic. What is not under \<open>src/\<close> is an argument: the chunk
  the slab pool hands out, what memory holds, the random sequence number, what the capture device answers, whether it accepts a
  frame, packet queues, the layer numbers of package \<open>constant\<close>, the processing functions of protocols.

  The red-black tree (\<open>rbtree/rbtree.go\<close>).

  \<^item> \<open>RB_Node\<close>: \<open>Node\<close>, the shared sentinel \<open>LEAF\<close>, pointers, the store and its loads and stores, \<open>InitTree\<close>,
    \<open>createNode\<close>, \<open>RBNodeAlloc\<close>, \<open>RBNodeFree\<close>. \<open>RB_Ops\<close>: every other operation, statement by statement.
  \<^item> \<open>RB_Tree\<close>: which tree a store holds (\<open>is_tree\<close>), and the same as a zipper with a node in focus (\<open>rep\<close>).
    \<open>RB_Rotate\<close>, \<open>RB_Search\<close>, \<open>RB_Insert\<close>, \<open>RB_Delete\<close>, \<open>RB_Walk\<close>: each operation as a function on zippers,
    with the addresses it writes. \<open>RB_Balance\<close>: colours, black heights, and that insertion keeps them.
  \<^item> \<open>RB_Repair\<close>, \<open>RB_Delete_Any\<close>: the repair loop of deletion, and deletion itself, on trees of any colouring, as functions
    \<open>fix_del\<close> and \<open>del_any\<close> on trees that are \<open>None\<close> exactly where the code dereferences a nil child of the sentinel.
  \<^item> \<open>RB_Dict\<close>, \<open>RB_Runs\<close>: the interface of a client as locales: \<open>ordered_dict\<close>, whose runs of
    insertions and lookups refine the same runs on an ascending list, and \<open>op_refinement\<close>, whose runs of all operations
    refine the same runs on an abstract state (the functional tree), panics included; the tree provides both for every
    comparison function that keeps its contract (locale \<open>comparator\<close>).
  \<^item> \<open>RB_Query\<close>: the comparison function and the test of \<open>rbtree_test.go\<close>. \<open>RB_Props\<close>, \<open>RB_Run_Props\<close>: the
    properties. Insertions and lookups are correct and keep the tree balanced; one deletion can already unbalance
    it, later deletions can panic (whatever the keys and their comparison function), but no run diverges, loses or
    invents a key.

  The packet path.

  \<^item> \<open>Util\<close> (\<open>util.go\<close>): byte order, \<open>Checksum\<close> against RFC 1071, \<open>Ip2long\<close> with its regular expression.
  \<^item> \<open>Slice\<close>: slices and header overlays, as a locale interpreted for each header's layout.
  \<^item> \<open>Ethernet\<close> (\<open>skb.go\<close>, \<open>eth.go\<close>, \<open>ethconn.go\<close>): \<open>SkBuff\<close>, \<open>EthHeader\<close>, one iteration of \<open>receive\<close>, \<open>EthConn.Send\<close>.
  \<^item> \<open>Ip\<close>, \<open>Ip_Send\<close> (\<open>ip.go\<close>, \<open>ipconn.go\<close>): \<open>IPHeader\<close> and its accessors, one iteration of \<open>receive\<close>, \<open>NewIPConn\<close>,
    \<open>IPConn.Send\<close>, and the frame it produces.
  \<^item> \<open>Tcp\<close>, \<open>Tcp_Options\<close> (\<open>tcp.go\<close>, part of \<open>tcpconn.go\<close>): \<open>TCPHeader\<close>, \<open>Parse\<close>, \<open>tcpParseOpt\<close>; an abstract syntax of
    option lists whose bytes the parser reads back.
  \<^item> \<open>Layout\<close>: the memory layout of the structs that are cast to one another, from which it follows where the write of
    \<open>TCP_SKB_CB\<close> lands. \<open>Print\<close>: the \<open>String\<close> methods of the three headers, and what the setters of the network header
    leave for its getters and for \<open>String\<close>.
  \<^item> \<open>Tcp_Conn\<close>, \<open>Tcp_Send\<close>, \<open>Tcp_Data\<close>, \<open>Tcp_Server\<close>, \<open>Tcp_Runs\<close> (\<open>tcpconn.go\<close>): connections, listeners, one iteration of
    \<open>listenForPackets\<close> (\<open>handle_packet\<close>), \<open>sendAck\<close>, \<open>sendSynAck\<close>, \<open>Read\<close>; the server as a step relation with its
    reachable states and their invariant. \<open>Tcp_Flags\<close>: the flag constants against the bytes of the header.
    \<open>Tcp_Types\<close>: the types of the server's state, preserved by every step, under which \<open>Accept\<close> and \<open>Read\<close> do not go wrong;
    and what a handled SYN does to the tables (\<open>SYN_handled\<close>).
    \<open>Tcp_Sem\<close>: one connection statement by statement, any number of readers and the run loop interleaving on its channel
    and semaphore; \<open>Read\<close> and \<open>push_all\<close> of \<open>Tcp_Conn\<close> are its uninterrupted runs.
    \<open>Tcp_Wire\<close>: the frames the server sends, read back as the headers they are made of.
  \<^item> \<open>Pipeline\<close>: the three \<open>Start\<close> functions, and the goroutines they leave running as steps on two bounded channels that
    interleave in any order with the application's calls. Its runs refine a server that takes every captured frame through
    all layers at once, so that what is proved of the server's reachable states holds of the running stack.
  \<^item> \<open>Net_Props\<close>: the properties. A SYN is answered in every reachable state, but the key a connection is stored
    under is never the key it is looked up with, so every other packet panics and no data is ever delivered.
    \<open>Stack_Props\<close>: the same for the stack as a whole: what a peer reads in an answer, well-typed states, the accept
    queue that stops the run loop when it is full, and that only SYNs are ever handled, each entering one new connection
    when a socket listens for it and doing nothing otherwise.

  The rest.

  \<^item> \<open>Protocol\<close> (\<open>protocol.go\<close>, \<open>protocol_impl.go\<close>, \<open>stack.go\<close>): registration, the round-robin loop, \<open>InitStack\<close>.
    \<open>Protocol_Ring\<close>: a call of the loop as a walk round the ring of a layer's protocols, and fairness of successive
    calls. \<open>Protocol_Return\<close>: termination, with the size of the queue being served as the measure. \<open>Protocol_Init\<close>: what
    registration leaves behind. \<open>Funcmap\<close> (\<open>funcmap.go\<close>): \<open>Bind\<close> and \<open>Call\<close>,
    and the package's tests. \<open>Sched_Props\<close>: the properties.

  Not modelled: what the capture device, the slab pool and \<open>reflect\<close> do inside (what they answer is an argument), log
  lines on the way, the fields of types no code reads (\<open>TCPSocket\<close>, \<open>TCPPacket\<close>, \<open>IPPacket\<close>, \<open>SKBOption\<close>: only their
  layout is there), the tests that need a device and never end, and the package \<open>tcpip/net/socket\<close>, which declares an empty function and does not parse.

  Assumptions worth knowing: the tree's pool has been initialised (an allocation from a nil \<open>rbPool\<close> is left out) and
  hands an insertion a chunk that is not in the tree; each protocol holds its own queues by value, so two protocols that
  share a queue are left out; in the relation
  \<open>runs\<close> of the whole stack a \<open>Read\<close> and a step of the run loop are each one step (how they interleave inside is the
  subject of \<open>Tcp_Sem\<close>, on one connection); printed log lines are left out.
\<close>

end
